(* ===== verification/Kernel_Prelude.thy ===== *)
theory Kernel_Prelude
  imports Main "HOL-Library.Word"
begin

text \<open>
  Shared vocabulary of the development: the machine integers of the kernel's sources, the
  error values a system-call handler can end with, a small result monad, and the generic facts
  on lists, maps and modular arithmetic that the component theories use.
\<close>

unbundle bit_operations_syntax

named_theorems res_simps \<open>rewrite rules of the result type\<close>

section \<open>Machine integers\<close>

type_synonym u8 = "8 word"
type_synonym u16 = "16 word"
type_synonym u32 = "32 word"
type_synonym u64 = "64 word"
type_synonym usize = "64 word"

text \<open>Signed integers are words read with \<^const>\<open>sint\<close>; an \<open>as\<close> cast between widths is
  \<^const>\<open>ucast\<close> (zero extension or truncation) or \<^const>\<open>scast\<close> (sign extension).\<close>

type_synonym i16 = "16 word"
type_synonym i32 = "32 word"
type_synonym i64 = "64 word"
type_synonym isize = "64 word"

text \<open>A reference-counted pointer is an index into the heap it points to.\<close>

type_synonym arc = nat

section \<open>Errors and results\<close>

text \<open>The \<open>LinuxError\<close> codes the sources return, the \<open>AxError\<close> codes they name, and the way a
  handler can end abnormally: with an errno, with an \<open>AxError\<close> that \<open>?\<close> converts (the
  conversion table belongs to the crate axerrno, so the error is kept as it was raised), or with
  a Rust panic.\<close>

datatype linux_error =
    EPERM | ENOENT | ESRCH | EINTR | ENOEXEC | EBADF | ECHILD | EAGAIN | ENOMEM | EACCES
  | EFAULT | EEXIST | ENODEV | ENOTDIR | EISDIR | EINVAL | EMFILE | ESPIPE | EPIPE | ERANGE
  | ENOSYS | EIDRM | EILSEQ | EAFNOSUPPORT | EOPNOTSUPP | EISCONN

datatype ax_error =
    NoMemory | AlreadyExists | NotFound | InvalidInput | InvalidData | IsADirectory
  | BadAddress | BadState | AxOther nat

datatype kerror = Errno linux_error | FromAx ax_error | Panic

type_synonym 'a res = "kerror + 'a"

fun rbind :: "'a res \<Rightarrow> ('a \<Rightarrow> 'b res) \<Rightarrow> 'b res" where
  "rbind (Inl e) f = Inl e"
| "rbind (Inr x) f = f x"

text \<open>\<open>sbind\<close> sequences two computations on a state; what the first one did to the state is kept
  when it fails, as it is in the code.\<close>

fun sbind :: "'a res \<times> 's \<Rightarrow> ('a \<Rightarrow> 's \<Rightarrow> 'b res \<times> 's) \<Rightarrow> 'b res \<times> 's" where
  "sbind (Inl e, s) f = (Inl e, s)"
| "sbind (Inr x, s) f = f x s"

lemma sbind_pair: "sbind (x, s) g = (case x of Inl e \<Rightarrow> (Inl e, s) | Inr v \<Rightarrow> g v s)"
  by (cases x) simp_all

text \<open>What holds of the state before and is kept by the continuation holds after.\<close>

lemma sbind_keeps:
  assumes "sbind m f = (r, s')" "K (snd m)" "\<And>x s r s'. K s \<Longrightarrow> f x s = (r, s') \<Longrightarrow> K s'"
  shows "K s'"
  using assms(1,2) assms(3) [of "snd m"] by (cases m; cases "fst m") auto

definition ok_or :: "'a option \<Rightarrow> linux_error \<Rightarrow> 'a res" where
  "ok_or x e = (case x of None \<Rightarrow> Inl (Errno e) | Some v \<Rightarrow> Inr v)"

definition is_ok :: "'a res \<Rightarrow> bool" where
  "is_ok r = (case r of Inl _ \<Rightarrow> False | Inr _ \<Rightarrow> True)"

lemma rbind_eq_Inr [res_simps]: "rbind m f = Inr y \<longleftrightarrow> (\<exists>x. m = Inr x \<and> f x = Inr y)"
  by (cases m) auto

lemma rbind_eq_Inl [res_simps]:
  "rbind m f = Inl e \<longleftrightarrow> m = Inl e \<or> (\<exists>x. m = Inr x \<and> f x = Inl e)"
  by (cases m) auto

lemma sbind_eq_Inr [res_simps]:
  "sbind p f = (Inr y, s') \<longleftrightarrow> (\<exists>x s. p = (Inr x, s) \<and> f x s = (Inr y, s'))"
  by (cases p; cases "fst p") auto

lemma ok_or_simps [simp]: "ok_or None e = Inl (Errno e)" "ok_or (Some v) e = Inr v"
  by (simp_all add: ok_or_def)

lemma ok_or_eq_Inr [res_simps]: "ok_or x e = Inr v \<longleftrightarrow> x = Some v"
  by (cases x) auto

lemma is_ok_simps [simp]: "is_ok (Inr x)" "\<not> is_ok (Inl e)"
  by (simp_all add: is_ok_def)

lemma is_ok_iff: "is_ok r \<longleftrightarrow> (\<exists>x. r = Inr x)"
  by (cases r) auto

definition from_ax :: "ax_error + 'a \<Rightarrow> 'a res" where
  "from_ax r = (case r of Inl e \<Rightarrow> Inl (FromAx e) | Inr x \<Rightarrow> Inr x)"

lemma from_ax_simps [simp]: "from_ax (Inl e) = Inl (FromAx e)" "from_ax (Inr x) = Inr x"
  by (simp_all add: from_ax_def)

section \<open>Indices of a circular buffer\<close>

lemma mod_shift_le:
  fixes h :: nat
  assumes "(h + i) mod n = (h + j) mod n" "i \<le> j" "j < n"
  shows "i = j"
proof -
  have "n dvd (h + j) - (h + i)"
    using assms(1,2) by (metis add_le_mono1 add.commute mod_eq_dvd_iff_nat)
  then have "n dvd j - i" by simp
  with assms(2,3) show ?thesis
    by (metis diff_is_0_eq dvd_imp_le gr_zeroI le_antisym leD less_imp_diff_less)
qed

lemma mod_shift_inj:
  fixes h :: nat
  assumes "(h + i) mod n = (h + j) mod n" "i < n" "j < n"
  shows "i = j"
  using assms mod_shift_le [of h i n j] mod_shift_le [of h j n i] by (metis nat_le_linear)

section \<open>Casts\<close>

lemma sint_nonneg:
  fixes x :: "'a::len word"
  assumes "0 \<le> sint x"
  shows "sint x = uint x"
proof (rule bit_eqI)
  fix n
  have "\<not> bit x (LENGTH('a) - Suc 0)" using assms by (simp add: bit_last_iff)
  then show "bit (sint x) n = bit (uint x) n"
    by (cases "n < LENGTH('a)") (auto simp: bit_sint_iff bit_uint_iff dest: bit_imp_le_length)
qed

lemma unat_sint_nonneg: "0 \<le> sint x \<Longrightarrow> unat x = nat (sint x)"
  using sint_nonneg [of x] by simp

lemma unat_ucast_less:
  fixes x :: "'a::len word"
  assumes "unat x < 2 ^ LENGTH('b::len)"
  shows "unat (ucast x :: 'b word) = unat x"
  using assms by (simp add: unsigned_ucast_eq take_bit_eq_mod)

lemma unat_ucast_up:
  fixes x :: "'a::len word"
  assumes "LENGTH('a) \<le> LENGTH('b::len)"
  shows "unat (ucast x :: 'b word) = unat x"
proof (rule unat_ucast_less)
  have "unat x < 2 ^ LENGTH('a)" by (rule unsigned_less)
  also have "... \<le> 2 ^ LENGTH('b)" using assms by (simp add: power_increasing)
  finally show "unat x < 2 ^ LENGTH('b)" .
qed

lemma ucast_scast_i32 [simp]: "ucast (scast (x :: i32) :: usize) = x"
  by (rule bit_word_eqI) (auto simp: bit_unsigned_iff bit_signed_iff)

lemma sint_word_of_nat_i32:
  assumes "i < 2 ^ 31"
  shows "sint (word_of_nat i :: i32) = int i"
proof -
  have "signed_take_bit 31 (int i) = int i"
    using assms by (intro signed_take_bit_int_eq_self) auto
  then show ?thesis by (simp add: signed_of_nat)
qed

lemma unat_scast_word_of_nat_i32:
  assumes "i < 2 ^ 31"
  shows "unat (scast (word_of_nat i :: i32) :: usize) = i"
proof -
  have "(scast (word_of_nat i :: i32) :: usize) = word_of_int (sint (word_of_nat i :: i32))"
    by simp
  also have "... = word_of_nat i" unfolding sint_word_of_nat_i32 [OF assms] by simp
  finally show ?thesis using assms by (simp add: unat_of_nat)
qed

section \<open>Maps\<close>

definition inj_map :: "('a \<rightharpoonup> 'b) \<Rightarrow> bool" where
  "inj_map m \<longleftrightarrow> (\<forall>x y v. m x = Some v \<longrightarrow> m y = Some v \<longrightarrow> x = y)"

lemma finite_dom_upd [simp]: "finite (dom m) \<Longrightarrow> finite (dom (m(k := v)))"
  by (cases v) (auto simp: dom_fun_upd)

end
