(* ===== verification/Aspace.thy ===== *)
theory Aspace
  imports Kernel_Prelude
begin

text \<open>
  The interfaces of the external crates \<open>axmm\<close> (a user address space) and \<open>memory_addr\<close> (rounding of
  addresses), as records of operations. An address space is an abstract state \<open>'as\<close>; the operations
  that fail return an \<open>AxError\<close>.
\<close>

datatype page_size = Size4K | Size2M | Size1G

datatype mapping_flag = MF_READ | MF_WRITE | MF_EXECUTE | MF_USER

record 'as aspace_ops =
  as_base :: "'as \<Rightarrow> usize"
  as_end :: "'as \<Rightarrow> usize"
  contains_range :: "'as \<Rightarrow> usize \<Rightarrow> usize \<Rightarrow> bool"
  find_free_area :: "'as \<Rightarrow> usize \<Rightarrow> usize \<Rightarrow> usize \<times> usize \<Rightarrow> page_size \<Rightarrow> usize option"
  map_linear ::
    "'as \<Rightarrow> usize \<Rightarrow> usize \<Rightarrow> usize \<Rightarrow> mapping_flag set \<Rightarrow> page_size \<Rightarrow> (ax_error + unit) \<times> 'as"
  map_alloc ::
    "'as \<Rightarrow> usize \<Rightarrow> usize \<Rightarrow> mapping_flag set \<Rightarrow> bool \<Rightarrow> page_size \<Rightarrow> (ax_error + unit) \<times> 'as"
  as_unmap :: "'as \<Rightarrow> usize \<Rightarrow> usize \<Rightarrow> (ax_error + unit) \<times> 'as"
  as_protect :: "'as \<Rightarrow> usize \<Rightarrow> usize \<Rightarrow> mapping_flag set \<Rightarrow> (ax_error + unit) \<times> 'as"
  as_write :: "'as \<Rightarrow> usize \<Rightarrow> page_size \<Rightarrow> u8 list \<Rightarrow> (ax_error + unit) \<times> 'as"
  check_region_access :: "'as \<Rightarrow> usize \<Rightarrow> usize \<Rightarrow> mapping_flag set \<Rightarrow> bool"
  populate_area :: "'as \<Rightarrow> usize \<Rightarrow> usize \<Rightarrow> mapping_flag set \<Rightarrow> (ax_error + unit) \<times> 'as"

text \<open>An instance that accepts every request.\<close>

definition free_aspace :: "unit aspace_ops" where
  "free_aspace =
     \<lparr>as_base = (\<lambda>_. 0x1000), as_end = (\<lambda>_. 0x100000), contains_range = (\<lambda>_ _ _. False),
      find_free_area = (\<lambda>_ hint _ _ _. Some (if hint = 0 then 0x1000 else hint)),
      map_linear = (\<lambda>_ _ _ _ _ _. (Inr (), ())), map_alloc = (\<lambda>_ _ _ _ _ _. (Inr (), ())),
      as_unmap = (\<lambda>_ _ _. (Inr (), ())), as_protect = (\<lambda>_ _ _ _. (Inr (), ())),
      as_write = (\<lambda>_ _ _ _. (Inr (), ())), check_region_access = (\<lambda>_ _ _ _. True),
      populate_area = (\<lambda>_ _ _ _. (Inr (), ()))\<rparr>"

section \<open>Rounding\<close>

record align_ops =
  align_down :: "usize \<Rightarrow> usize \<Rightarrow> usize"
  align_up :: "usize \<Rightarrow> usize \<Rightarrow> usize"

definition PAGE_SIZE_4K :: usize where
  "PAGE_SIZE_4K = 0x1000"

text \<open>What \<open>memory_addr\<close> documents for an alignment that is a power of two: rounding down and, when
  the result is representable, rounding up to a multiple.\<close>

definition align_spec :: "align_ops \<Rightarrow> bool" where
  "align_spec M \<longleftrightarrow>
     (\<forall>x k. k < 64 \<longrightarrow> unat (align_down M x (2 ^ k)) = unat x div 2 ^ k * 2 ^ k
        \<and> (unat x + (2 ^ k - 1) < 2 ^ 64 \<longrightarrow>
             unat (align_up M x (2 ^ k)) = (unat x + (2 ^ k - 1)) div 2 ^ k * 2 ^ k))"

text \<open>An instance by division.\<close>

definition div_align :: align_ops where
  "div_align =
     \<lparr>align_down = (\<lambda>x a. x div a * a),
      align_up = (\<lambda>x a. (x + (a - 1)) div a * a)\<rparr>"

lemma unat_div_mult: "unat (x div a * a :: usize) = unat x div unat a * unat a"
proof -
  have "unat x div unat a * unat a \<le> unat x" by simp
  also have "... < 2 ^ 64" using unsigned_less [of x] by simp
  finally show ?thesis by (simp add: unat_word_ariths unat_div mod_mult_left_eq)
qed

lemma unat_pow2: "k < 64 \<Longrightarrow> unat (2 ^ k :: usize) = 2 ^ k"
proof -
  assume "k < 64"
  then have "(2 :: nat) ^ k < 2 ^ 64" by (rule power_strict_increasing) simp
  then show ?thesis using unat_of_nat [of "2 ^ k", where 'a = 64] by simp
qed

lemma div_align_spec: "align_spec div_align"
  unfolding align_spec_def
proof (intro allI impI conjI)
  fix x :: usize and k :: nat assume k: "k < 64"
  show "unat (align_down div_align x (2 ^ k)) = unat x div 2 ^ k * 2 ^ k"
    using unat_div_mult [of x "2 ^ k"] unat_pow2 [OF k] by (simp add: div_align_def)
  assume b: "unat x + (2 ^ k - 1) < 2 ^ 64"
  have "unat (2 ^ k - 1 :: usize) = 2 ^ k - 1"
  proof -
    have "unat (2 ^ k :: usize) \<noteq> 0" using unat_pow2 [OF k] by simp
    then have "(1 :: usize) \<le> 2 ^ k" by (simp add: word_le_nat_alt unat_pow2 [OF k])
    then show ?thesis by (simp add: unat_sub unat_pow2 [OF k])
  qed
  then have "unat (x + (2 ^ k - 1)) = unat x + (2 ^ k - 1)"
    using b by (simp add: unat_word_ariths)
  then show "unat (align_up div_align x (2 ^ k)) = (unat x + (2 ^ k - 1)) div 2 ^ k * 2 ^ k"
    using unat_div_mult [of "x + (2 ^ k - 1)" "2 ^ k"] unat_pow2 [OF k] by (simp add: div_align_def)
qed

definition align_up_4k :: "align_ops \<Rightarrow> usize \<Rightarrow> usize" where
  "align_up_4k M x = align_up M x PAGE_SIZE_4K"

definition align_down_4k :: "align_ops \<Rightarrow> usize \<Rightarrow> usize" where
  "align_down_4k M x = align_down M x PAGE_SIZE_4K"

lemma align_4k:
  assumes "align_spec M"
  shows "unat (align_down_4k M x) = unat x div 4096 * 4096"
    and "unat x + 4095 < 2 ^ 64 \<Longrightarrow> unat (align_up_4k M x) = (unat x + 4095) div 4096 * 4096"
  using assms [unfolded align_spec_def, rule_format, of 12 x]
  by (simp_all add: align_down_4k_def align_up_4k_def PAGE_SIZE_4K_def)

end
