(* ===== verification/Shm.thy ===== *)
theory Shm
  imports Aspace
begin

text \<open>
  System V shared memory: the segment manager of \<open>core/src/shm.rs\<close> and the system calls of
  \<open>api/src/imp/mm/shm.rs\<close>. A segment lives behind an \<open>Arc\<close>; the model keeps every segment that was
  ever created in a list and an \<open>Arc\<close> is an index into it, so the manager and the processes that
  attached a segment share it. The page allocator, the address translation and the address spaces
  are parameters; the wall clock and the calling process are arguments of each operation. The padding
  fields of the C structures, always zero, are left out.
\<close>

section \<open>Data\<close>

record ipc_perm =
  key :: i32
  uid :: u32
  gid :: u32
  cuid :: u32
  cgid :: u32
  perm_mode :: u32
  seq :: u32

record shmid_ds =
  shm_perm :: ipc_perm
  shm_segsz :: usize
  shm_atime :: i64
  shm_dtime :: i64
  shm_ctime :: i64
  shm_cpid :: i32
  shm_lpid :: i32
  shm_nattch :: u64

record shm_segment =
  seg_id :: i32
  paddr :: usize
  seg_size :: usize
  ds :: shmid_ds
  marked_for_deletion :: bool

record shm_manager =
  segments :: "i32 \<rightharpoonup> arc"
  key_to_id :: "i32 \<rightharpoonup> i32"
  next_id :: i32

record shm_attach =
  att_id :: i32
  att_addr :: usize
  att_segment :: arc

record 'as shm_proc =
  aspace :: 'as
  attached :: "usize \<rightharpoonup> shm_attach"

record ('as, 'al) shm_sys =
  mgr :: shm_manager
  segs :: "shm_segment list"
  pages :: 'al
  procs :: "u32 \<Rightarrow> 'as shm_proc"

record 'al shm_env =
  aligns :: align_ops
  alloc_pages :: "'al \<Rightarrow> usize \<Rightarrow> (unit + usize) \<times> 'al"
  virt_to_phys :: "usize \<Rightarrow> usize"

definition IPC_PRIVATE :: i32 where
  "IPC_PRIVATE = 0"

section \<open>Segments\<close>

definition shm_segment_new ::
  "'al shm_env \<Rightarrow> u64 \<Rightarrow> u32 \<Rightarrow> 'al \<Rightarrow> i32 \<Rightarrow> i32 \<Rightarrow> usize \<Rightarrow> u16 \<Rightarrow> (ax_error + shm_segment) \<times> 'al" where
  "shm_segment_new E now pid al sid k sz md =
     (let aligned_size = align_up_4k (aligns E) sz in
      case alloc_pages E al (aligned_size div PAGE_SIZE_4K) of
        (Inl _, al) \<Rightarrow> (Inl NoMemory, al)
      | (Inr vaddr, al) \<Rightarrow>
          (Inr \<lparr>seg_id = sid, paddr = virt_to_phys E vaddr, seg_size = aligned_size,
                ds = \<lparr>shm_perm = \<lparr>key = k, uid = 0, gid = 0, cuid = 0, cgid = 0,
                                  perm_mode = ucast md, seq = 0\<rparr>,
                      shm_segsz = sz, shm_atime = 0, shm_dtime = 0, shm_ctime = now,
                      shm_cpid = pid, shm_lpid = 0, shm_nattch = 0\<rparr>,
                marked_for_deletion = False\<rparr>, al))"

definition inc_attach :: "u64 \<Rightarrow> shm_segment \<Rightarrow> shm_segment" where
  "inc_attach now s = s\<lparr>ds := (ds s)\<lparr>shm_nattch := shm_nattch (ds s) + 1, shm_atime := now\<rparr>\<rparr>"

definition dec_attach :: "u64 \<Rightarrow> shm_segment \<Rightarrow> shm_segment" where
  "dec_attach now s =
     (if shm_nattch (ds s) > 0 then
        let d = (ds s)\<lparr>shm_nattch := shm_nattch (ds s) - 1\<rparr>
        in s\<lparr>ds := if shm_nattch d = 0 then d\<lparr>shm_dtime := now\<rparr> else d\<rparr>
      else s)"

definition get_attach_count :: "shm_segment \<Rightarrow> usize" where
  "get_attach_count s = shm_nattch (ds s)"

definition set_last_pid :: "i32 \<Rightarrow> shm_segment \<Rightarrow> shm_segment" where
  "set_last_pid pid s = s\<lparr>ds := (ds s)\<lparr>shm_lpid := pid\<rparr>\<rparr>"

definition check_permissions :: "shm_segment \<Rightarrow> u32 \<Rightarrow> u32 \<Rightarrow> u16 \<Rightarrow> bool" where
  "check_permissions s u g access =
     (let md = perm_mode (shm_perm (ds s)); acc = ucast access in
      if u = uid (shm_perm (ds s)) then md AND push_bit 6 acc = push_bit 6 acc
      else if g = gid (shm_perm (ds s)) then md AND push_bit 3 acc = push_bit 3 acc
      else md AND acc = acc)"

definition validate :: "align_ops \<Rightarrow> shm_segment \<Rightarrow> bool" where
  "validate M s =
     (if shm_nattch (ds s) > 65536 then False
      else if seg_size s < shm_segsz (ds s) \<or> seg_size s < align_up_4k M (shm_segsz (ds s)) then False
      else if shm_segsz (ds s) = 0 \<or> shm_segsz (ds s) > 0x40000000 then False
      else if seg_size s = 0 \<or> seg_size s > 0x40000000 then False
      else if paddr s = 0 then False
      else True)"

definition get_stat :: "shm_segment \<Rightarrow> shmid_ds" where
  "get_stat s = ds s"

definition set_perm :: "u64 \<Rightarrow> u32 \<Rightarrow> u32 \<Rightarrow> u32 \<Rightarrow> shm_segment \<Rightarrow> shm_segment" where
  "set_perm now u g md s =
     s\<lparr>ds := (ds s)\<lparr>shm_perm := (shm_perm (ds s))\<lparr>uid := u, gid := g, perm_mode := md\<rparr>,
                    shm_ctime := now\<rparr>\<rparr>"

section \<open>The manager\<close>

definition shm_manager_new :: shm_manager where
  "shm_manager_new = \<lparr>segments = Map.empty, key_to_id = Map.empty, next_id = 1\<rparr>"

text \<open>The loop of \<open>alloc_id\<close>; the argument counts the attempts that are left of \<open>MAX_ATTEMPTS\<close>.\<close>

fun alloc_id_loop :: "nat \<Rightarrow> shm_manager \<Rightarrow> (ax_error + i32) \<times> shm_manager" where
  "alloc_id_loop 0 m = (Inl NoMemory, m)"
| "alloc_id_loop (Suc n) m =
     (let sid = next_id m;
          nx = next_id m + 1;
          nx = (if sint nx \<le> 0 then 1 else nx);
          m = m\<lparr>next_id := nx\<rparr>
      in if segments m sid = None then (Inr sid, m) else alloc_id_loop n m)"

definition MAX_ATTEMPTS :: nat where
  "MAX_ATTEMPTS = 1000"

definition alloc_id :: "shm_manager \<Rightarrow> (ax_error + i32) \<times> shm_manager" where
  "alloc_id m =
     (if card (dom (segments m)) \<ge> (2 ^ 31 - 1) div 2 then (Inl NoMemory, m)
      else alloc_id_loop MAX_ATTEMPTS m)"

text \<open>The part the two creating branches of \<open>get_or_create\<close> share: a fresh identifier, a new segment
  and its entry in \<open>segments\<close>.\<close>

definition create_segment ::
  "'al shm_env \<Rightarrow> u64 \<Rightarrow> u32 \<Rightarrow> i32 \<Rightarrow> usize \<Rightarrow> u16 \<Rightarrow> ('as, 'al) shm_sys
   \<Rightarrow> (ax_error + arc) \<times> ('as, 'al) shm_sys" where
  "create_segment E now pid k sz md S =
     (case alloc_id (mgr S) of
        (Inl e, m) \<Rightarrow> (Inl e, S\<lparr>mgr := m\<rparr>)
      | (Inr sid, m) \<Rightarrow>
          (case shm_segment_new E now pid (pages S) sid k sz md of
             (Inl e, al) \<Rightarrow> (Inl e, S\<lparr>mgr := m, pages := al\<rparr>)
           | (Inr s, al) \<Rightarrow>
               let a = length (segs S)
               in (Inr a, S\<lparr>mgr := m\<lparr>segments := (segments m)(sid \<mapsto> a)\<rparr>,
                            segs := segs S @ [s], pages := al\<rparr>)))"

definition get_or_create ::
  "'al shm_env \<Rightarrow> u64 \<Rightarrow> u32 \<Rightarrow> i32 \<Rightarrow> usize \<Rightarrow> i32 \<Rightarrow> ('as, 'al) shm_sys
   \<Rightarrow> (ax_error + arc) \<times> ('as, 'al) shm_sys" where
  "get_or_create E now pid k sz flags S =
     (let create_flag = flags AND 0x200;
          excl_flag = flags AND 0x400;
          md = ucast (flags AND 0x1FF)
      in
      if k = IPC_PRIVATE then create_segment E now pid k sz md S
      else
        (case key_to_id (mgr S) k of
           Some existing_id \<Rightarrow>
             if excl_flag \<noteq> 0 then (Inl AlreadyExists, S)
             else (case segments (mgr S) existing_id of
                 Some a \<Rightarrow> if marked_for_deletion (segs S ! a) then (Inl NotFound, S) else (Inr a, S)
               | None \<Rightarrow> (Inl NotFound,
                          S\<lparr>mgr := (mgr S)\<lparr>key_to_id := (key_to_id (mgr S))(k := None)\<rparr>\<rparr>))
         | None \<Rightarrow>
             if create_flag \<noteq> 0 then
               (case create_segment E now pid k sz md S of
                  (Inl e, S) \<Rightarrow> (Inl e, S)
                | (Inr a, S) \<Rightarrow>
                    (Inr a, S\<lparr>mgr := (mgr S)\<lparr>key_to_id :=
                               (key_to_id (mgr S))(k \<mapsto> seg_id (segs S ! a))\<rparr>\<rparr>))
             else (Inl NotFound, S)))"

definition get_by_id :: "shm_manager \<Rightarrow> i32 \<Rightarrow> ax_error + arc" where
  "get_by_id m sid = (case segments m sid of None \<Rightarrow> Inl NotFound | Some a \<Rightarrow> Inr a)"

definition remove_segment :: "i32 \<Rightarrow> ('as, 'al) shm_sys \<Rightarrow> (ax_error + unit) \<times> ('as, 'al) shm_sys" where
  "remove_segment sid S =
     (case segments (mgr S) sid of
        None \<Rightarrow> (Inl NotFound, S)
      | Some a \<Rightarrow>
          let k = key (shm_perm (ds (segs S ! a)));
              m = (mgr S)\<lparr>segments := (segments (mgr S))(sid := None)\<rparr>
          in (Inr (), S\<lparr>mgr := if k \<noteq> IPC_PRIVATE then m\<lparr>key_to_id := (key_to_id m)(k := None)\<rparr>
                               else m\<rparr>))"

section \<open>Attachments of a process\<close>

definition attach :: "i32 \<Rightarrow> usize \<Rightarrow> arc \<Rightarrow> 'as shm_proc \<Rightarrow> 'as shm_proc" where
  "attach sid addr a p =
     p\<lparr>attached := (attached p)(addr \<mapsto> \<lparr>att_id = sid, att_addr = addr, att_segment = a\<rparr>)\<rparr>"

definition detach :: "usize \<Rightarrow> 'as shm_proc \<Rightarrow> shm_attach option \<times> 'as shm_proc" where
  "detach addr p = (attached p addr, p\<lparr>attached := (attached p)(addr := None)\<rparr>)"

definition find_by_addr :: "usize \<Rightarrow> 'as shm_proc \<Rightarrow> shm_attach option" where
  "find_by_addr addr p = attached p addr"

text \<open>The data of a new process: nothing is attached.\<close>

definition process_shm_data_new :: "'as \<Rightarrow> 'as shm_proc" where
  "process_shm_data_new a = \<lparr>aspace = a, attached = Map.empty\<rparr>"

definition upd_seg :: "arc \<Rightarrow> (shm_segment \<Rightarrow> shm_segment) \<Rightarrow> ('as, 'al) shm_sys \<Rightarrow> ('as, 'al) shm_sys" where
  "upd_seg a f S = S\<lparr>segs := (segs S)[a := f (segs S ! a)]\<rparr>"

definition upd_proc :: "u32 \<Rightarrow> 'as shm_proc \<Rightarrow> ('as, 'al) shm_sys \<Rightarrow> ('as, 'al) shm_sys" where
  "upd_proc pid p S = S\<lparr>procs := (procs S)(pid := p)\<rparr>"

section \<open>System calls\<close>

definition MAX_SHM_SIZE :: usize where
  "MAX_SHM_SIZE = 0x40000000"

definition SHM_RND :: i32 where
  "SHM_RND = 0x2000"

definition SHM_RDONLY :: i32 where
  "SHM_RDONLY = 0x1000"

definition validate_segment :: "align_ops \<Rightarrow> shm_segment \<Rightarrow> i32 \<Rightarrow> unit res" where
  "validate_segment M s shmflg =
     (if marked_for_deletion s then Inl (Errno EIDRM)
      else if \<not> validate M s then Inl (Errno EINVAL)
      else let access = (if shmflg AND SHM_RDONLY \<noteq> 0 then 4 else 6) in
        if \<not> check_permissions s 0 0 access then Inl (Errno EACCES) else Inr ())"

definition sys_shmget ::
  "'al shm_env \<Rightarrow> u64 \<Rightarrow> u32 \<Rightarrow> i32 \<Rightarrow> usize \<Rightarrow> i32 \<Rightarrow> ('as, 'al) shm_sys
   \<Rightarrow> isize res \<times> ('as, 'al) shm_sys" where
  "sys_shmget E now pid k sz flags S =
     (if sz > MAX_SHM_SIZE \<or> (sz = 0 \<and> k \<noteq> IPC_PRIVATE) then (Inl (Errno EINVAL), S)
      else case get_or_create E now pid k sz flags S of
        (Inl e, S) \<Rightarrow> (Inl (FromAx e), S)
      | (Inr a, S) \<Rightarrow> (Inr (scast (seg_id (segs S ! a))), S))"

text \<open>The address \<open>sys_shmat\<close> picks in the address space of the process.\<close>

definition shmat_vaddr :: "'as aspace_ops \<Rightarrow> 'as \<Rightarrow> usize \<Rightarrow> usize \<Rightarrow> i32 \<Rightarrow> usize res" where
  "shmat_vaddr As as sz shmaddr shmflg =
     (if shmflg AND SHM_RND \<noteq> 0 then
        if shmaddr = 0 then Inl (Errno EINVAL) else Inr (shmaddr AND NOT (PAGE_SIZE_4K - 1))
      else if contains_range As as shmaddr sz then Inl (Errno EINVAL)
      else case find_free_area As as shmaddr sz (as_base As as, as_end As as) Size4K of
        Some v \<Rightarrow> Inr v
      | None \<Rightarrow> ok_or (find_free_area As as (as_base As as) sz (as_base As as, as_end As as) Size4K) ENOMEM)"

definition sys_shmat ::
  "align_ops \<Rightarrow> 'as aspace_ops \<Rightarrow> u64 \<Rightarrow> u32 \<Rightarrow> i32 \<Rightarrow> usize \<Rightarrow> i32 \<Rightarrow> ('as, 'al) shm_sys
   \<Rightarrow> isize res \<times> ('as, 'al) shm_sys" where
  "sys_shmat M As now pid shmid shmaddr shmflg S =
     (if sint shmid < 0 then (Inl (Errno EINVAL), S)
      else if shmflg AND SHM_RND = 0 \<and> shmaddr \<noteq> 0 \<and> shmaddr AND (PAGE_SIZE_4K - 1) \<noteq> 0
        then (Inl (Errno EINVAL), S)
      else case rbind (from_ax (get_by_id (mgr S) shmid)) (\<lambda>a.
                  rbind (validate_segment M (segs S ! a) shmflg) (\<lambda>_. Inr a)) of
        Inl e \<Rightarrow> (Inl e, S)
      | Inr a \<Rightarrow>
          let S = upd_seg a (inc_attach now) S;
              p = procs S pid;
              sz = seg_size (segs S ! a)
          in (case shmat_vaddr As (aspace p) sz shmaddr shmflg of
                Inl e \<Rightarrow> (Inl e, S)
              | Inr vaddr \<Rightarrow>
                  let flags = {MF_USER, MF_READ} \<union> (if shmflg AND SHM_RDONLY = 0 then {MF_WRITE} else {});
                      (r, as) = map_linear As (aspace p) vaddr (paddr (segs S ! a)) sz flags Size4K
                  in (case r of
                        Inl e \<Rightarrow> (Inl (FromAx e), upd_seg a (dec_attach now) (upd_proc pid (p\<lparr>aspace := as\<rparr>) S))
                      | Inr _ \<Rightarrow> (Inr vaddr, upd_proc pid (attach shmid vaddr a (p\<lparr>aspace := as\<rparr>)) S))))"

definition sys_shmdt ::
  "'as aspace_ops \<Rightarrow> u64 \<Rightarrow> u32 \<Rightarrow> usize \<Rightarrow> ('as, 'al) shm_sys \<Rightarrow> isize res \<times> ('as, 'al) shm_sys" where
  "sys_shmdt As now pid shmaddr S =
     (case detach shmaddr (procs S pid) of
        (None, _) \<Rightarrow> (Inl (Errno EINVAL), S)
      | (Some att, p) \<Rightarrow>
          let a = att_segment att;
              (r, as) = as_unmap As (aspace p) shmaddr (seg_size (segs S ! a));
              S = upd_proc pid (p\<lparr>aspace := as\<rparr>) S
          in (case r of
                Inl e \<Rightarrow> (Inl (FromAx e), S)
              | Inr _ \<Rightarrow>
                  let S = upd_seg a (\<lambda>s. set_last_pid pid (dec_attach now s)) S
                  in if marked_for_deletion (segs S ! a) \<and> get_attach_count (segs S ! a) = 0
                     then (case remove_segment (att_id att) S of
                             (Inl e, S) \<Rightarrow> (Inl (FromAx e), S)
                           | (Inr _, S) \<Rightarrow> (Inr 0, S))
                     else (Inr 0, S)))"

text \<open>\<open>sys_shmctl\<close>: \<open>ubuf\<close> is absent for a null pointer and otherwise the outcome of accessing the
  user's structure; the second component of the result is what is stored there.\<close>

definition sys_shmctl ::
  "u64 \<Rightarrow> i32 \<Rightarrow> i32 \<Rightarrow> shmid_ds res option \<Rightarrow> ('as, 'al) shm_sys
   \<Rightarrow> (isize \<times> shmid_ds option) res \<times> ('as, 'al) shm_sys" where
  "sys_shmctl now shmid cmd ubuf S =
     (case get_by_id (mgr S) shmid of
        Inl e \<Rightarrow> (Inl (FromAx e), S)
      | Inr a \<Rightarrow>
          if cmd = 0 then
            let S = upd_seg a (\<lambda>s. s\<lparr>marked_for_deletion := True\<rparr>) S
            in if get_attach_count (segs S ! a) = 0
               then (case remove_segment shmid S of
                       (Inl e, S) \<Rightarrow> (Inl (FromAx e), S)
                     | (Inr _, S) \<Rightarrow> (Inr (0, None), S))
               else (Inr (0, None), S)
          else if cmd = 2 then
            (case ubuf of
               None \<Rightarrow> (Inl (Errno EFAULT), S)
             | Some u \<Rightarrow> (rbind u (\<lambda>_. Inr (0, Some (get_stat (segs S ! a)))), S))
          else if cmd = 1 then
            (case ubuf of
               None \<Rightarrow> (Inl (Errno EFAULT), S)
             | Some (Inl e) \<Rightarrow> (Inl e, S)
             | Some (Inr u) \<Rightarrow>
                 (Inr (0, None), upd_seg a (set_perm now (uid (shm_perm u)) (gid (shm_perm u))
                                              (perm_mode (shm_perm u))) S))
          else (Inl (Errno EINVAL), S))"

section \<open>Runs\<close>

definition shm_init :: "'al \<Rightarrow> 'as \<Rightarrow> ('as, 'al) shm_sys" where
  "shm_init al as0 =
     \<lparr>mgr = shm_manager_new, segs = [], pages = al, procs = (\<lambda>_. process_shm_data_new as0)\<rparr>"

text \<open>Any process makes any call at any time; a process ends, or replaces its data, by starting again
  with nothing attached, which drops its attachments without detaching them.\<close>

inductive shm_step :: "'al shm_env \<Rightarrow> 'as aspace_ops \<Rightarrow> ('as, 'al) shm_sys \<Rightarrow> ('as, 'al) shm_sys \<Rightarrow> bool"
  for E As where
  shmget: "shm_step E As S (snd (sys_shmget E now pid k sz flags S))"
| shmat: "shm_step E As S (snd (sys_shmat (aligns E) As now pid shmid shmaddr shmflg S))"
| shmdt: "shm_step E As S (snd (sys_shmdt As now pid shmaddr S))"
| shmctl: "shm_step E As S (snd (sys_shmctl now shmid cmd ubuf S))"
| new_data: "shm_step E As S (upd_proc pid (process_shm_data_new a) S)"

definition shm_reachable :: "'al shm_env \<Rightarrow> 'as aspace_ops \<Rightarrow> ('as, 'al) shm_sys \<Rightarrow> bool" where
  "shm_reachable E As S \<longleftrightarrow> (\<exists>al as0. (shm_step E As)\<^sup>*\<^sup>* (shm_init al as0) S)"

section \<open>The invariant\<close>

abbreviation seg_key :: "('as, 'al) shm_sys \<Rightarrow> arc \<Rightarrow> i32" where
  "seg_key S a \<equiv> key (shm_perm (ds (segs S ! a)))"

abbreviation nattch :: "('as, 'al) shm_sys \<Rightarrow> arc \<Rightarrow> u64" where
  "nattch S a \<equiv> shm_nattch (ds (segs S ! a))"

text \<open>The places where a segment is attached.\<close>

definition att_set :: "('as, 'al) shm_sys \<Rightarrow> arc \<Rightarrow> (u32 \<times> usize) set" where
  "att_set S a = {(p, v). \<exists>att. attached (procs S p) v = Some att \<and> att_segment att = a}"

definition core_ids :: "('as, 'al) shm_sys \<Rightarrow> bool" where
  "core_ids S \<longleftrightarrow> 0 < sint (next_id (mgr S)) \<and>
     (\<forall>i a. segments (mgr S) i = Some a \<longrightarrow>
        a < length (segs S) \<and> seg_id (segs S ! a) = i \<and> 0 < sint i)"

definition core_keys :: "('as, 'al) shm_sys \<Rightarrow> bool" where
  "core_keys S \<longleftrightarrow>
     (\<forall>k i. key_to_id (mgr S) k = Some i \<longleftrightarrow>
        k \<noteq> IPC_PRIVATE \<and> (\<exists>a. segments (mgr S) i = Some a \<and> seg_key S a = k))"

definition core_att :: "('as, 'al) shm_sys \<Rightarrow> bool" where
  "core_att S \<longleftrightarrow>
     (\<forall>p v att. attached (procs S p) v = Some att \<longrightarrow>
        segments (mgr S) (att_id att) = Some (att_segment att)) \<and>
     (\<forall>a < length (segs S). card (att_set S a) \<le> unat (nattch S a))"

definition shm_core :: "('as, 'al) shm_sys \<Rightarrow> bool" where
  "shm_core S \<longleftrightarrow> core_ids S \<and> core_keys S \<and> core_att S"

definition no_zombie :: "('as, 'al) shm_sys \<Rightarrow> bool" where
  "no_zombie S \<longleftrightarrow>
     (\<forall>i a. segments (mgr S) i = Some a \<longrightarrow> marked_for_deletion (segs S ! a) \<longrightarrow> 0 < nattch S a)"

lemmas core_defs = shm_core_def core_ids_def core_keys_def core_att_def

lemma upd_simps [simp]:
  "mgr (upd_seg a f S) = mgr S" "procs (upd_seg a f S) = procs S"
  "length (segs (upd_seg a f S)) = length (segs S)"
  "mgr (upd_proc p q S) = mgr S" "segs (upd_proc p q S) = segs S"
  "procs (upd_proc p q S) = (procs S)(p := q)"
  "att_set (upd_seg a f S) = att_set S"
  by (auto simp: upd_seg_def upd_proc_def att_set_def)

lemma segs_upd_seg:
  "a < length (segs S) \<Longrightarrow> segs (upd_seg a f S) ! b = (if b = a then f (segs S ! a) else segs S ! b)"
  by (auto simp: upd_seg_def)

lemma core_segment:
  assumes "shm_core S" "segments (mgr S) i = Some a"
  shows "a < length (segs S)" "seg_id (segs S ! a) = i" "0 < sint i"
  using assms by (auto simp: shm_core_def core_ids_def)

lemma core_segment_inj:
  assumes "shm_core S" "segments (mgr S) i = Some a" "segments (mgr S) j = Some a"
  shows "i = j"
  using core_segment [OF assms(1)] assms(2,3) by metis

lemma core_key_iff:
  assumes "shm_core S"
  shows "key_to_id (mgr S) k = Some i \<longleftrightarrow>
           k \<noteq> IPC_PRIVATE \<and> (\<exists>a. segments (mgr S) i = Some a \<and> seg_key S a = k)"
  using assms by (simp add: shm_core_def core_keys_def)

lemma core_key_inj:
  assumes "shm_core S" "segments (mgr S) i = Some a" "segments (mgr S) j = Some b"
    and "seg_key S a = seg_key S b" "seg_key S a \<noteq> IPC_PRIVATE"
  shows "i = j"
  using core_key_iff [OF assms(1)] assms(2-) by (metis option.inject)

lemma core_upd_seg:
  assumes "shm_core S" "a < length (segs S)"
    and "seg_id (f (segs S ! a)) = seg_id (segs S ! a)"
    and "key (shm_perm (ds (f (segs S ! a)))) = seg_key S a"
    and "card (att_set S a) \<le> unat (shm_nattch (ds (f (segs S ! a))))"
  shows "shm_core (upd_seg a f S)"
proof -
  have k: "seg_key (upd_seg a f S) b = seg_key S b" for b
    using assms(2,4) by (simp add: segs_upd_seg)
  have i: "seg_id (segs (upd_seg a f S) ! b) = seg_id (segs S ! b)" for b
    using assms(2,3) by (simp add: segs_upd_seg)
  have "core_ids (upd_seg a f S)" "core_keys (upd_seg a f S)"
    using assms(1) by (auto simp: shm_core_def core_ids_def core_keys_def i k)
  moreover have "core_att (upd_seg a f S)"
    using assms(1,2,5) by (simp add: shm_core_def core_att_def segs_upd_seg)
  ultimately show ?thesis by (simp add: shm_core_def)
qed

lemma finite_att_set [simp]: "finite (att_set S a)"
  by (rule finite_subset [of _ UNIV]) auto

lemma core_shrink_proc:
  assumes "shm_core S" "\<And>v att. attached p v = Some att \<Longrightarrow> attached (procs S pid) v = Some att"
  shows "shm_core (upd_proc pid p S)"
proof -
  have "att_set (upd_proc pid p S) a \<subseteq> att_set S a" for a
    using assms(2) by (fastforce simp: att_set_def split: if_splits)
  then have c: "card (att_set (upd_proc pid p S) a) \<le> card (att_set S a)" for a
    by (intro card_mono) auto
  have "core_att (upd_proc pid p S)"
    unfolding core_att_def
  proof (intro conjI allI impI)
    fix q v att assume "attached (procs (upd_proc pid p S) q) v = Some att"
    then have "\<exists>r. attached (procs S r) v = Some att"
      using assms(2) by (cases "q = pid") auto
    then show "segments (mgr (upd_proc pid p S)) (att_id att) = Some (att_segment att)"
      using assms(1) by (auto simp: shm_core_def core_att_def)
  next
    fix a assume "a < length (segs (upd_proc pid p S))"
    then show "card (att_set (upd_proc pid p S) a) \<le> unat (nattch (upd_proc pid p S) a)"
      using c [of a] assms(1) by (auto simp: shm_core_def core_att_def intro: le_trans)
  qed
  then show ?thesis using assms(1) by (simp add: shm_core_def core_ids_def core_keys_def)
qed

lemma no_zombie_upd_proc [simp]: "no_zombie (upd_proc pid p S) \<longleftrightarrow> no_zombie S"
  by (simp add: no_zombie_def)

text \<open>Attaching where the counter is already ahead of the attachments.\<close>

lemma core_attach:
  assumes "shm_core S" "segments (mgr S) sid = Some a" "card (att_set S a) < unat (nattch S a)"
    and "attached p = attached (procs S pid)"
  shows "shm_core (upd_proc pid (attach sid v a p) S)" (is "shm_core ?T")
proof -
  have sub: "att_set ?T b \<subseteq> (if b = a then insert (pid, v) (att_set S a) else att_set S b)" for b
    using assms(4) by (auto simp: att_set_def attach_def split: if_splits)
  have c: "card (att_set ?T b) \<le> (if b = a then Suc (card (att_set S a)) else card (att_set S b))" for b
    using card_mono [OF _ sub [of b]] card_insert_le_m1
    by (auto split: if_splits intro: le_trans simp: card_insert_if)
  have "core_att ?T"
    unfolding core_att_def
  proof (intro conjI allI impI)
    fix q w att assume *: "attached (procs ?T q) w = Some att"
    show "segments (mgr ?T) (att_id att) = Some (att_segment att)"
    proof (cases "q = pid \<and> w = v")
      case True
      with * assms(2) show ?thesis by (auto simp: attach_def)
    next
      case False
      then have "attached (procs S q) w = Some att"
        using * assms(4) by (auto simp: attach_def split: if_splits)
      then show ?thesis using assms(1) by (auto simp: shm_core_def core_att_def)
    qed
  next
    fix b assume "b < length (segs ?T)"
    then have "card (att_set S b) \<le> unat (nattch S b)"
      using assms(1) by (simp add: shm_core_def core_att_def)
    then show "card (att_set ?T b) \<le> unat (nattch ?T b)"
      using c [of b] assms(3) by (auto split: if_splits)
  qed
  then show ?thesis using assms(1) by (simp add: shm_core_def core_ids_def core_keys_def)
qed

lemma remove_segment_eq:
  assumes "segments (mgr S) sid = Some a"
  shows "\<exists>T. remove_segment sid S = (Inr (), T) \<and> segs T = segs S \<and> procs T = procs S
           \<and> segments (mgr T) = (segments (mgr S))(sid := None) \<and> next_id (mgr T) = next_id (mgr S)
           \<and> key_to_id (mgr T) = (if seg_key S a \<noteq> IPC_PRIVATE
               then (key_to_id (mgr S))(seg_key S a := None) else key_to_id (mgr S))"
  using assms by (simp add: remove_segment_def Let_def)

text \<open>A segment nobody attached can be taken out of the manager.\<close>

lemma core_remove:
  assumes "shm_core S" "segments (mgr S) sid = Some a" "nattch S a = 0"
  shows "\<exists>T. remove_segment sid S = (Inr (), T) \<and> shm_core T \<and> segs T = segs S
           \<and> segments (mgr T) = (segments (mgr S))(sid := None)"
proof -
  obtain T where T: "remove_segment sid S = (Inr (), T)" "segs T = segs S" "procs T = procs S"
      "segments (mgr T) = (segments (mgr S))(sid := None)" "next_id (mgr T) = next_id (mgr S)"
      "key_to_id (mgr T) = (if seg_key S a \<noteq> IPC_PRIVATE
         then (key_to_id (mgr S))(seg_key S a := None) else key_to_id (mgr S))"
    using remove_segment_eq [OF assms(2)] by blast
  have at: "att_set T = att_set S" using T(3) by (simp add: att_set_def fun_eq_iff)
  have "core_ids T" using assms(1) T by (auto simp: shm_core_def core_ids_def)
  moreover have "core_keys T"
    unfolding core_keys_def
  proof (intro allI)
    fix k i
    show "key_to_id (mgr T) k = Some i \<longleftrightarrow>
        k \<noteq> IPC_PRIVATE \<and> (\<exists>a. segments (mgr T) i = Some a \<and> seg_key T a = k)"
    proof (cases "k \<noteq> IPC_PRIVATE \<and> seg_key S a = k")
      case True
      then have "seg_key S b \<noteq> k" if "segments (mgr T) i = Some b" for b
        using that core_key_inj [OF assms(1,2), of i b] T(4) by (auto split: if_splits)
      with True T(2,6) show ?thesis by auto
    next
      case False
      then have "(\<exists>b. segments (mgr T) i = Some b \<and> seg_key T b = k) \<longleftrightarrow>
          (\<exists>b. segments (mgr S) i = Some b \<and> seg_key S b = k)" if "k \<noteq> IPC_PRIVATE"
        using that assms(2) T(2,4) by auto
      moreover have "key_to_id (mgr T) k = key_to_id (mgr S) k \<or> k = IPC_PRIVATE"
        using False T(6) by auto
      moreover have "k = IPC_PRIVATE \<Longrightarrow> key_to_id (mgr T) k \<noteq> Some i"
        using core_key_iff [OF assms(1), of k i] T(6) by auto
      ultimately show ?thesis using core_key_iff [OF assms(1), of k i] by metis
    qed
  qed
  moreover have "core_att T"
    unfolding core_att_def
  proof (intro conjI allI impI)
    fix p v att assume h: "attached (procs T p) v = Some att"
    then have s: "segments (mgr S) (att_id att) = Some (att_segment att)"
      using assms(1) T(3) by (auto simp: shm_core_def core_att_def)
    have "att_id att \<noteq> sid"
    proof
      assume "att_id att = sid"
      with s assms(2) h T(3) have "(p, v) \<in> att_set S a" by (auto simp: att_set_def)
      moreover have "card (att_set S a) = 0"
        using assms core_segment(1) [OF assms(1,2)] by (auto simp: shm_core_def core_att_def)
      ultimately show False by auto
    qed
    with s T(4) show "segments (mgr T) (att_id att) = Some (att_segment att)" by simp
  next
    fix b assume "b < length (segs T)"
    then show "card (att_set T b) \<le> unat (nattch T b)"
      using assms(1) T(2) at by (simp add: shm_core_def core_att_def)
  qed
  ultimately show ?thesis using T by (auto simp: shm_core_def)
qed

section \<open>The invariant holds\<close>

lemma alloc_id_loop_spec:
  assumes "alloc_id_loop n m = (r, m')" "0 < sint (next_id m)"
  shows "segments m' = segments m \<and> key_to_id m' = key_to_id m \<and> 0 < sint (next_id m')
     \<and> (\<forall>i. r = Inr i \<longrightarrow> segments m i = None \<and> 0 < sint i)"
  using assms
proof (induction n arbitrary: m)
  case (Suc n)
  let ?m = "m\<lparr>next_id := if sint (next_id m + 1) \<le> 0 then 1 else next_id m + 1\<rparr>"
  have p: "0 < sint (next_id ?m)" by simp
  show ?case
  proof (cases "segments m (next_id m)")
    case None
    with Suc.prems p show ?thesis by (auto simp: Let_def)
  next
    case (Some a)
    with Suc.prems have "alloc_id_loop n ?m = (r, m')" by (simp add: Let_def)
    from Suc.IH [OF this p] show ?thesis by simp
  qed
qed auto

lemma alloc_id_spec:
  assumes "alloc_id m = (r, m')" "0 < sint (next_id m)"
  shows "segments m' = segments m \<and> key_to_id m' = key_to_id m \<and> 0 < sint (next_id m')
     \<and> (\<forall>i. r = Inr i \<longrightarrow> segments m i = None \<and> 0 < sint i)"
  using assms alloc_id_loop_spec [of MAX_ATTEMPTS m r m'] by (auto simp: alloc_id_def split: if_splits)

lemma core_same_tables:
  assumes "shm_core S" "segments (mgr T) = segments (mgr S)" "key_to_id (mgr T) = key_to_id (mgr S)"
    and "0 < sint (next_id (mgr T))" "segs T = segs S" "procs T = procs S"
  shows "shm_core T"
proof -
  have "att_set T = att_set S" using assms(6) by (simp add: att_set_def fun_eq_iff)
  then show ?thesis using assms by (simp add: core_defs)
qed

text \<open>What a successful creation adds.\<close>

definition created ::
  "('as, 'al) shm_sys \<Rightarrow> i32 \<Rightarrow> i32 \<Rightarrow> shm_segment \<Rightarrow> ('as, 'al) shm_sys \<Rightarrow> bool" where
  "created S sid k s T \<longleftrightarrow> segments (mgr S) sid = None \<and> 0 < sint sid
     \<and> segments (mgr T) = (segments (mgr S))(sid \<mapsto> length (segs S))
     \<and> key_to_id (mgr T) = key_to_id (mgr S) \<and> 0 < sint (next_id (mgr T))
     \<and> segs T = segs S @ [s] \<and> procs T = procs S
     \<and> seg_id s = sid \<and> key (shm_perm (ds s)) = k \<and> shm_nattch (ds s) = 0
     \<and> \<not> marked_for_deletion s"

lemma create_segment_cases:
  assumes "create_segment E now pid k sz md S = (r, T)" "0 < sint (next_id (mgr S))"
  obtains (fail) e where "r = Inl e" "segments (mgr T) = segments (mgr S)"
      "key_to_id (mgr T) = key_to_id (mgr S)" "0 < sint (next_id (mgr T))"
      "segs T = segs S" "procs T = procs S"
    | (ok) sid s where "r = Inr (length (segs S))" "created S sid k s T"
proof -
  obtain q m where q: "alloc_id (mgr S) = (q, m)" by fastforce
  note A = alloc_id_spec [OF q assms(2)]
  show thesis
  proof (cases q)
    case (Inl e)
    with q assms(1) A show ?thesis by (intro fail) (auto simp: create_segment_def)
  next
    case (Inr sid)
    obtain n al where n: "shm_segment_new E now pid (pages S) sid k sz md = (n, al)" by fastforce
    show ?thesis
    proof (cases n)
      case (Inl e)
      with q Inr n assms(1) A show ?thesis by (intro fail) (auto simp: create_segment_def)
    next
      case (Inr s)
      have "seg_id s = sid \<and> key (shm_perm (ds s)) = k \<and> shm_nattch (ds s) = 0
          \<and> \<not> marked_for_deletion s"
        using n Inr by (auto simp: shm_segment_new_def Let_def split: prod.splits sum.splits)
      with q \<open>q = Inr sid\<close> n Inr assms(1) A show ?thesis
        by (intro ok [of sid s]) (auto simp: create_segment_def created_def Let_def)
    qed
  qed
qed

lemma created_att_empty:
  assumes "shm_core S" "created S sid k s T"
  shows "att_set T (length (segs S)) = {}" and "b \<noteq> length (segs S) \<Longrightarrow> att_set T b = att_set S b"
proof -
  have "att_segment att < length (segs S)" if "attached (procs S p) v = Some att" for p v att
    using that assms(1) core_segment(1) [OF assms(1), of "att_id att"]
    by (auto simp: shm_core_def core_att_def)
  then show "att_set T (length (segs S)) = {}"
    using assms(2) by (fastforce simp: att_set_def created_def)
  show "b \<noteq> length (segs S) \<Longrightarrow> att_set T b = att_set S b"
    using assms(2) by (simp add: att_set_def created_def)
qed

text \<open>After a creation, with the key entered unless the segment is private.\<close>

lemma core_created:
  assumes S: "shm_core S" and c: "created S sid k s T"
    and "k = IPC_PRIVATE \<or> key_to_id (mgr S) k = None"
    and U: "segments (mgr U) = segments (mgr T)" "next_id (mgr U) = next_id (mgr T)"
      "segs U = segs T" "procs U = procs T"
      "key_to_id (mgr U) = (if k = IPC_PRIVATE then key_to_id (mgr T) else (key_to_id (mgr T))(k \<mapsto> sid))"
  shows "shm_core U"
proof -
  note c' = c [unfolded created_def]
  have old: "a < length (segs S)" if "segments (mgr S) i = Some a" for i a
    using core_segment(1) [OF S that] .
  have "core_ids U"
    using S c' U old by (auto simp: shm_core_def core_ids_def nth_append less_SucI)
  moreover have "core_keys U"
    unfolding core_keys_def
  proof (intro allI)
    fix k' i
    have n: "seg_key U a = (if a = length (segs S) then k else seg_key S a)" if "a \<le> length (segs S)" for a
      using c' U(3) that by (auto simp: nth_append)
    have "(\<exists>a. segments (mgr U) i = Some a \<and> seg_key U a = k') \<longleftrightarrow>
        (if i = sid then k' = k else \<exists>a. segments (mgr S) i = Some a \<and> seg_key S a = k')"
    proof (cases "i = sid")
      case True
      then show ?thesis using c' U(1) n by auto
    next
      case False
      then have "segments (mgr U) i = segments (mgr S) i" using c' U(1) by simp
      then show ?thesis using False n old by (metis less_imp_le_nat nat_neq_iff)
    qed
    moreover have "key_to_id (mgr S) k \<noteq> Some i" using assms(3) core_key_iff [OF S, of k i] by auto
    ultimately show "key_to_id (mgr U) k' = Some i \<longleftrightarrow>
        k' \<noteq> IPC_PRIVATE \<and> (\<exists>a. segments (mgr U) i = Some a \<and> seg_key U a = k')"
      using core_key_iff [OF S, of k' i] c' U(5) by auto
  qed
  moreover have "core_att U"
    unfolding core_att_def
  proof (intro conjI allI impI)
    fix p v att assume "attached (procs U p) v = Some att"
    then have "segments (mgr S) (att_id att) = Some (att_segment att)"
      using S c' U(4) by (auto simp: shm_core_def core_att_def)
    then show "segments (mgr U) (att_id att) = Some (att_segment att)" using c' U(1) by auto
  next
    fix b assume "b < length (segs U)"
    moreover have "att_set U = att_set T" using U(4) by (simp add: att_set_def fun_eq_iff)
    ultimately show "card (att_set U b) \<le> unat (nattch U b)"
      using created_att_empty [OF S c] S c' U(3)
      by (cases "b = length (segs S)") (auto simp: shm_core_def core_att_def nth_append)
  qed
  ultimately show ?thesis by (simp add: shm_core_def)
qed

lemma no_zombie_created:
  assumes "no_zombie S" "shm_core S" "created S sid k s T"
    and "segments (mgr U) = segments (mgr T)" "segs U = segs T"
  shows "no_zombie U"
  unfolding no_zombie_def
proof (intro allI impI)
  fix i a assume s: "segments (mgr U) i = Some a" and m: "marked_for_deletion (segs U ! a)"
  note c = assms(3) [unfolded created_def]
  have "a \<noteq> length (segs S)" using m c assms(5) by (auto simp: nth_append)
  then have i: "segments (mgr S) i = Some a" using s c assms(4) by (auto split: if_splits)
  then have "segs U ! a = segs S ! a" using c assms(5) core_segment(1) [OF assms(2) i] by (simp add: nth_append)
  then show "0 < nattch U a" using m i assms(1) by (auto simp: no_zombie_def)
qed

definition shm_inv :: "('as, 'al) shm_sys \<Rightarrow> bool" where
  "shm_inv S \<longleftrightarrow> shm_core S \<and> no_zombie S"

lemma get_or_create_inv:
  assumes "get_or_create E now pid k sz flags S = (r, T)" "shm_inv S"
  shows "shm_inv T \<and> (\<forall>a. r = Inr a \<longrightarrow> a < length (segs T)
           \<and> segments (mgr T) (seg_id (segs T ! a)) = Some a \<and> seg_key T a = k
           \<and> \<not> marked_for_deletion (segs T ! a))"
proof -
  have S: "shm_core S" "no_zombie S" and nx: "0 < sint (next_id (mgr S))"
    using assms(2) by (auto simp: shm_inv_def shm_core_def core_ids_def)
  let ?c = "create_segment E now pid k sz (ucast (flags AND 0x1FF)) S"
  obtain q V where q: "?c = (q, V)" by fastforce
  show ?thesis
  proof (cases "k = IPC_PRIVATE \<or> (key_to_id (mgr S) k = None \<and> flags AND 0x200 \<noteq> 0)")
    case True
    have r: "r = q \<and> mgr T = (case q of Inl _ \<Rightarrow> mgr V | Inr a \<Rightarrow> if k = IPC_PRIVATE then mgr V
        else (mgr V)\<lparr>key_to_id := (key_to_id (mgr V))(k \<mapsto> seg_id (segs V ! a))\<rparr>)
        \<and> segs T = segs V \<and> procs T = procs V"
      using True assms(1) q by (auto simp: get_or_create_def Let_def split: sum.splits if_splits)
    show ?thesis
    proof (rule create_segment_cases [OF q nx])
      fix e assume "q = Inl e" "segments (mgr V) = segments (mgr S)"
        "key_to_id (mgr V) = key_to_id (mgr S)" "0 < sint (next_id (mgr V))"
        "segs V = segs S" "procs V = procs S"
      with r S have "shm_core T" "no_zombie T"
        by (auto intro!: core_same_tables [of S] simp: no_zombie_def)
      with r \<open>q = Inl e\<close> show ?thesis by (simp add: shm_inv_def)
    next
      fix sid s assume o: "q = Inr (length (segs S))" "created S sid k s V"
      have v: "segs V ! length (segs S) = s" "seg_id s = sid" using o(2) by (auto simp: created_def)
      have "shm_core T"
        by (rule core_created [OF S(1) o(2)]) (use True r o v in auto)
      moreover have "no_zombie T"
        by (rule no_zombie_created [OF S(2,1) o(2)]) (use r o in auto)
      ultimately show ?thesis using r o v by (auto simp: shm_inv_def created_def)
    qed
  next
    case False
    show ?thesis
    proof (cases "key_to_id (mgr S) k")
      case None
      with False assms show ?thesis by (auto simp: get_or_create_def Let_def)
    next
      case (Some i)
      with core_key_iff [OF S(1), of k i] obtain a where a: "segments (mgr S) i = Some a" "seg_key S a = k"
        by auto
      with False Some assms core_segment [OF S(1) a(1)] show ?thesis
        by (auto simp: get_or_create_def Let_def split: if_splits)
    qed
  qed
qed

lemma shmget_inv: "shm_inv S \<Longrightarrow> shm_inv (snd (sys_shmget E now pid k sz flags S))"
  using get_or_create_inv by (fastforce simp: sys_shmget_def split: prod.splits sum.splits)

lemma unat_inc: "x \<le> 65536 \<Longrightarrow> unat (x + 1 :: u64) = unat x + 1"
proof -
  assume "x \<le> 65536"
  then have "unat x \<le> 65536" by (simp add: word_le_nat_alt)
  then show ?thesis by (simp add: unat_word_ariths)
qed

lemma unat_dec: "0 < x \<Longrightarrow> unat (x - 1 :: u64) = unat x - 1"
  by (simp add: unat_minus_one word_gt_0)

lemma attach_fields [simp]:
  "seg_id (inc_attach now s) = seg_id s" "shm_perm (ds (inc_attach now s)) = shm_perm (ds s)"
  "seg_size (inc_attach now s) = seg_size s" "paddr (inc_attach now s) = paddr s"
  "shm_nattch (ds (inc_attach now s)) = shm_nattch (ds s) + 1"
  "marked_for_deletion (inc_attach now s) = marked_for_deletion s"
  "seg_id (dec_attach now s) = seg_id s" "shm_perm (ds (dec_attach now s)) = shm_perm (ds s)"
  "marked_for_deletion (dec_attach now s) = marked_for_deletion s"
  "shm_nattch (ds (dec_attach now s)) = (if 0 < shm_nattch (ds s) then shm_nattch (ds s) - 1 else 0)"
  "seg_id (set_last_pid pid s) = seg_id s" "shm_perm (ds (set_last_pid pid s)) = shm_perm (ds s)"
  "marked_for_deletion (set_last_pid pid s) = marked_for_deletion s"
  "shm_nattch (ds (set_last_pid pid s)) = shm_nattch (ds s)"
  "seg_id (set_perm now u g md s) = seg_id s" "key (shm_perm (ds (set_perm now u g md s))) = key (shm_perm (ds s))"
  "marked_for_deletion (set_perm now u g md s) = marked_for_deletion s"
  "shm_nattch (ds (set_perm now u g md s)) = shm_nattch (ds s)"
  by (auto simp: inc_attach_def dec_attach_def set_last_pid_def set_perm_def Let_def word_gt_0)

lemma no_zombie_upd_seg:
  assumes "no_zombie S" "a < length (segs S)"
    and "marked_for_deletion (f (segs S ! a)) \<Longrightarrow> 0 < shm_nattch (ds (f (segs S ! a)))"
  shows "no_zombie (upd_seg a f S)"
  using assms by (auto simp: no_zombie_def segs_upd_seg)

lemma validated:
  assumes "validate_segment M s flg = Inr ()"
  shows "\<not> marked_for_deletion s" "shm_nattch (ds s) \<le> 65536" "0 < shm_nattch (ds s) + 1"
proof -
  show m: "\<not> marked_for_deletion s" "shm_nattch (ds s) \<le> 65536"
    using assms by (auto simp: validate_segment_def validate_def split: if_splits)
  show "0 < shm_nattch (ds s) + 1" using unat_inc [OF m(2)] by (simp add: word_less_nat_alt)
qed

lemma core_att_count:
  assumes "shm_core S" "a < length (segs S)"
  shows "card (att_set S a) \<le> unat (nattch S a)"
  using assms by (simp add: shm_core_def core_att_def)

lemma shmat_inv:
  assumes "shm_inv S"
  shows "shm_inv (snd (sys_shmat M As now pid shmid shmaddr shmflg S))"
proof (cases "\<exists>a. sint shmid \<ge> 0 \<and> segments (mgr S) shmid = Some a
     \<and> validate_segment M (segs S ! a) shmflg = Inr ()")
  case False
  then show ?thesis using assms
    by (auto simp: sys_shmat_def get_by_id_def res_simps split: option.splits sum.splits)
next
  case True
  then obtain a where a: "segments (mgr S) shmid = Some a"
    and v: "validate_segment M (segs S ! a) shmflg = Inr ()" by blast
  have S: "shm_core S" "no_zombie S" using assms by (auto simp: shm_inv_def)
  note l = core_segment [OF S(1) a]
  let ?S = "upd_seg a (inc_attach now) S"
  have n: "nattch ?S a = nattch S a + 1" "unat (nattch ?S a) = Suc (unat (nattch S a))"
    using l unat_inc [OF validated(2) [OF v]] by (simp_all add: segs_upd_seg)
  have c: "card (att_set S a) < unat (nattch ?S a)" using core_att_count [OF S(1) l(1)] n by simp
  have T: "shm_core ?S" by (rule core_upd_seg [OF S(1) l(1)]) (use c n l in \<open>simp_all add: segs_upd_seg\<close>)
  have Z: "no_zombie ?S" by (rule no_zombie_upd_seg [OF S(2) l(1)]) (use validated [OF v] in simp)
  have bad: "shm_inv (upd_seg a (dec_attach now) (upd_proc pid (procs ?S pid\<lparr>aspace := as\<rparr>) ?S))" for as
  proof -
    let ?U = "upd_proc pid (procs ?S pid\<lparr>aspace := as\<rparr>) ?S"
    have U: "shm_core ?U" by (rule core_shrink_proc [OF T]) simp
    have at: "att_set ?U a = att_set S a" by (auto simp: att_set_def split: if_splits)
    have "shm_core (upd_seg a (dec_attach now) ?U)"
      by (rule core_upd_seg [OF U])
        (use l n at validated(3) [OF v] core_att_count [OF S(1) l(1)] in \<open>simp_all add: segs_upd_seg unat_dec\<close>)
    moreover have "no_zombie (upd_seg a (dec_attach now) ?U)"
      by (rule no_zombie_upd_seg) (use Z l validated [OF v] in \<open>simp_all add: segs_upd_seg\<close>)
    ultimately show ?thesis by (simp add: shm_inv_def)
  qed
  have good: "shm_inv (upd_proc pid (attach shmid w a (procs ?S pid\<lparr>aspace := as\<rparr>)) ?S)" for as w
    using core_attach [OF T, of shmid a "procs ?S pid\<lparr>aspace := as\<rparr>" pid w] a c Z
    by (simp add: shm_inv_def)
  show ?thesis
    using assms a v T Z bad good
    by (auto simp: sys_shmat_def get_by_id_def Let_def shm_inv_def split: sum.splits prod.splits)
qed

lemma inv_remove:
  assumes "shm_core S" "segments (mgr S) sid = Some a" "nattch S a = 0"
    and "\<And>i b. segments (mgr S) i = Some b \<Longrightarrow> b \<noteq> a \<Longrightarrow> marked_for_deletion (segs S ! b) \<Longrightarrow> 0 < nattch S b"
  shows "\<exists>T. remove_segment sid S = (Inr (), T) \<and> shm_inv T"
proof -
  obtain T where T: "remove_segment sid S = (Inr (), T)" "shm_core T" "segs T = segs S"
      "segments (mgr T) = (segments (mgr S))(sid := None)"
    using core_remove [OF assms(1-3)] by blast
  have "no_zombie T"
    unfolding no_zombie_def
  proof (intro allI impI)
    fix i b assume b: "segments (mgr T) i = Some b" "marked_for_deletion (segs T ! b)"
    then have i: "segments (mgr S) i = Some b" "i \<noteq> sid" using T(4) by (auto split: if_splits)
    then have "b \<noteq> a" using core_segment_inj [OF assms(1,2)] by auto
    with assms(4) [OF i(1)] b T(3) show "0 < nattch T b" by simp
  qed
  with T show ?thesis by (auto simp: shm_inv_def)
qed

lemma shmdt_inv:
  assumes "shm_inv S"
  shows "shm_inv (snd (sys_shmdt As now pid shmaddr S))"
proof (cases "attached (procs S pid) shmaddr")
  case None
  with assms show ?thesis by (simp add: sys_shmdt_def detach_def)
next
  case (Some att)
  let ?a = "att_segment att"
  have S: "shm_core S" "no_zombie S" using assms by (auto simp: shm_inv_def)
  have a: "segments (mgr S) (att_id att) = Some ?a"
    using S(1) Some by (auto simp: shm_core_def core_att_def)
  note l = core_segment [OF S(1) a]
  obtain r as where u: "as_unmap As (aspace (procs S pid)) shmaddr (seg_size (segs S ! ?a)) = (r, as)"
    by fastforce
  define p where "p = (procs S pid)\<lparr>attached := (attached (procs S pid))(shmaddr := None), aspace := as\<rparr>"
  define U where "U = upd_proc pid p S"
  have U: "shm_core U" unfolding U_def by (rule core_shrink_proc [OF S(1)]) (auto simp: p_def split: if_splits)
  have ZU: "no_zombie U" using S(2) by (simp add: U_def)
  let ?f = "\<lambda>s. set_last_pid pid (dec_attach now s)"
  let ?V = "upd_seg ?a ?f U"
  have aU: "segments (mgr U) (att_id att) = Some ?a" "?a < length (segs U)" using a l by (simp_all add: U_def)
  have "att_set U ?a = att_set S ?a - {(pid, shmaddr)}"
    using Some by (auto simp: U_def p_def att_set_def split: if_splits)
  moreover have m: "(pid, shmaddr) \<in> att_set S ?a" using Some by (auto simp: att_set_def)
  ultimately have "card (att_set U ?a) = card (att_set S ?a) - 1" by simp
  moreover have "0 < card (att_set S ?a)" using m by (auto simp: card_gt_0_iff)
  ultimately have "card (att_set U ?a) \<le> unat (nattch S ?a) - 1" "0 < unat (nattch S ?a)"
    using core_att_count [OF S(1) l(1)] by linarith+
  then have c: "card (att_set U ?a) \<le> unat (shm_nattch (ds (?f (segs U ! ?a))))"
    by (auto simp: U_def unat_dec word_less_nat_alt)
  have V: "shm_core ?V" by (rule core_upd_seg [OF U aU(2)]) (use c in simp_all)
  have rm: "\<exists>T. remove_segment (att_id att) ?V = (Inr (), T) \<and> shm_inv T"
    if "get_attach_count (segs ?V ! ?a) = 0"
    by (rule inv_remove [OF V])
      (use that aU ZU in \<open>auto simp: get_attach_count_def segs_upd_seg no_zombie_def\<close>)
  have keep: "shm_inv ?V" if "\<not> (marked_for_deletion (segs ?V ! ?a) \<and> get_attach_count (segs ?V ! ?a) = 0)"
  proof -
    have "no_zombie ?V"
      by (rule no_zombie_upd_seg [OF ZU aU(2)])
        (use that aU(2) in \<open>auto simp: get_attach_count_def segs_upd_seg word_gt_0\<close>)
    with V show ?thesis by (simp add: shm_inv_def)
  qed
  have UE: "upd_proc pid (procs S pid\<lparr>attached := (attached (procs S pid))(shmaddr := None), aspace := as\<rparr>) S = U"
    by (simp add: U_def p_def)
  show ?thesis
    using u UE rm keep U ZU Some
    by (auto simp: sys_shmdt_def detach_def Let_def shm_inv_def split: sum.splits prod.splits)
qed

lemma shmctl_inv:
  assumes "shm_inv S"
  shows "shm_inv (snd (sys_shmctl now shmid cmd ubuf S))"
proof (cases "segments (mgr S) shmid")
  case None
  with assms show ?thesis by (simp add: sys_shmctl_def get_by_id_def)
next
  case (Some a)
  have S: "shm_core S" "no_zombie S" using assms by (auto simp: shm_inv_def)
  note l = core_segment [OF S(1) Some]
  let ?V = "upd_seg a (\<lambda>s. s\<lparr>marked_for_deletion := True\<rparr>) S"
  have V: "shm_core ?V"
    by (rule core_upd_seg [OF S(1) l(1)]) (use core_att_count [OF S(1) l(1)] in simp_all)
  have rm: "\<exists>T. remove_segment shmid ?V = (Inr (), T) \<and> shm_inv T" if "nattch S a = 0"
    by (rule inv_remove [OF V]) (use that Some l S(2) in \<open>auto simp: segs_upd_seg no_zombie_def\<close>)
  have keep: "shm_inv ?V" if "nattch S a \<noteq> 0"
    using V no_zombie_upd_seg [OF S(2) l(1), of "\<lambda>s. s\<lparr>marked_for_deletion := True\<rparr>"] that
    by (auto simp: shm_inv_def word_gt_0)
  have set: "shm_inv (upd_seg a (set_perm now u g md) S)" for u g md
  proof -
    have "no_zombie (upd_seg a (set_perm now u g md) S)"
      by (rule no_zombie_upd_seg [OF S(2) l(1)]) (use S(2) Some in \<open>auto simp: no_zombie_def\<close>)
    moreover have "shm_core (upd_seg a (set_perm now u g md) S)"
      by (rule core_upd_seg [OF S(1) l(1)]) (use core_att_count [OF S(1) l(1)] in simp_all)
    ultimately show ?thesis by (simp add: shm_inv_def)
  qed
  have n: "get_attach_count (segs ?V ! a) = nattch S a"
    using l by (simp add: get_attach_count_def segs_upd_seg)
  show ?thesis
    using assms Some rm keep set n
    by (auto simp: sys_shmctl_def get_by_id_def Let_def split: sum.splits prod.splits option.splits)
qed

lemma shm_init_inv: "shm_inv (shm_init al as0)"
  by (simp add: shm_init_def shm_inv_def core_defs no_zombie_def shm_manager_new_def
      process_shm_data_new_def)

lemma shm_step_inv: "shm_step E As S T \<Longrightarrow> shm_inv S \<Longrightarrow> shm_inv T"
proof (induction rule: shm_step.induct)
  case (new_data S pid a)
  then show ?case
    using core_shrink_proc [of S "process_shm_data_new a" pid]
    by (simp add: shm_inv_def process_shm_data_new_def)
qed (auto intro: shmget_inv shmat_inv shmdt_inv shmctl_inv)

lemma shm_reachable_inv:
  assumes "shm_reachable E As S"
  shows "shm_inv S"
proof -
  obtain al as0 where "(shm_step E As)\<^sup>*\<^sup>* (shm_init al as0) S"
    using assms by (auto simp: shm_reachable_def)
  then show ?thesis
    by (induction rule: rtranclp_induct) (auto intro: shm_init_inv shm_step_inv)
qed

section \<open>Properties\<close>

text \<open>Concrete parameters for the runs below: pages come from a counter, every mapping succeeds.\<close>

definition bump_env :: "usize shm_env" where
  "bump_env =
     \<lparr>aligns = div_align, alloc_pages = (\<lambda>al n. (Inr al, al + n * PAGE_SIZE_4K)), virt_to_phys = (\<lambda>v. v)\<rparr>"

lemma shm_reachable_init: "shm_reachable E As (shm_init al as0)"
  by (auto simp: shm_reachable_def)

lemma shm_reachable_step: "shm_reachable E As S \<Longrightarrow> shm_step E As S T \<Longrightarrow> shm_reachable E As T"
  unfolding shm_reachable_def by (meson rtranclp.rtrancl_into_rtrancl)

text \<open>C6. In every state the shared memory calls of any processes can reach, in any order and with
  any outcome of the allocator and of the address spaces: what a process has attached is still in
  the manager, under the identifier it was attached by; the attachment count of a segment is at
  least the number of places where it is attached; a segment marked for deletion is kept only while
  its count is positive; identifiers are positive; and a key leads to an identifier exactly when a
  segment of the manager was created with that key, so no two segments share a key.\<close>

theorem shm_attached_alive:
  assumes "shm_reachable E As S"
  shows "(\<forall>p v att. attached (procs S p) v = Some att \<longrightarrow>
            segments (mgr S) (att_id att) = Some (att_segment att))
       \<and> (\<forall>i a. segments (mgr S) i = Some a \<longrightarrow> 0 < sint i \<and> seg_id (segs S ! a) = i
            \<and> card {(p, v). \<exists>att. attached (procs S p) v = Some att \<and> att_segment att = a}
                \<le> unat (shm_nattch (ds (segs S ! a)))
            \<and> (marked_for_deletion (segs S ! a) \<longrightarrow> 0 < shm_nattch (ds (segs S ! a))))
       \<and> (\<forall>k i. key_to_id (mgr S) k = Some i \<longleftrightarrow> k \<noteq> IPC_PRIVATE
            \<and> (\<exists>a. segments (mgr S) i = Some a \<and> key (shm_perm (ds (segs S ! a))) = k))"
proof -
  have S: "shm_core S" "no_zombie S" using shm_reachable_inv [OF assms] by (auto simp: shm_inv_def)
  have "segments (mgr S) (att_id att) = Some (att_segment att)"
    if "attached (procs S p) v = Some att" for p v att
    using S(1) that by (auto simp: shm_core_def core_att_def)
  moreover have "card (att_set S a) \<le> unat (nattch S a)" if "segments (mgr S) i = Some a" for i a
    by (rule core_att_count [OF S(1) core_segment(1) [OF S(1) that]])
  ultimately show ?thesis
    using core_segment(2,3) [OF S(1)] core_key_iff [OF S(1)] S(2)
    unfolding att_set_def no_zombie_def by blast
qed

theorem shm_attached_alive_witness:
  "let S = snd (sys_shmget bump_env 7 1 5 100 0x3B6 (shm_init 0x8000 ())) in
     (\<forall>p v att. attached (procs S p) v = Some att \<longrightarrow>
        segments (mgr S) (att_id att) = Some (att_segment att))
     \<and> (\<forall>i a. segments (mgr S) i = Some a \<longrightarrow> 0 < sint i \<and> seg_id (segs S ! a) = i
        \<and> card {(p, v). \<exists>att. attached (procs S p) v = Some att \<and> att_segment att = a}
            \<le> unat (shm_nattch (ds (segs S ! a)))
        \<and> (marked_for_deletion (segs S ! a) \<longrightarrow> 0 < shm_nattch (ds (segs S ! a))))
     \<and> (\<forall>k i. key_to_id (mgr S) k = Some i \<longleftrightarrow> k \<noteq> IPC_PRIVATE
        \<and> (\<exists>a. segments (mgr S) i = Some a \<and> key (shm_perm (ds (segs S ! a))) = k))"
  unfolding Let_def
  by (rule shm_attached_alive [of bump_env free_aspace])
    (rule shm_reachable_step [OF shm_reachable_init], rule shmget)

text \<open>A successful \<open>sys_shmget\<close> returns a positive identifier. For a private key the identifier
  was not in use; for any other key, asking again without the exclusive flag and with an acceptable
  size returns the same identifier and changes nothing, whoever asks.\<close>

theorem sys_shmget_stable:
  assumes "shm_reachable E As S" "sys_shmget E now pid k sz flags S = (Inr r, T)"
  shows "\<exists>i a. r = scast i \<and> 0 < sint i \<and> segments (mgr T) i = Some a
           \<and> (k = IPC_PRIVATE \<longrightarrow> segments (mgr S) i = None)
           \<and> (k \<noteq> IPC_PRIVATE \<longrightarrow>
                (\<forall>E' now' pid' sz' flags'. flags' AND 0x400 = 0 \<longrightarrow> sz' \<noteq> 0 \<longrightarrow> sz' \<le> MAX_SHM_SIZE \<longrightarrow>
                   sys_shmget E' now' pid' k sz' flags' T = (Inr r, T)))"
proof -
  have inv: "shm_inv S" by (rule shm_reachable_inv [OF assms(1)])
  obtain a where g: "get_or_create E now pid k sz flags S = (Inr a, T)"
    and r: "r = scast (seg_id (segs T ! a))"
    using assms(2) by (auto simp: sys_shmget_def split: if_splits prod.splits sum.splits)
  let ?i = "seg_id (segs T ! a)"
  have T: "shm_inv T" and a: "segments (mgr T) ?i = Some a" "seg_key T a = k"
      "\<not> marked_for_deletion (segs T ! a)"
    using get_or_create_inv [OF g inv] by auto
  have pos: "0 < sint ?i" using T a core_segment(3) by (auto simp: shm_inv_def)
  have "segments (mgr S) ?i = None" if "k = IPC_PRIVATE"
  proof -
    have "create_segment E now pid k sz (ucast (flags AND 0x1FF)) S = (Inr a, T)"
      using g that by (simp add: get_or_create_def Let_def)
    moreover have "0 < sint (next_id (mgr S))" using inv by (simp add: shm_inv_def core_defs)
    ultimately show ?thesis
      by (rule create_segment_cases) (auto simp: created_def)
  qed
  moreover have "sys_shmget E' now' pid' k sz' flags' T = (Inr r, T)"
    if "k \<noteq> IPC_PRIVATE" "flags' AND 0x400 = 0" "sz' \<noteq> 0" "sz' \<le> MAX_SHM_SIZE"
    for E' now' pid' sz' flags'
  proof -
    have "key_to_id (mgr T) k = Some ?i"
      using core_key_iff [of T k ?i] T a that(1) by (auto simp: shm_inv_def)
    then show ?thesis
      using that a r by (simp add: sys_shmget_def get_or_create_def Let_def)
  qed
  ultimately show ?thesis using r pos a by blast
qed

lemma alloc_id_first:
  assumes "segments m (next_id m) = None" "card (dom (segments m)) < (2 ^ 31 - 1) div 2"
  shows "alloc_id m = (Inr (next_id m),
           m\<lparr>next_id := if sint (next_id m + 1) \<le> 0 then 1 else next_id m + 1\<rparr>)"
proof -
  have e: "MAX_ATTEMPTS = Suc 999" by (simp add: MAX_ATTEMPTS_def)
  show ?thesis unfolding alloc_id_def e using assms by (simp add: Let_def del: Suc_numeral)
qed

lemma bump_alloc: "alloc_id shm_manager_new = (Inr 1, shm_manager_new\<lparr>next_id := 2\<rparr>)"
  using alloc_id_first [of shm_manager_new] by (simp add: shm_manager_new_def)

lemma bump_shmget:
  "sys_shmget bump_env 7 1 5 100 0x3B6 (shm_init 0x8000 ()) =
     (Inr 1,
      \<lparr>mgr = \<lparr>segments = [1 \<mapsto> 0], key_to_id = [5 \<mapsto> 1], next_id = 2\<rparr>,
       segs = [\<lparr>seg_id = 1, paddr = 0x8000, seg_size = 0x1000,
                ds = \<lparr>shm_perm = \<lparr>key = 5, uid = 0, gid = 0, cuid = 0, cgid = 0, perm_mode = 0x1B6, seq = 0\<rparr>,
                      shm_segsz = 100, shm_atime = 0, shm_dtime = 0, shm_ctime = 7, shm_cpid = 1,
                      shm_lpid = 0, shm_nattch = 0\<rparr>,
                marked_for_deletion = False\<rparr>],
       pages = 0x9000, procs = (\<lambda>_. process_shm_data_new ())\<rparr>)"
  unfolding sys_shmget_def get_or_create_def create_segment_def shm_init_def shm_sys.simps bump_alloc
  by (simp add: shm_segment_new_def bump_env_def align_up_4k_def
      div_align_def IPC_PRIVATE_def MAX_SHM_SIZE_def PAGE_SIZE_4K_def shm_manager_new_def Let_def)

theorem sys_shmget_stable_witness:
  "let (r, T) = sys_shmget bump_env 7 1 5 100 0x3B6 (shm_init 0x8000 ()) in
     r = Inr 1 \<and> sys_shmget bump_env 9 2 5 64 0 T = (r, T)"
  using sys_shmget_stable [OF shm_reachable_init bump_shmget]
  unfolding bump_shmget
  by (auto simp: IPC_PRIVATE_def MAX_SHM_SIZE_def)

text \<open>Attaching with \<open>SHM_RND\<close> and a null address fails with \<open>EINVAL\<close> after the attachment was
  counted, and the count is not taken back. If nobody has the segment attached, removing it
  afterwards marks it but leaves it in the manager, with no attachment whose end would remove it.\<close>

theorem sys_shmat_leaks_count:
  assumes "shm_reachable E As S" "segments (mgr S) shmid = Some a"
    and "validate_segment M (segs S ! a) shmflg = Inr ()" "shmflg AND SHM_RND \<noteq> 0"
    and "\<forall>p v att. attached (procs S p) v = Some att \<longrightarrow> att_segment att \<noteq> a"
  shows "case sys_shmat M As now pid shmid 0 shmflg S of (r, T) \<Rightarrow>
           r = Inl (Errno EINVAL) \<and> procs T = procs S
           \<and> shm_nattch (ds (segs T ! a)) = shm_nattch (ds (segs S ! a)) + 1
           \<and> (case sys_shmctl now' shmid 0 ubuf T of (r', U) \<Rightarrow>
                r' = Inr (0, None) \<and> segments (mgr U) shmid = Some a
                \<and> marked_for_deletion (segs U ! a)
                \<and> (\<forall>p v att. attached (procs U p) v = Some att \<longrightarrow> att_segment att \<noteq> a))"
proof -
  have S: "shm_core S" using shm_reachable_inv [OF assms(1)] by (simp add: shm_inv_def)
  note l = core_segment [OF S assms(2)]
  let ?T = "upd_seg a (inc_attach now) S"
  have at: "sys_shmat M As now pid shmid 0 shmflg S = (Inl (Errno EINVAL), ?T)"
    using assms(2-4) l by (simp add: sys_shmat_def get_by_id_def shmat_vaddr_def Let_def)
  have n: "nattch ?T a = nattch S a + 1" using l by (simp add: segs_upd_seg)
  let ?U = "upd_seg a (\<lambda>s. s\<lparr>marked_for_deletion := True\<rparr>) ?T"
  have "get_attach_count (segs ?U ! a) \<noteq> 0"
    using n l validated(3) [OF assms(3)] by (simp add: segs_upd_seg get_attach_count_def word_gt_0)
  then have "sys_shmctl now' shmid 0 ubuf ?T = (Inr (0, None), ?U)"
    using assms(2) by (simp add: sys_shmctl_def get_by_id_def Let_def)
  then show ?thesis using at n l assms(2,5) by (simp add: segs_upd_seg)
qed

theorem sys_shmat_leaks_count_witness:
  "let S = snd (sys_shmget bump_env 7 1 5 100 0x3B6 (shm_init 0x8000 ())) in
   case sys_shmat div_align free_aspace 8 1 1 0 SHM_RND S of (r, T) \<Rightarrow>
     r = Inl (Errno EINVAL) \<and> shm_nattch (ds (segs T ! 0)) = 1
     \<and> segments (mgr (snd (sys_shmctl 9 1 0 None T))) 1 = Some 0"
proof -
  let ?S = "snd (sys_shmget bump_env 7 1 5 100 0x3B6 (shm_init 0x8000 ()))"
  have r: "shm_reachable bump_env free_aspace ?S"
    by (rule shm_reachable_step [OF shm_reachable_init shmget])
  have v: "validate_segment div_align (segs ?S ! 0) SHM_RND = Inr ()"
    unfolding bump_shmget
    by (simp add: validate_segment_def validate_def check_permissions_def SHM_RND_def SHM_RDONLY_def
        align_up_4k_def div_align_def PAGE_SIZE_4K_def Let_def)
  have s: "segments (mgr ?S) 1 = Some 0" unfolding bump_shmget by simp
  have p: "\<forall>p v att. attached (procs ?S p) v = Some att \<longrightarrow> att_segment att \<noteq> 0"
    unfolding bump_shmget by (simp add: process_shm_data_new_def)
  have f: "SHM_RND AND SHM_RND \<noteq> 0" by (simp add: SHM_RND_def)
  have n: "shm_nattch (ds (segs ?S ! 0)) = 0" unfolding bump_shmget by simp
  show ?thesis
    using sys_shmat_leaks_count [OF r s v f p, where now = 8 and pid = 1 and now' = 9 and ubuf = None] n
    by (auto simp: Let_def split: prod.splits)
qed

end
