(* ===== verification/Fd_Table.thy ===== *)
theory Fd_Table
  imports Kernel_Prelude
begin

text \<open>
  The file descriptor table of \<open>api/src/file/mod.rs\<close> and the system calls of
  \<open>api/src/imp/fs/fd_ops.rs\<close> that work on it. The container \<open>FlattenObjects\<close> is a third-party
  crate: its operations are a parameter, and \<open>flatten_spec\<close> states what its documentation promises.
  Table entries are references to file objects, of any type \<open>'f\<close>.
\<close>

section \<open>The container of numbered objects\<close>

record ('t, 'f) flatten_ops =
  fo_new :: 't
  fo_add :: "'t \<Rightarrow> 'f \<Rightarrow> (nat \<times> 't) option"
  fo_add_at :: "'t \<Rightarrow> nat \<Rightarrow> 'f \<Rightarrow> (nat \<times> 't) option"
  fo_get :: "'t \<Rightarrow> nat \<Rightarrow> 'f option"
  fo_remove :: "'t \<Rightarrow> nat \<Rightarrow> 'f option \<times> 't"
  fo_ids :: "'t \<Rightarrow> nat list"

definition AX_FILE_LIMIT :: nat where
  [simp]: "AX_FILE_LIMIT = 1024"

text \<open>The documented behaviour: a fresh container is empty; \<open>add\<close> assigns a free number below the
  capacity and fails only when there is none; \<open>add_at\<close> succeeds exactly at a free number below the
  capacity; \<open>remove\<close> returns the object and frees its number; \<open>ids\<close> lists the numbers in use.\<close>

definition flatten_spec :: "('t, 'f) flatten_ops \<Rightarrow> ('t \<Rightarrow> bool) \<Rightarrow> bool" where
  "flatten_spec F okt \<longleftrightarrow>
     okt (fo_new F) \<and> (\<forall>i. fo_get F (fo_new F) i = None) \<and>
     (\<forall>t f. okt t \<longrightarrow> (case fo_add F t f of
        None \<Rightarrow> \<forall>i<AX_FILE_LIMIT. fo_get F t i \<noteq> None
      | Some (i, t') \<Rightarrow> i < AX_FILE_LIMIT \<and> fo_get F t i = None \<and> okt t' \<and>
          fo_get F t' = (fo_get F t)(i \<mapsto> f))) \<and>
     (\<forall>t i f. okt t \<longrightarrow> (case fo_add_at F t i f of
        None \<Rightarrow> \<not> (i < AX_FILE_LIMIT \<and> fo_get F t i = None)
      | Some (j, t') \<Rightarrow> j = i \<and> i < AX_FILE_LIMIT \<and> fo_get F t i = None \<and> okt t' \<and>
          fo_get F t' = (fo_get F t)(i \<mapsto> f))) \<and>
     (\<forall>t i. okt t \<longrightarrow> fst (fo_remove F t i) = fo_get F t i \<and> okt (snd (fo_remove F t i)) \<and>
        fo_get F (snd (fo_remove F t i)) = (fo_get F t)(i := None)) \<and>
     (\<forall>t i. okt t \<longrightarrow> fo_get F t i \<noteq> None \<longrightarrow> i < AX_FILE_LIMIT) \<and>
     (\<forall>t. okt t \<longrightarrow> distinct (fo_ids F t) \<and> set (fo_ids F t) = dom (fo_get F t))"

lemma flatten_new:
  "flatten_spec F okt \<Longrightarrow> okt (fo_new F)" "flatten_spec F okt \<Longrightarrow> fo_get F (fo_new F) = Map.empty"
  by (auto simp: flatten_spec_def)

lemma flatten_add:
  assumes "flatten_spec F okt" "okt t" "fo_add F t f = Some (i, t')"
  shows "i < AX_FILE_LIMIT" "fo_get F t i = None" "okt t'" "fo_get F t' = (fo_get F t)(i \<mapsto> f)"
proof -
  have "case fo_add F t f of
        None \<Rightarrow> \<forall>i<AX_FILE_LIMIT. fo_get F t i \<noteq> None
      | Some (i, t') \<Rightarrow> i < AX_FILE_LIMIT \<and> fo_get F t i = None \<and> okt t' \<and>
          fo_get F t' = (fo_get F t)(i \<mapsto> f)"
    using assms(1,2) unfolding flatten_spec_def by blast
  with assms(3) show "i < AX_FILE_LIMIT" "fo_get F t i = None" "okt t'"
    "fo_get F t' = (fo_get F t)(i \<mapsto> f)" by simp_all
qed

lemma flatten_add_None:
  assumes "flatten_spec F okt" "okt t" "fo_add F t f = None" "i < AX_FILE_LIMIT"
  shows "fo_get F t i \<noteq> None"
proof -
  have "case fo_add F t f of
        None \<Rightarrow> \<forall>i<AX_FILE_LIMIT. fo_get F t i \<noteq> None
      | Some (i, t') \<Rightarrow> i < AX_FILE_LIMIT \<and> fo_get F t i = None \<and> okt t' \<and>
          fo_get F t' = (fo_get F t)(i \<mapsto> f)"
    using assms(1,2) unfolding flatten_spec_def by blast
  with assms(3,4) show ?thesis by simp
qed

lemma flatten_add_at:
  assumes "flatten_spec F okt" "okt t"
  shows "i < AX_FILE_LIMIT \<Longrightarrow> fo_get F t i = None \<Longrightarrow>
      \<exists>t'. fo_add_at F t i f = Some (i, t') \<and> okt t' \<and> fo_get F t' = (fo_get F t)(i \<mapsto> f)"
    and "\<not> i < AX_FILE_LIMIT \<or> fo_get F t i \<noteq> None \<Longrightarrow> fo_add_at F t i f = None"
proof -
  have "case fo_add_at F t i f of
        None \<Rightarrow> \<not> (i < AX_FILE_LIMIT \<and> fo_get F t i = None)
      | Some (j, t') \<Rightarrow> j = i \<and> i < AX_FILE_LIMIT \<and> fo_get F t i = None \<and> okt t' \<and>
          fo_get F t' = (fo_get F t)(i \<mapsto> f)"
    using assms unfolding flatten_spec_def by blast
  then show "i < AX_FILE_LIMIT \<Longrightarrow> fo_get F t i = None \<Longrightarrow>
      \<exists>t'. fo_add_at F t i f = Some (i, t') \<and> okt t' \<and> fo_get F t' = (fo_get F t)(i \<mapsto> f)"
    and "\<not> i < AX_FILE_LIMIT \<or> fo_get F t i \<noteq> None \<Longrightarrow> fo_add_at F t i f = None"
    by (auto split: option.splits)
qed

lemma flatten_remove:
  assumes "flatten_spec F okt" "okt t"
  shows "fst (fo_remove F t i) = fo_get F t i" "okt (snd (fo_remove F t i))"
    "fo_get F (snd (fo_remove F t i)) = (fo_get F t)(i := None)"
  using assms unfolding flatten_spec_def by blast+

lemma flatten_limit: "flatten_spec F okt \<Longrightarrow> okt t \<Longrightarrow> fo_get F t i \<noteq> None \<Longrightarrow> i < AX_FILE_LIMIT"
  unfolding flatten_spec_def by blast

lemma flatten_ids: "flatten_spec F okt \<Longrightarrow> okt t \<Longrightarrow> set (fo_ids F t) = dom (fo_get F t)"
  unfolding flatten_spec_def by blast

lemmas flatten_facts = flatten_new flatten_add flatten_add_at flatten_remove flatten_limit flatten_ids

text \<open>A container with the documented behaviour, on maps from numbers; \<open>add\<close> takes the least free
  number.\<close>

definition map_objects :: "(nat \<rightharpoonup> 'f, 'f) flatten_ops" where
  "map_objects =
     \<lparr>fo_new = Map.empty,
      fo_add = (\<lambda>t f. map_option (\<lambda>i. (i, t(i \<mapsto> f))) (find (\<lambda>i. t i = None) [0..<AX_FILE_LIMIT])),
      fo_add_at = (\<lambda>t i f. if i < AX_FILE_LIMIT \<and> t i = None then Some (i, t(i \<mapsto> f)) else None),
      fo_get = (\<lambda>t i. t i),
      fo_remove = (\<lambda>t i. (t i, t(i := None))),
      fo_ids = (\<lambda>t. filter (\<lambda>i. t i \<noteq> None) [0..<AX_FILE_LIMIT])\<rparr>"

definition map_objects_wf :: "(nat \<rightharpoonup> 'f) \<Rightarrow> bool" where
  "map_objects_wf t \<longleftrightarrow> dom t \<subseteq> {..<AX_FILE_LIMIT}"

lemma map_objects_sel [simp]:
  "fo_new map_objects = Map.empty" "fo_get map_objects = (\<lambda>t i. t i)"
  "fo_remove map_objects = (\<lambda>t i. (t i, t(i := None)))"
  by (simp_all add: map_objects_def)

lemma map_objects_spec: "flatten_spec map_objects map_objects_wf"
  unfolding flatten_spec_def
proof (intro conjI allI impI)
  fix t :: "nat \<rightharpoonup> 'a" and f assume okt: "map_objects_wf t"
  show "case fo_add map_objects t f of
        None \<Rightarrow> \<forall>i<AX_FILE_LIMIT. fo_get map_objects t i \<noteq> None
      | Some (i, t') \<Rightarrow> i < AX_FILE_LIMIT \<and> fo_get map_objects t i = None \<and> map_objects_wf t' \<and>
          fo_get map_objects t' = (fo_get map_objects t)(i \<mapsto> f)"
    using okt by (auto simp: map_objects_def map_objects_wf_def find_None_iff find_Some_iff
        split: option.splits)
qed (auto simp: map_objects_def map_objects_wf_def split: if_splits option.splits)

lemma map_objects_add_fresh:
  "fo_add map_objects Map.empty f = Some (0, (Map.empty)(0 \<mapsto> f))"
  "fo_add map_objects ((Map.empty)(0 \<mapsto> g)) f = Some (1, (Map.empty)(0 \<mapsto> g, 1 \<mapsto> f))"
proof -
  have "[0..<AX_FILE_LIMIT] = 0 # [Suc 0..<AX_FILE_LIMIT]"
    "[Suc 0..<AX_FILE_LIMIT] = Suc 0 # [Suc (Suc 0)..<AX_FILE_LIMIT]"
    by (rule upt_conv_Cons, simp)+
  then have upt: "[0..<AX_FILE_LIMIT] = 0 # Suc 0 # [Suc (Suc 0)..<AX_FILE_LIMIT]" by simp
  show "fo_add map_objects Map.empty f = Some (0, (Map.empty)(0 \<mapsto> f))"
    "fo_add map_objects ((Map.empty)(0 \<mapsto> g)) f = Some (1, (Map.empty)(0 \<mapsto> g, 1 \<mapsto> f))"
    unfolding map_objects_def flatten_ops.simps upt by simp_all
qed

section \<open>The table's operations\<close>

text \<open>The cast \<open>fd as usize\<close> sign-extends, so a negative descriptor becomes a huge index.\<close>

definition fd_index :: "i32 \<Rightarrow> nat" where
  "fd_index fd = unat (scast fd :: usize)"

lemma fd_index_of_nat: "i < AX_FILE_LIMIT \<Longrightarrow> fd_index (word_of_nat i) = i"
  by (simp add: fd_index_def unat_scast_word_of_nat_i32)

definition get_file_like :: "('t, 'f) flatten_ops \<Rightarrow> 't \<Rightarrow> i32 \<Rightarrow> 'f res" where
  "get_file_like F t fd = ok_or (fo_get F t (fd_index fd)) EBADF"

definition add_file_like :: "('t, 'f) flatten_ops \<Rightarrow> 't \<Rightarrow> 'f \<Rightarrow> i32 res \<times> 't" where
  "add_file_like F t f =
     (case fo_add F t f of
        None \<Rightarrow> (Inl (Errno EMFILE), t)
      | Some (i, t') \<Rightarrow> (Inr (word_of_nat i), t'))"

definition close_file_like :: "('t, 'f) flatten_ops \<Rightarrow> 't \<Rightarrow> i32 \<Rightarrow> unit res \<times> 't" where
  "close_file_like F t fd =
     (case fo_remove F t (fd_index fd) of
        (None, t') \<Rightarrow> (Inl (Errno EBADF), t')
      | (Some f, t') \<Rightarrow> (Inr (), t'))"

text \<open>\<open>add_at\<close> returns the refused object in its error; \<open>copy_inner\<close> ignores it.\<close>

definition copy_one :: "('t, 'f) flatten_ops \<Rightarrow> 't \<Rightarrow> 't res \<Rightarrow> nat \<Rightarrow> 't res" where
  "copy_one F t r i =
     rbind r (\<lambda>new_table.
       case fo_get F t i of
         None \<Rightarrow> Inl Panic
       | Some f \<Rightarrow> Inr (case fo_add_at F new_table i f of
           None \<Rightarrow> new_table | Some (_, t') \<Rightarrow> t'))"

definition copy_inner :: "('t, 'f) flatten_ops \<Rightarrow> 't \<Rightarrow> 't res" where
  "copy_inner F t = foldl (copy_one F t) (Inr (fo_new F)) (fo_ids F t)"

definition fd_clear :: "('t, 'f) flatten_ops \<Rightarrow> 't \<Rightarrow> 't" where
  "fd_clear F t = foldl (\<lambda>t id. snd (fo_remove F t id)) t (fo_ids F t)"

fun sync_ids :: "('t, 'f) flatten_ops \<Rightarrow> ('f \<Rightarrow> 'w \<Rightarrow> unit res \<times> 'w) \<Rightarrow> 't \<Rightarrow> nat list \<Rightarrow> 'w \<Rightarrow> unit res \<times> 'w" where
  "sync_ids F fsync t [] w = (Inr (), w)"
| "sync_ids F fsync t (i # ids) w =
     (case fo_get F t i of
        None \<Rightarrow> sync_ids F fsync t ids w
      | Some f \<Rightarrow> sbind (fsync f w) (\<lambda>_ w. sync_ids F fsync t ids w))"

definition sync_all :: "('t, 'f) flatten_ops \<Rightarrow> ('f \<Rightarrow> 'w \<Rightarrow> unit res \<times> 'w) \<Rightarrow> 't \<Rightarrow> 'w \<Rightarrow> unit res \<times> 'w" where
  "sync_all F fsync t w = sync_ids F fsync t (fo_ids F t) w"

definition init_stdio :: "('t, 'f) flatten_ops \<Rightarrow> 'f \<Rightarrow> 'f \<Rightarrow> 'f \<Rightarrow> 't res" where
  "init_stdio F stdin stdout stderr =
     (case fo_add_at F (fo_new F) 0 stdin of
        None \<Rightarrow> Inl Panic
      | Some (_, t) \<Rightarrow> (case fo_add_at F t 1 stdout of
          None \<Rightarrow> Inl Panic
        | Some (_, t) \<Rightarrow> (case fo_add_at F t 2 stderr of
            None \<Rightarrow> Inl Panic
          | Some (_, t) \<Rightarrow> Inr t)))"

section \<open>System calls on descriptors\<close>

definition sys_close :: "('t, 'f) flatten_ops \<Rightarrow> 't \<Rightarrow> i32 \<Rightarrow> isize res \<times> 't" where
  "sys_close F t fd = sbind (close_file_like F t fd) (\<lambda>_ t. (Inr 0, t))"

definition dup_fd :: "('t, 'f) flatten_ops \<Rightarrow> 't \<Rightarrow> i32 \<Rightarrow> isize res \<times> 't" where
  "dup_fd F t old_fd =
     sbind (get_file_like F t old_fd, t) (\<lambda>f t.
     sbind (add_file_like F t f) (\<lambda>new_fd t. (Inr (scast new_fd), t)))"

definition sys_dup :: "('t, 'f) flatten_ops \<Rightarrow> 't \<Rightarrow> i32 \<Rightarrow> isize res \<times> 't" where
  "sys_dup F t old_fd = dup_fd F t old_fd"

definition sys_dup2 :: "('t, 'f) flatten_ops \<Rightarrow> 't \<Rightarrow> i32 \<Rightarrow> i32 \<Rightarrow> isize res \<times> 't" where
  "sys_dup2 F t old_fd new_fd =
     (case fo_get F t (fd_index old_fd) of
        None \<Rightarrow> (Inl (Errno EBADF), t)
      | Some f \<Rightarrow>
          if old_fd \<noteq> new_fd then
            let t1 = snd (fo_remove F t (fd_index new_fd)) in
            (case fo_add_at F t1 (fd_index new_fd) f of
               None \<Rightarrow> (Inl Panic, t1)
             | Some (_, t2) \<Rightarrow> (Inr (scast new_fd), t2))
          else (Inr (scast new_fd), t))"

text \<open>Linux ABI: \<open>F_DUPFD\<close>, \<open>F_SETFL\<close>, \<open>F_DUPFD_CLOEXEC\<close> and \<open>O_NONBLOCK\<close>. The method
  \<open>set_nonblocking\<close> acts on the file object, whose state \<open>'w\<close> is threaded.\<close>

definition sys_fcntl ::
  "('t, 'f) flatten_ops \<Rightarrow> ('f \<Rightarrow> bool \<Rightarrow> 'w \<Rightarrow> unit res \<times> 'w) \<Rightarrow> 't \<times> 'w \<Rightarrow> i32 \<Rightarrow> i32 \<Rightarrow> usize \<Rightarrow>
   isize res \<times> ('t \<times> 'w)" where
  "sys_fcntl F set_nonblocking s fd cmd arg =
     (case s of (t, w) \<Rightarrow>
      if cmd = 0 \<or> cmd = 1030 then (case dup_fd F t fd of (r, t') \<Rightarrow> (r, (t', w)))
      else if cmd = 4 then
        if fd = 0 \<or> fd = 1 \<or> fd = 2 then (Inr 0, (t, w))
        else (case get_file_like F t fd of
                Inl e \<Rightarrow> (Inl e, (t, w))
              | Inr f \<Rightarrow> (case set_nonblocking f (0 < arg AND 0x800) w of
                  (Inl e, w') \<Rightarrow> (Inl e, (t, w'))
                | (Inr _, w') \<Rightarrow> (Inr 0, (t, w'))))
      else (Inr 0, (t, w)))"

section \<open>Correctness\<close>

lemma add_file_like_spec:
  assumes "flatten_spec F okt" "okt t" "add_file_like F t f = (Inr fd, t1)"
  shows "okt t1" "fd_index fd < AX_FILE_LIMIT" "fo_get F t (fd_index fd) = None"
    "fo_get F t1 = (fo_get F t)(fd_index fd \<mapsto> f)"
proof -
  from assms(3) obtain i where i: "fo_add F t f = Some (i, t1)" "fd = word_of_nat i"
    by (auto simp: add_file_like_def split: option.splits)
  note facts = flatten_add [OF assms(1,2) i(1)]
  have "fd_index fd = i" using facts(1) i(2) by (simp only: fd_index_of_nat)
  with facts show "okt t1" "fd_index fd < AX_FILE_LIMIT" "fo_get F t (fd_index fd) = None"
    "fo_get F t1 = (fo_get F t)(fd_index fd \<mapsto> f)" by simp_all
qed



text \<open>\<open>dup2\<close> of an open descriptor onto a different one below 1024 makes that descriptor, and
  no other, refer to the same file, whatever it referred to before; onto itself it changes nothing;
  an unopened source is \<open>EBADF\<close> with the table unchanged; and a target outside the table, which a
  user program is free to pass, panics the kernel after the table has been searched.\<close>

theorem sys_dup2_spec:
  assumes "flatten_spec F okt" "okt t"
  shows "case get_file_like F t old_fd of
      Inl e \<Rightarrow> sys_dup2 F t old_fd new_fd = (Inl (Errno EBADF), t)
    | Inr f \<Rightarrow>
        if old_fd = new_fd then sys_dup2 F t old_fd new_fd = (Inr (scast new_fd), t)
        else if fd_index new_fd < AX_FILE_LIMIT then
          \<exists>t'. sys_dup2 F t old_fd new_fd = (Inr (scast new_fd), t') \<and> okt t' \<and>
               fo_get F t' = (fo_get F t)(fd_index new_fd \<mapsto> f)
        else fst (sys_dup2 F t old_fd new_fd) = Inl Panic"
proof (cases "fo_get F t (fd_index old_fd)")
  case None
  then show ?thesis by (simp add: get_file_like_def sys_dup2_def)
next
  case (Some f)
  let ?t = "snd (fo_remove F t (fd_index new_fd))"
  note r = flatten_remove [OF assms, of "fd_index new_fd"]
  show ?thesis
    using Some r(3) flatten_add_at [OF assms(1) r(2), of "fd_index new_fd" f]
    by (auto simp: get_file_like_def sys_dup2_def Let_def)
qed

theorem sys_dup2_spec_witness:
  "fst (sys_dup2 map_objects ((Map.empty :: nat \<rightharpoonup> string)(0 \<mapsto> ''in'')) 0 5000) = Inl Panic \<and>
   (\<exists>t. sys_dup2 map_objects ((Map.empty :: nat \<rightharpoonup> string)(0 \<mapsto> ''in'')) 0 7 = (Inr 7, t) \<and> t 7 = Some ''in'')"
proof -
  have ok: "map_objects_wf ((Map.empty :: nat \<rightharpoonup> string)(0 \<mapsto> ''in''))"
    by (simp add: map_objects_wf_def)
  have i: "fd_index 0 = 0" "fd_index 5000 = 5000" "fd_index 7 = 7" by (simp_all add: fd_index_def)
  note spec = sys_dup2_spec [OF map_objects_spec, OF ok]
  from spec [of 0 5000] spec [of 0 7] show ?thesis
    by (auto simp: get_file_like_def i)
qed

lemma copy_fold:
  assumes "flatten_spec F okt" "okt t" "okt n" "set ids \<subseteq> dom (fo_get F t)"
    "distinct ids" "\<forall>i \<in> set ids. fo_get F n i = None"
  shows "\<exists>n'. foldl (copy_one F t) (Inr n) ids = Inr n' \<and> okt n' \<and>
     fo_get F n' = (\<lambda>i. if i \<in> set ids then fo_get F t i else fo_get F n i)"
  using assms(3-6)
proof (induction ids arbitrary: n)
  case Nil
  then show ?case by simp
next
  case (Cons j ids)
  from Cons.prems obtain f where f: "fo_get F t j = Some f" by auto
  have "j < AX_FILE_LIMIT" using flatten_limit [OF assms(1,2), of j] f by simp
  with flatten_add_at(1) [OF assms(1) Cons.prems(1), of j f] Cons.prems(4) obtain n1 where n1:
    "fo_add_at F n j f = Some (j, n1)" "okt n1" "fo_get F n1 = (fo_get F n)(j \<mapsto> f)" by auto
  have "copy_one F t (Inr n) j = Inr n1" using f n1(1) by (simp add: copy_one_def)
  moreover have "\<forall>i \<in> set ids. fo_get F n1 i = None" "set ids \<subseteq> dom (fo_get F t)" "distinct ids"
    using Cons.prems(2-4) n1(3) by auto
  then obtain n' where n': "foldl (copy_one F t) (Inr n1) ids = Inr n'" "okt n'"
    "fo_get F n' = (\<lambda>i. if i \<in> set ids then fo_get F t i else fo_get F n1 i)"
    using Cons.IH [OF n1(2)] by blast
  moreover have "fo_get F n' = (\<lambda>i. if i \<in> set (j # ids) then fo_get F t i else fo_get F n i)"
    unfolding n'(3) n1(3) using f by (simp add: fun_eq_iff)
  ultimately show ?case by simp
qed

lemma clear_fold:
  assumes "flatten_spec F okt"
  shows "okt t \<Longrightarrow> okt (foldl (\<lambda>t id. snd (fo_remove F t id)) t ids) \<and>
    fo_get F (foldl (\<lambda>t id. snd (fo_remove F t id)) t ids) =
      (\<lambda>i. if i \<in> set ids then None else fo_get F t i)"
proof (induction ids arbitrary: t)
  case (Cons j ids)
  note r = flatten_remove [OF assms Cons.prems, of j]
  with Cons.IH [OF r(2)] show ?case by (auto simp: fun_eq_iff)
qed auto

text \<open>The table a new process gets from \<open>copy_inner\<close> has the same file at every descriptor as the table
  it is copied from, and building it cannot panic; \<open>clear\<close> at process exit leaves no descriptor open.\<close>

lemma copy_inner_spec:
  assumes "flatten_spec F okt" "okt t"
  shows "\<exists>t'. copy_inner F t = Inr t' \<and> okt t' \<and> fo_get F t' = fo_get F t"
proof -
  have ids: "set (fo_ids F t) = dom (fo_get F t)" "distinct (fo_ids F t)"
    using assms unfolding flatten_spec_def by blast+
  have empty: "\<forall>i \<in> set (fo_ids F t). fo_get F (fo_new F) i = None"
    using flatten_new(2) [OF assms(1)] by simp
  obtain n where n: "copy_inner F t = Inr n" "okt n"
    "fo_get F n = (\<lambda>i. if i \<in> set (fo_ids F t) then fo_get F t i else fo_get F (fo_new F) i)"
    using copy_fold [OF assms flatten_new(1) [OF assms(1)] _ ids(2) empty] ids(1)
    unfolding copy_inner_def by blast
  have "fo_get F n = fo_get F t"
    using n(3) ids(1) flatten_new(2) [OF assms(1)] by (auto simp: fun_eq_iff)
  with n show ?thesis by blast
qed

lemma fd_clear_spec:
  assumes "flatten_spec F okt" "okt t"
  shows "fo_get F (fd_clear F t) = Map.empty"
  using clear_fold [OF assms, of "fo_ids F t"] flatten_ids [OF assms] unfolding fd_clear_def
  by (auto simp: fun_eq_iff)

end
