(* ===== verification/Fifo_Spec.thy ===== *)
theory Fifo_Spec
  imports Kernel_Prelude
begin

text \<open>
  The interface of a bounded first-in first-out queue with fallible single-element operations, and
  the two loops a client builds from them: reading a given number of elements, and the bounded
  \<open>for\<close> loop that copies a buffer into the queue.
\<close>

fun read_n :: "('q \<Rightarrow> ('a \<times> 'q) res) \<Rightarrow> nat \<Rightarrow> 'q \<Rightarrow> ('a list \<times> 'q) res" where
  "read_n rd 0 q = Inr ([], q)"
| "read_n rd (Suc n) q =
     rbind (rd q) (\<lambda>(x, q'). rbind (read_n rd n q') (\<lambda>(xs, q''). Inr (x # xs, q'')))"

text \<open>The copy loop runs \<open>k\<close> times from index \<open>ws\<close> of the buffer and stops early, with
  \<^const>\<open>True\<close>, when the whole buffer has been copied.\<close>

fun write_for :: "('q \<Rightarrow> 'a \<Rightarrow> 'q res) \<Rightarrow> 'a list \<Rightarrow> nat \<Rightarrow> nat \<Rightarrow> 'q \<Rightarrow> (bool \<times> nat \<times> 'q) res" where
  "write_for wr buf 0 ws q = Inr (False, ws, q)"
| "write_for wr buf (Suc k) ws q =
     (if ws = length buf then Inr (True, ws, q)
      else if ws < length buf then rbind (wr q (buf ! ws)) (\<lambda>q'. write_for wr buf k (Suc ws) q')
      else Inl Panic)"

locale bounded_fifo =
  fixes enq :: "'q \<Rightarrow> 'a \<Rightarrow> 'q res"
    and deq :: "'q \<Rightarrow> ('a \<times> 'q) res"
    and avail :: "'q \<Rightarrow> nat"
    and room :: "'q \<Rightarrow> nat"
    and contents :: "'q \<Rightarrow> 'a list"
    and invar :: "'q \<Rightarrow> bool"
    and capacity :: nat
  assumes enq_law: "invar q \<Longrightarrow> 0 < room q \<Longrightarrow>
      \<exists>q'. enq q x = Inr q' \<and> invar q' \<and> contents q' = contents q @ [x]"
    and deq_law: "invar q \<Longrightarrow> 0 < avail q \<Longrightarrow>
      \<exists>x q'. deq q = Inr (x, q') \<and> invar q' \<and> contents q = x # contents q'"
    and avail_law: "length (contents q) = avail q"
    and room_law: "invar q \<Longrightarrow> avail q + room q = capacity"
begin

lemma read_n_contents:
  "invar q \<Longrightarrow> n \<le> avail q \<Longrightarrow>
   \<exists>q'. read_n deq n q = Inr (take n (contents q), q') \<and> invar q' \<and>
        contents q' = drop n (contents q)"
proof (induction n arbitrary: q)
  case 0
  then show ?case by simp
next
  case (Suc n)
  from Suc.prems deq_law [of q] obtain x q1 where q1: "deq q = Inr (x, q1)" "invar q1"
    "contents q = x # contents q1" by auto
  with Suc.prems(2) avail_law [of q] avail_law [of q1] have "n \<le> avail q1" by simp
  with Suc.IH [OF q1(2)] q1 show ?case by auto
qed

lemma write_for_contents:
  "invar q \<Longrightarrow> k \<le> room q \<Longrightarrow> ws \<le> length buf \<Longrightarrow>
   \<exists>q'. write_for enq buf k ws q =
          Inr (length buf - ws < k, ws + min k (length buf - ws), q') \<and> invar q' \<and>
        contents q' = contents q @ take (min k (length buf - ws)) (drop ws buf)"
proof (induction k arbitrary: q ws)
  case 0
  then show ?case by simp
next
  case (Suc k)
  show ?case
  proof (cases "ws = length buf")
    case True
    with Suc.prems show ?thesis by simp
  next
    case False
    with Suc.prems have ws: "ws < length buf" by simp
    from Suc.prems enq_law [of q "buf ! ws"] obtain q1 where q1:
      "enq q (buf ! ws) = Inr q1" "invar q1" "contents q1 = contents q @ [buf ! ws]" by auto
    have "k \<le> room q1"
      using Suc.prems room_law [of q] room_law [of q1] q1 avail_law [of q] avail_law [of q1] by simp
    with Suc.IH [OF q1(2), of "Suc ws"] ws obtain q' where q':
      "write_for enq buf k (Suc ws) q1 =
         Inr (length buf - Suc ws < k, Suc ws + min k (length buf - Suc ws), q')" "invar q'"
      "contents q' = contents q1 @ take (min k (length buf - Suc ws)) (drop (Suc ws) buf)"
      by auto
    have take: "take (min (Suc k) (length buf - ws)) (drop ws buf) =
        buf ! ws # take (min k (length buf - Suc ws)) (drop (Suc ws) buf)"
    proof -
      have "min (Suc k) (length buf - ws) = Suc (min k (length buf - Suc ws))" using ws by simp
      moreover have "drop ws buf = buf ! ws # drop (Suc ws) buf"
        using ws by (simp add: Cons_nth_drop_Suc)
      ultimately show ?thesis by (metis take_Suc_Cons)
    qed
    have arith: "(length buf - Suc ws < k) = (length buf - ws < Suc k)"
      "Suc ws + min k (length buf - Suc ws) = ws + min (Suc k) (length buf - ws)" using ws by auto
    from q' q1 ws show ?thesis unfolding take arith [symmetric] by auto
  qed
qed

end

end
