(* ===== verification/Pipe.thy ===== *)
theory Pipe
  imports Fifo_Spec "HOL-Library.Sublist"
begin

text \<open>
  The pipe of \<open>api/src/file/pipe.rs\<close>: the ring buffer with its three-valued status, the two ends
  that share it, and the read and write loops. A loop iteration runs under the buffer's lock and is
  one atomic step; between iterations the lock is released and other tasks may act, which the run
  functions take as an explicit list of environment moves.
\<close>

section \<open>The ring buffer\<close>

datatype ring_buffer_status = Full | Empty | Normal

definition RING_BUFFER_SIZE :: nat where
  [simp]: "RING_BUFFER_SIZE = 256"

record pipe_ring_buffer =
  arr :: "u8 list"
  head :: nat
  tail :: nat
  status :: ring_buffer_status

definition ring_new :: pipe_ring_buffer where
  "ring_new = \<lparr>arr = replicate RING_BUFFER_SIZE 0, head = 0, tail = 0, status = Empty\<rparr>"

text \<open>Indexing an array out of bounds panics.\<close>

definition write_byte :: "pipe_ring_buffer \<Rightarrow> u8 \<Rightarrow> pipe_ring_buffer res" where
  "write_byte rb byte =
     (if tail rb < length (arr rb) then
        let t = (tail rb + 1) mod RING_BUFFER_SIZE in
        Inr (rb\<lparr>arr := (arr rb)[tail rb := byte], tail := t,
                status := (if t = head rb then Full else Normal)\<rparr>)
      else Inl Panic)"

definition read_byte :: "pipe_ring_buffer \<Rightarrow> (u8 \<times> pipe_ring_buffer) res" where
  "read_byte rb =
     (if head rb < length (arr rb) then
        let c = arr rb ! head rb; h = (head rb + 1) mod RING_BUFFER_SIZE in
        Inr (c, rb\<lparr>head := h, status := (if h = tail rb then Empty else Normal)\<rparr>)
      else Inl Panic)"

definition available_read :: "pipe_ring_buffer \<Rightarrow> nat" where
  "available_read rb =
     (if status rb = Empty then 0
      else if tail rb > head rb then tail rb - head rb
      else tail rb + RING_BUFFER_SIZE - head rb)"

definition available_write :: "pipe_ring_buffer \<Rightarrow> nat" where
  "available_write rb =
     (if status rb = Full then 0 else RING_BUFFER_SIZE - available_read rb)"

text \<open>The representation invariant, and the queue of bytes a buffer stands for.\<close>

definition ring_inv :: "pipe_ring_buffer \<Rightarrow> bool" where
  "ring_inv rb \<longleftrightarrow> length (arr rb) = RING_BUFFER_SIZE \<and> head rb < RING_BUFFER_SIZE \<and>
     tail rb < RING_BUFFER_SIZE \<and> (status rb = Normal \<longleftrightarrow> head rb \<noteq> tail rb)"

definition ring_contents :: "pipe_ring_buffer \<Rightarrow> u8 list" where
  "ring_contents rb =
     map (\<lambda>i. arr rb ! ((head rb + i) mod RING_BUFFER_SIZE)) [0..<available_read rb]"

lemma length_ring_contents [simp]: "length (ring_contents rb) = available_read rb"
  by (simp add: ring_contents_def)

lemma ring_new_inv [simp]: "ring_inv ring_new" "ring_contents ring_new = []"
    "available_read ring_new = 0" "available_write ring_new = 256"
  by (simp_all add: ring_inv_def ring_new_def ring_contents_def available_read_def
      available_write_def)

lemma available_read_le: "ring_inv rb \<Longrightarrow> available_read rb \<le> RING_BUFFER_SIZE"
  by (auto simp: ring_inv_def available_read_def)

lemma available_sum: "ring_inv rb \<Longrightarrow> available_read rb + available_write rb = RING_BUFFER_SIZE"
  using available_read_le [of rb]
  by (cases "status rb") (auto simp: ring_inv_def available_read_def available_write_def)

lemma tail_eq: "ring_inv rb \<Longrightarrow> (head rb + available_read rb) mod RING_BUFFER_SIZE = tail rb"
  by (cases "status rb") (auto simp: ring_inv_def available_read_def mod_if)

lemma write_byte_ring:
  assumes inv: "ring_inv rb" and room: "0 < available_write rb"
  shows "\<exists>rb'. write_byte rb b = Inr rb' \<and> ring_inv rb' \<and>
               ring_contents rb' = ring_contents rb @ [b]"
proof -
  let ?n = "available_read rb"
  let ?t = "(tail rb + 1) mod RING_BUFFER_SIZE"
  let ?rb = "rb\<lparr>arr := (arr rb)[tail rb := b], tail := ?t,
                 status := (if ?t = head rb then Full else Normal)\<rparr>"
  from inv have len: "length (arr rb) = 256" and h: "head rb < 256" and t: "tail rb < 256"
    by (auto simp: ring_inv_def)
  have n: "?n < 256" using available_sum [OF inv] room by simp
  have wb: "write_byte rb b = Inr ?rb"
    using len t by (simp add: write_byte_def Let_def)
  have inv': "ring_inv ?rb" using len h t by (auto simp: ring_inv_def)
  have ar: "available_read ?rb = Suc ?n"
    using inv n h t by (cases "status rb") (auto simp: ring_inv_def available_read_def mod_if)
  have old: "(arr rb)[tail rb := b] ! ((head rb + i) mod 256) = arr rb ! ((head rb + i) mod 256)"
    if "i < ?n" for i
    using that n tail_eq [OF inv] mod_shift_inj [of "head rb" i 256 ?n]
    by (metis RING_BUFFER_SIZE_def less_trans nat_neq_iff nth_list_update_neq)
  have new: "(arr rb)[tail rb := b] ! ((head rb + ?n) mod 256) = b"
    using tail_eq [OF inv] len t by simp
  have "ring_contents ?rb = ring_contents rb @ [b]"
    unfolding ring_contents_def ar using old new by simp
  with wb inv' show ?thesis by blast
qed

lemma read_byte_ring:
  assumes inv: "ring_inv rb" and data: "0 < available_read rb"
  shows "\<exists>c rb'. read_byte rb = Inr (c, rb') \<and> ring_inv rb' \<and>
                 ring_contents rb = c # ring_contents rb'"
proof -
  let ?n = "available_read rb"
  let ?h = "(head rb + 1) mod RING_BUFFER_SIZE"
  let ?rb = "rb\<lparr>head := ?h, status := (if ?h = tail rb then Empty else Normal)\<rparr>"
  from inv have len: "length (arr rb) = 256" and h: "head rb < 256" and t: "tail rb < 256"
    by (auto simp: ring_inv_def)
  have rb: "read_byte rb = Inr (arr rb ! head rb, ?rb)"
    using len h by (simp add: read_byte_def Let_def)
  have inv': "ring_inv ?rb" using len h t by (auto simp: ring_inv_def)
  have ar: "?n = Suc (available_read ?rb)"
    using inv data h t by (cases "status rb") (auto simp: ring_inv_def available_read_def mod_if)
  have shift: "(Suc (head rb) mod 256 + i) mod 256 = (head rb + Suc i) mod 256" for i
    by (metis add_Suc add_Suc_right mod_add_left_eq)
  have "ring_contents rb = arr rb ! head rb # ring_contents ?rb"
    unfolding ring_contents_def ar
    by (simp add: upt_conv_Cons map_Suc_upt [symmetric] comp_def shift h del: upt_Suc)
  with rb inv' show ?thesis by blast
qed

interpretation ring: bounded_fifo write_byte read_byte available_read available_write
  ring_contents ring_inv RING_BUFFER_SIZE
proof unfold_locales
  show "length (ring_contents q) = available_read q" for q by simp
qed (use write_byte_ring read_byte_ring available_sum in blast)+

section \<open>The two ends and their loops\<close>

text \<open>The buffer both ends share, with the strong count of the \<open>Arc\<close> that holds it.\<close>

record pipe_shared =
  buffer :: pipe_ring_buffer
  strong_count :: nat

definition pipe_new :: "bool \<times> bool \<times> pipe_shared" where
  "pipe_new = (True, False, \<lparr>buffer = ring_new, strong_count = 2\<rparr>)"

definition writable :: "bool \<Rightarrow> bool" where
  "writable is_read_end = (\<not> is_read_end)"

definition closed :: "pipe_shared \<Rightarrow> bool" where
  "closed sh \<longleftrightarrow> strong_count sh = 1"

definition available_data :: "pipe_shared \<Rightarrow> nat" where
  "available_data sh = available_read (buffer sh)"

text \<open>One iteration of the loop in \<open>read\<close>: \<^const>\<open>Some\<close> bytes ends the call, \<^const>\<open>None\<close> yields
  and tries again.\<close>

definition pipe_read_iter :: "nat \<Rightarrow> pipe_shared \<Rightarrow> (u8 list option \<times> pipe_shared) res" where
  "pipe_read_iter buf_len sh =
     (let read_size = min (available_read (buffer sh)) buf_len in
      if read_size = 0 then (if closed sh then Inr (Some [], sh) else Inr (None, sh))
      else rbind (read_n read_byte read_size (buffer sh))
             (\<lambda>(bytes, rb). Inr (Some bytes, sh\<lparr>buffer := rb\<rparr>)))"

text \<open>The loops run against a list of environment moves, one per time the lock is given up; the
  result is \<^const>\<open>None\<close> when the moves run out while the call is still waiting.\<close>

type_synonym env = "(pipe_shared \<Rightarrow> pipe_shared) list"

fun pipe_read_loop :: "env \<Rightarrow> nat \<Rightarrow> pipe_shared \<Rightarrow> (u8 list res \<times> pipe_shared) option" where
  "pipe_read_loop [] n sh =
     (case pipe_read_iter n sh of
        Inl e \<Rightarrow> Some (Inl e, sh)
      | Inr (Some bytes, sh') \<Rightarrow> Some (Inr bytes, sh')
      | Inr (None, sh') \<Rightarrow> None)"
| "pipe_read_loop (f # env) n sh =
     (case pipe_read_iter n sh of
        Inl e \<Rightarrow> Some (Inl e, sh)
      | Inr (Some bytes, sh') \<Rightarrow> Some (Inr bytes, sh')
      | Inr (None, sh') \<Rightarrow> pipe_read_loop env n (f sh'))"

definition pipe_read :: "bool \<Rightarrow> env \<Rightarrow> nat \<Rightarrow> pipe_shared \<Rightarrow> (u8 list res \<times> pipe_shared) option" where
  "pipe_read is_read_end env buf_len sh =
     (if \<not> is_read_end then Some (Inl (Errno EPERM), sh)
      else if buf_len = 0 then Some (Inr [], sh)
      else pipe_read_loop env buf_len sh)"

text \<open>One iteration of the loop in \<open>write\<close>, from the number of bytes written so far; the flag says
  that the call returns.\<close>

definition pipe_write_iter :: "u8 list \<Rightarrow> nat \<Rightarrow> pipe_shared \<Rightarrow> (bool \<times> nat \<times> pipe_shared) res" where
  "pipe_write_iter buf write_size sh =
     (let loop_write = available_write (buffer sh) in
      if loop_write = 0 then (if closed sh then Inr (True, write_size, sh) else Inr (False, write_size, sh))
      else rbind (write_for write_byte buf loop_write write_size (buffer sh))
             (\<lambda>(fin, ws, rb). Inr (fin, ws, sh\<lparr>buffer := rb\<rparr>)))"

fun pipe_write_loop :: "env \<Rightarrow> u8 list \<Rightarrow> nat \<Rightarrow> pipe_shared \<Rightarrow> (nat res \<times> pipe_shared) option" where
  "pipe_write_loop [] buf ws sh =
     (case pipe_write_iter buf ws sh of
        Inl e \<Rightarrow> Some (Inl e, sh)
      | Inr (True, ws', sh') \<Rightarrow> Some (Inr ws', sh')
      | Inr (False, ws', sh') \<Rightarrow> None)"
| "pipe_write_loop (f # env) buf ws sh =
     (case pipe_write_iter buf ws sh of
        Inl e \<Rightarrow> Some (Inl e, sh)
      | Inr (True, ws', sh') \<Rightarrow> Some (Inr ws', sh')
      | Inr (False, ws', sh') \<Rightarrow> pipe_write_loop env buf ws' (f sh'))"

definition pipe_write :: "bool \<Rightarrow> env \<Rightarrow> u8 list \<Rightarrow> pipe_shared \<Rightarrow> (nat res \<times> pipe_shared) option" where
  "pipe_write is_read_end env buf sh =
     (if \<not> writable is_read_end then Some (Inl (Errno EPERM), sh)
      else if closed sh then Some (Inl (Errno EPIPE), sh)
      else if buf = [] then Some (Inr 0, sh)
      else pipe_write_loop env buf 0 sh)"

record poll_state =
  ps_readable :: bool
  ps_writable :: bool

definition pipe_poll :: "bool \<Rightarrow> pipe_shared \<Rightarrow> poll_state" where
  "pipe_poll is_read_end sh =
     \<lparr>ps_readable = is_read_end \<and> available_read (buffer sh) > 0,
      ps_writable = writable is_read_end \<and> available_write (buffer sh) > 0\<rparr>"

subsection \<open>One iteration\<close>

lemma pipe_read_iter_data:
  assumes "ring_inv (buffer sh)" "0 < n" "ring_contents (buffer sh) \<noteq> []"
  shows "\<exists>rb. pipe_read_iter n sh =
           Inr (Some (take n (ring_contents (buffer sh))), sh\<lparr>buffer := rb\<rparr>) \<and> ring_inv rb \<and>
           ring_contents rb = drop n (ring_contents (buffer sh))"
proof -
  let ?q = "buffer sh"
  have av: "0 < available_read ?q" using assms(3) by (metis length_greater_0_conv length_ring_contents)
  obtain rb where "read_n read_byte (min (available_read ?q) n) ?q =
      Inr (take (min (available_read ?q) n) (ring_contents ?q), rb)" "ring_inv rb"
    "ring_contents rb = drop (min (available_read ?q) n) (ring_contents ?q)"
    using ring.read_n_contents [OF assms(1), of "min (available_read ?q) n"] by auto
  moreover have "take (min (available_read ?q) n) (ring_contents ?q) = take n (ring_contents ?q)"
    "drop (min (available_read ?q) n) (ring_contents ?q) = drop n (ring_contents ?q)"
    by (auto simp: min_def)
  ultimately show ?thesis using av assms(2) by (auto simp: pipe_read_iter_def Let_def)
qed

lemma pipe_read_iter_empty:
  assumes "ring_contents (buffer sh) = []"
  shows "pipe_read_iter n sh = Inr (if closed sh then Some [] else None, sh)"
  using assms length_ring_contents [of "buffer sh"]
  by (simp add: pipe_read_iter_def)

lemma pipe_write_iter_room:
  assumes "ring_inv (buffer sh)" "0 < available_write (buffer sh)" "ws \<le> length buf"
  shows "\<exists>rb. pipe_write_iter buf ws sh =
           Inr (length buf - ws < available_write (buffer sh),
                ws + min (available_write (buffer sh)) (length buf - ws), sh\<lparr>buffer := rb\<rparr>) \<and>
         ring_inv rb \<and>
         ring_contents rb = ring_contents (buffer sh) @
           take (min (available_write (buffer sh)) (length buf - ws)) (drop ws buf)"
  using ring.write_for_contents [OF assms(1) order_refl assms(3)] assms(2)
  by (auto simp: pipe_write_iter_def Let_def)

lemma pipe_write_iter_full:
  "available_write (buffer sh) = 0 \<Longrightarrow> pipe_write_iter buf ws sh = Inr (closed sh, ws, sh)"
  by (simp add: pipe_write_iter_def)

lemma pipe_write_iter_cases:
  assumes "ring_inv (buffer sh)" "ws \<le> length buf"
  obtains fin ws' rb where "pipe_write_iter buf ws sh = Inr (fin, ws', sh\<lparr>buffer := rb\<rparr>)"
    "ring_inv rb" "ws \<le> ws'" "ws' \<le> length buf"
    "ring_contents rb = ring_contents (buffer sh) @ take (ws' - ws) (drop ws buf)"
proof (cases "available_write (buffer sh) = 0")
  case True
  then have "pipe_write_iter buf ws sh = Inr (closed sh, ws, sh\<lparr>buffer := buffer sh\<rparr>)"
    using pipe_write_iter_full by simp
  then show ?thesis using that [of "closed sh" ws "buffer sh"] assms by simp
next
  case False
  then show ?thesis
    using pipe_write_iter_room [OF assms(1) _ assms(2)] assms(2)
      that [of _ "ws + min (available_write (buffer sh)) (length buf - ws)"] by force
qed

lemma pipe_read_iter_cases:
  assumes "ring_inv (buffer sh)" "0 < n"
  obtains bytes rb where "pipe_read_iter n sh = Inr (bytes, sh\<lparr>buffer := rb\<rparr>)" "ring_inv rb"
    "ring_contents (buffer sh) = (case bytes of None \<Rightarrow> [] | Some bs \<Rightarrow> bs) @ ring_contents rb"
proof (cases "ring_contents (buffer sh) = []")
  case True
  then show ?thesis
    using that [of "if closed sh then Some [] else None" "buffer sh"] pipe_read_iter_empty assms
    by simp
next
  case False
  then show ?thesis using pipe_read_iter_data [OF assms False] that by fastforce
qed

section \<open>Readers, writers and closers in any interleaving\<close>

text \<open>A pipe in use: any number of tasks may be inside \<open>write\<close>, each with its buffer and position;
  the bytes the buffer has accepted and the bytes that calls of \<open>read\<close> have returned are recorded in
  order. A step is one loop iteration of one task, the start of a write, or the drop of an end.\<close>

record pipe_sys =
  shared :: pipe_shared
  writers :: "nat \<Rightarrow> (u8 list \<times> nat) option"
  sent :: "u8 list"
  recvd :: "u8 list"

definition pipe_init :: pipe_sys where
  "pipe_init = \<lparr>shared = snd (snd pipe_new), writers = (\<lambda>_. None), sent = [], recvd = []\<rparr>"

inductive pipe_step :: "pipe_sys \<Rightarrow> pipe_sys \<Rightarrow> bool" where
  begin_write: "writers s i = None \<Longrightarrow> \<not> closed (shared s) \<Longrightarrow> buf \<noteq> [] \<Longrightarrow>
    pipe_step s (s\<lparr>writers := (writers s)(i \<mapsto> (buf, 0))\<rparr>)"
| write_iter: "writers s i = Some (buf, ws) \<Longrightarrow>
    pipe_write_iter buf ws (shared s) = Inr (fin, ws', sh) \<Longrightarrow>
    pipe_step s (s\<lparr>shared := sh, writers := (writers s)(i := (if fin then None else Some (buf, ws'))),
                   sent := sent s @ take (ws' - ws) (drop ws buf)\<rparr>)"
| read_iter: "0 < n \<Longrightarrow> pipe_read_iter n (shared s) = Inr (bytes, sh) \<Longrightarrow>
    pipe_step s (s\<lparr>shared := sh, recvd := recvd s @ (case bytes of None \<Rightarrow> [] | Some bs \<Rightarrow> bs)\<rparr>)"
| drop_end: "0 < strong_count (shared s) \<Longrightarrow>
    pipe_step s (s\<lparr>shared := (shared s)\<lparr>strong_count := strong_count (shared s) - 1\<rparr>\<rparr>)"

inductive pipe_reachable :: "pipe_sys \<Rightarrow> bool" where
  init: "pipe_reachable pipe_init"
| step: "pipe_reachable s \<Longrightarrow> pipe_step s t \<Longrightarrow> pipe_reachable t"

definition pipe_sys_inv :: "pipe_sys \<Rightarrow> bool" where
  "pipe_sys_inv s \<longleftrightarrow> ring_inv (buffer (shared s)) \<and>
     recvd s @ ring_contents (buffer (shared s)) = sent s \<and>
     (\<forall>i buf ws. writers s i = Some (buf, ws) \<longrightarrow> ws \<le> length buf)"

lemma pipe_init_inv: "pipe_sys_inv pipe_init"
  by (simp add: pipe_sys_inv_def pipe_init_def pipe_new_def)

lemma pipe_step_inv: "pipe_step s t \<Longrightarrow> pipe_sys_inv s \<Longrightarrow> pipe_sys_inv t"
proof (induction rule: pipe_step.induct)
  case (write_iter s i buf ws fin ws' sh)
  then have inv: "ring_inv (buffer (shared s))" "ws \<le> length buf" by (auto simp: pipe_sys_inv_def)
  from write_iter.hyps show ?case
    by (rule_tac pipe_write_iter_cases [OF inv]) (use write_iter.prems in \<open>auto simp: pipe_sys_inv_def\<close>)
next
  case (read_iter n s bytes sh)
  then have inv: "ring_inv (buffer (shared s))" by (auto simp: pipe_sys_inv_def)
  from read_iter.hyps read_iter.prems show ?case
    by (rule_tac pipe_read_iter_cases [OF inv, of n]) (auto simp: pipe_sys_inv_def)
qed (auto simp: pipe_sys_inv_def)

lemma pipe_reachable_inv: "pipe_reachable s \<Longrightarrow> pipe_sys_inv s"
  by (induction rule: pipe_reachable.induct) (auto intro: pipe_init_inv pipe_step_inv)

text \<open>C5. In every state a pipe can reach, under any interleaving of the iterations of concurrent
  writers and readers and of ends being dropped, the bytes read so far are a prefix of the bytes
  the pipe accepted, in order; what is missing is exactly what the ring buffer holds, at most 256
  bytes; and neither loop can panic there.\<close>

theorem pipe_fifo_integrity:
  assumes "pipe_reachable s"
  shows "sent s = recvd s @ ring_contents (buffer (shared s)) \<and>
    length (sent s) \<le> length (recvd s) + RING_BUFFER_SIZE \<and>
    (\<forall>n>0. \<exists>bytes sh. pipe_read_iter n (shared s) = Inr (bytes, sh)) \<and>
    (\<forall>i buf ws. writers s i = Some (buf, ws) \<longrightarrow>
       (\<exists>fin ws' sh. pipe_write_iter buf ws (shared s) = Inr (fin, ws', sh)))"
proof (intro conjI allI impI)
  have inv: "pipe_sys_inv s" using assms by (rule pipe_reachable_inv)
  then have ring: "ring_inv (buffer (shared s))" by (simp add: pipe_sys_inv_def)
  show s: "sent s = recvd s @ ring_contents (buffer (shared s))"
    using inv by (simp add: pipe_sys_inv_def)
  show "length (sent s) \<le> length (recvd s) + RING_BUFFER_SIZE"
    unfolding s using available_read_le [OF ring] by simp
  show "\<exists>bytes sh. pipe_read_iter n (shared s) = Inr (bytes, sh)" if "0 < n" for n
    by (rule pipe_read_iter_cases [OF ring that]) simp
  show "\<exists>fin ws' sh. pipe_write_iter buf ws (shared s) = Inr (fin, ws', sh)"
    if "writers s i = Some (buf, ws)" for i buf ws
  proof -
    have "ws \<le> length buf" using inv that by (auto simp: pipe_sys_inv_def)
    then show ?thesis by (rule pipe_write_iter_cases [OF ring]) simp
  qed
qed

theorem pipe_fifo_integrity_witness:
  "pipe_reachable (pipe_init\<lparr>writers := (\<lambda>_. None)(0 \<mapsto> ([7], 0))\<rparr>) \<and>
   (\<exists>fin ws' sh. pipe_write_iter [7] 0 (shared pipe_init) = Inr (fin, ws', sh))"
proof -
  let ?s = "pipe_init\<lparr>writers := (\<lambda>_. None)(0 \<mapsto> ([7], 0))\<rparr>"
  have "pipe_step pipe_init ?s"
    using pipe_step.begin_write [of pipe_init 0 "[7]"]
    by (simp add: pipe_init_def pipe_new_def closed_def)
  then have r: "pipe_reachable ?s" by (rule pipe_reachable.step [OF pipe_reachable.init])
  have "writers ?s 0 = Some ([7], 0)" by simp
  then have "\<exists>fin ws' sh. pipe_write_iter [7] 0 (shared ?s) = Inr (fin, ws', sh)"
    using pipe_fifo_integrity [OF r] by blast
  with r show ?thesis by simp
qed

section \<open>Complete calls\<close>

text \<open>A call of \<open>read\<close> on the read end with a non-empty buffer returns, when the pipe holds
  data, exactly the oldest bytes that fit and leaves the others; on an empty pipe it returns end of
  file when the other end is gone, and otherwise it waits: it goes on from what the next
  environment move leaves, and is still waiting when there is none.\<close>

theorem pipe_read_spec:
  assumes "ring_inv (buffer sh)" "0 < n"
  shows "if ring_contents (buffer sh) \<noteq> [] then
      \<exists>rb. pipe_read True env n sh =
             Some (Inr (take n (ring_contents (buffer sh))), sh\<lparr>buffer := rb\<rparr>) \<and>
           ring_inv rb \<and> ring_contents rb = drop n (ring_contents (buffer sh))
    else if closed sh then pipe_read True env n sh = Some (Inr [], sh)
    else pipe_read True env n sh =
      (case env of [] \<Rightarrow> None | f # env' \<Rightarrow> pipe_read True env' n (f sh))"
proof (cases "ring_contents (buffer sh) = []")
  case True
  with assms(2) show ?thesis
    by (cases env) (simp_all add: pipe_read_def pipe_read_iter_empty)
next
  case False
  with pipe_read_iter_data [OF assms False] assms(2) show ?thesis
    by (cases env) (auto simp: pipe_read_def)
qed

theorem pipe_read_spec_witness:
  "\<exists>rb. write_byte ring_new 9 = Inr rb \<and> ring_inv rb \<and>
     (\<exists>rb'. pipe_read True [] 4 \<lparr>buffer = rb, strong_count = 2\<rparr> =
            Some (Inr [9], \<lparr>buffer = rb', strong_count = 2\<rparr>))"
proof -
  obtain rb where rb: "write_byte ring_new 9 = Inr rb" "ring_inv rb" "ring_contents rb = [9]"
    using write_byte_ring [OF ring_new_inv(1), of 9] by auto
  have "0 < (4::nat)" by simp
  with pipe_read_spec [of "\<lparr>buffer = rb, strong_count = 2\<rparr>" 4 "[]"] rb show ?thesis by auto
qed

definition drains :: "(pipe_shared \<Rightarrow> pipe_shared) \<Rightarrow> bool" where
  "drains f \<longleftrightarrow> (\<forall>sh. ring_inv (buffer sh) \<longrightarrow> ring_inv (buffer (f sh)) \<and>
     strong_count (f sh) = strong_count sh \<and>
     (ring_contents (buffer sh) \<noteq> [] \<longrightarrow>
        length (ring_contents (buffer (f sh))) < length (ring_contents (buffer sh))))"

lemma drainsD:
  assumes "drains f" "ring_inv (buffer sh)" "ring_contents (buffer sh) \<noteq> []"
  shows "ring_inv (buffer (f sh))" "0 < available_write (buffer (f sh))"
proof -
  have f: "ring_inv (buffer (f sh))" "available_read (buffer (f sh)) < available_read (buffer sh)"
    using assms by (auto simp: drains_def)
  then show "ring_inv (buffer (f sh))" "0 < available_write (buffer (f sh))"
    using available_sum [OF f(1)] available_read_le [OF assms(2)] by simp_all
qed

text \<open>A reader that runs one iteration whenever it gets the processor drains the pipe.\<close>

definition reader_turn :: "nat \<Rightarrow> pipe_shared \<Rightarrow> pipe_shared" where
  "reader_turn n sh = (case pipe_read_iter n sh of Inl e \<Rightarrow> sh | Inr (bytes, sh') \<Rightarrow> sh')"

lemma reader_turn_drains: "0 < n \<Longrightarrow> drains (reader_turn n)"
  unfolding drains_def
proof (intro allI impI)
  fix sh :: pipe_shared assume n: "0 < n" and inv: "ring_inv (buffer sh)"
  show "ring_inv (buffer (reader_turn n sh)) \<and> strong_count (reader_turn n sh) = strong_count sh \<and>
    (ring_contents (buffer sh) \<noteq> [] \<longrightarrow>
       length (ring_contents (buffer (reader_turn n sh))) < length (ring_contents (buffer sh)))"
  proof (cases "ring_contents (buffer sh) = []")
    case True
    with inv show ?thesis by (simp add: reader_turn_def pipe_read_iter_empty)
  next
    case False
    then obtain rb where "pipe_read_iter n sh =
        Inr (Some (take n (ring_contents (buffer sh))), sh\<lparr>buffer := rb\<rparr>)" "ring_inv rb"
      "ring_contents rb = drop n (ring_contents (buffer sh))"
      using pipe_read_iter_data [OF inv n] by blast
    moreover from False n have "length (drop n (ring_contents (buffer sh))) < length (ring_contents (buffer sh))"
      by (metis diff_less length_drop length_greater_0_conv)
    ultimately show ?thesis unfolding reader_turn_def by (simp del: length_ring_contents)
  qed
qed

lemma pipe_write_loop_completes:
  assumes "\<forall>f \<in> set env. drains f"
  shows "ring_inv (buffer sh) \<Longrightarrow> 0 < available_write (buffer sh) \<Longrightarrow> ws \<le> length buf \<Longrightarrow>
    length buf - ws \<le> length env \<Longrightarrow> \<exists>sh'. pipe_write_loop env buf ws sh = Some (Inr (length buf), sh')"
  using assms
proof (induction env arbitrary: ws sh)
  case Nil
  then show ?case using pipe_write_iter_room [OF Nil.prems(1-3)] by auto
next
  case (Cons f env)
  let ?room = "available_write (buffer sh)"
  obtain rb where rb: "pipe_write_iter buf ws sh = Inr (length buf - ws < ?room,
      ws + min ?room (length buf - ws), sh\<lparr>buffer := rb\<rparr>)" "ring_inv rb"
    "ring_contents rb = ring_contents (buffer sh) @ take (min ?room (length buf - ws)) (drop ws buf)"
    using pipe_write_iter_room [OF Cons.prems(1-3)] by blast
  show ?case
  proof (cases "length buf - ws < ?room")
    case True
    with rb Cons.prems(3) show ?thesis by simp
  next
    case False
    let ?sh = "f (sh\<lparr>buffer := rb\<rparr>)"
    have "ring_contents rb \<noteq> []"
      using rb(3) False Cons.prems(2,3) by (auto simp: min_def)
    then have f: "ring_inv (buffer ?sh)" "0 < available_write (buffer ?sh)"
      using drainsD [of f "sh\<lparr>buffer := rb\<rparr>"] Cons.prems(5) rb(2) by auto
    moreover have "ws + min ?room (length buf - ws) \<le> length buf"
      "length buf - (ws + min ?room (length buf - ws)) \<le> length env"
      using Cons.prems(2,3,4) False by auto
    ultimately show ?thesis using Cons.IH [OF f] Cons.prems(5) rb(1) False by simp
  qed
qed

text \<open>C12. A write on an open pipe whose reader keeps draining the buffer returns, and reports every
  byte of its buffer as written: as many environment moves as the buffer has bytes, plus one, are
  enough, whatever the pipe held at the start.\<close>

theorem pipe_write_completes:
  assumes "ring_inv (buffer sh)" "\<not> closed sh" "\<forall>f \<in> set env. drains f"
    and "length buf < length env"
  shows "\<exists>sh'. pipe_write False env buf sh = Some (Inr (length buf), sh')"
proof (cases "buf = [] \<or> 0 < available_write (buffer sh)")
  case True
  then show ?thesis
    using pipe_write_loop_completes [OF assms(3,1), of 0 buf] assms
    by (auto simp: pipe_write_def writable_def)
next
  case False
  with assms(4) obtain f env' where env: "env = f # env'" by (cases env) auto
  have "ring_contents (buffer sh) \<noteq> []"
    using False available_sum [OF assms(1)] by (metis False add_0_right length_ring_contents
        list.size(3) not_gr0 zero_neq_numeral RING_BUFFER_SIZE_def)
  then have f: "ring_inv (buffer (f sh))" "0 < available_write (buffer (f sh))"
    using drainsD [of f sh] assms(1,3) env by auto
  then have "\<exists>sh'. pipe_write_loop env' buf 0 (f sh) = Some (Inr (length buf), sh')"
    using pipe_write_loop_completes [OF _ f, of env' 0 buf] assms(3,4) env by auto
  then show ?thesis
    using False assms(2) env pipe_write_iter_full [of sh buf 0]
    by (auto simp: pipe_write_def writable_def)
qed

theorem pipe_write_completes_witness:
  "\<exists>sh'. pipe_write False (replicate 3 (reader_turn 16)) [1, 2] (snd (snd pipe_new)) =
     Some (Inr 2, sh')"
  using pipe_write_completes [of "snd (snd pipe_new)" "replicate 3 (reader_turn 16)" "[1, 2]"]
    reader_turn_drains [of 16]
  by (simp add: pipe_new_def closed_def numeral_2_eq_2)

text \<open>A write that fits the free space exactly does not return by itself: the last byte is
  copied by the last iteration of the inner loop, the call goes round again, finds the buffer full
  and waits, so without a reader it stays inside \<open>write\<close> for ever although every byte has been
  delivered.\<close>

theorem pipe_write_exact_fill_waits:
  assumes "ring_inv (buffer sh)" "\<not> closed sh" "buf \<noteq> []" "length buf = available_write (buffer sh)"
  shows "pipe_write False (replicate k id) buf sh = None \<and>
    (\<exists>rb. pipe_write_iter buf 0 sh = Inr (False, length buf, sh\<lparr>buffer := rb\<rparr>) \<and>
          ring_contents rb = ring_contents (buffer sh) @ buf)"
proof (rule conjI)
  have room: "0 < available_write (buffer sh)" using assms(3,4) by (metis length_greater_0_conv)
  obtain rb where rb: "pipe_write_iter buf 0 sh = Inr (False, length buf, sh\<lparr>buffer := rb\<rparr>)"
    "ring_inv rb" "ring_contents rb = ring_contents (buffer sh) @ buf"
    using pipe_write_iter_room [OF assms(1) room, of 0 buf] assms(4) by auto
  then show "\<exists>rb. pipe_write_iter buf 0 sh = Inr (False, length buf, sh\<lparr>buffer := rb\<rparr>) \<and>
              ring_contents rb = ring_contents (buffer sh) @ buf" by blast
  have "available_read rb = RING_BUFFER_SIZE"
    using rb(3) assms(4) available_sum [OF assms(1)] by (metis length_append length_ring_contents)
  then have full: "available_write rb = 0" using available_sum [OF rb(2)] by simp
  have stuck: "pipe_write_loop (replicate k id) buf (length buf) (sh\<lparr>buffer := rb\<rparr>) = None" for k
    using full assms(2)
    by (induction k) (simp_all add: pipe_write_iter_full closed_def)
  show "pipe_write False (replicate k id) buf sh = None"
    using rb(1) assms(2,3) stuck by (cases k) (auto simp: pipe_write_def writable_def)
qed

theorem pipe_write_exact_fill_waits_witness:
  "pipe_write False (replicate 100 id) (replicate 256 1) (snd (snd pipe_new)) = None"
  by (rule pipe_write_exact_fill_waits [THEN conjunct1])
     (simp_all add: pipe_new_def closed_def)

text \<open>Bytes that fit with room to spare are written by one call without waiting, and one call of \<open>read\<close>
  then returns the oldest bytes of what the pipe held followed by those bytes.\<close>

lemma pipe_write_then_read:
  assumes "ring_inv (buffer sh)" "\<not> closed sh" "bs \<noteq> []" "length bs < available_write (buffer sh)" "0 < n"
  defines "q \<equiv> ring_contents (buffer sh) @ bs"
  shows "\<exists>sh1 sh2. pipe_write False env bs sh = Some (Inr (length bs), sh1) \<and>
    pipe_read True env' n sh1 = Some (Inr (take n q), sh2) \<and> ring_contents (buffer sh2) = drop n q"
proof -
  obtain rb where rb: "pipe_write_iter bs 0 sh = Inr (True, length bs, sh\<lparr>buffer := rb\<rparr>)"
    "ring_inv rb" "ring_contents rb = q"
    using pipe_write_iter_room [OF assms(1), of 0 bs] assms(4) unfolding q_def by auto
  have ne: "ring_contents rb \<noteq> []" using rb(3) assms(3) by (simp add: q_def)
  obtain rb2 where rb2: "pipe_read_iter n (sh\<lparr>buffer := rb\<rparr>) = Inr (Some (take n q), sh\<lparr>buffer := rb2\<rparr>)"
    "ring_contents rb2 = drop n q"
    using pipe_read_iter_data [of "sh\<lparr>buffer := rb\<rparr>" n] assms(5) ne rb(2,3) by auto
  have "pipe_write False env bs sh = Some (Inr (length bs), sh\<lparr>buffer := rb\<rparr>)"
    using rb(1) assms(2,3) by (cases env) (simp_all add: pipe_write_def writable_def)
  moreover have "pipe_read True env' n (sh\<lparr>buffer := rb\<rparr>) = Some (Inr (take n q), sh\<lparr>buffer := rb2\<rparr>)"
    using rb2(1) assms(5) by (cases env') (simp_all add: pipe_read_def)
  ultimately show ?thesis using rb2(2) by auto
qed

end
