(* ===== verification/File_Like.thy ===== *)
theory File_Like
  imports Fd_Table Pipe
begin

text \<open>
  The objects a file descriptor can refer to (\<open>api/src/file\<close>): regular files, directories, pipe ends,
  sockets, the console and epoll instances, with the methods of the trait \<open>FileLike\<close> and the
  downcasts \<open>from_fd\<close>. Descriptors hold references into a heap of such objects, so that two
  descriptors can share one. The handles of files, directories and sockets belong to the crates
  axfs and axnet: their types are parameters, and so are the operations on them.
\<close>

section \<open>File status\<close>

record kstat =
  ino :: u64
  nlink :: u32
  uid :: u32
  gid :: u32
  mode :: u32
  size_of :: u64
  blocks :: u64
  blksize :: u32

definition kstat_default :: kstat where
  "kstat_default = \<lparr>ino = 1, nlink = 1, uid = 1, gid = 1, mode = 0, size_of = 0, blocks = 0,
     blksize = 4096\<rparr>"

definition kstat_new :: "u32 \<Rightarrow> u64 \<Rightarrow> u64 \<Rightarrow> u32 \<Rightarrow> u32 \<Rightarrow> kstat" where
  "kstat_new md sz blks bs nl =
     kstat_default\<lparr>mode := md, size_of := sz, blocks := blks, blksize := bs, nlink := nl\<rparr>"

text \<open>The user-visible structures; the casts \<open>as _\<close> go to the field types of the 64-bit ABI. Fields
  the conversion leaves zero are omitted.\<close>

record stat =
  st_ino :: u64
  st_nlink :: u64
  st_mode :: u32
  st_uid :: u32
  st_gid :: u32
  st_size :: u64
  st_blksize :: u64
  st_blocks :: u64

definition stat_of_kstat :: "kstat \<Rightarrow> stat" where
  "stat_of_kstat v =
     \<lparr>st_ino = ino v, st_nlink = ucast (nlink v), st_mode = mode v, st_uid = uid v, st_gid = gid v,
      st_size = size_of v, st_blksize = ucast (blksize v), st_blocks = blocks v\<rparr>"

record statx =
  stx_blksize :: u32
  stx_attributes :: u64
  stx_nlink :: u32
  stx_uid :: u32
  stx_gid :: u32
  stx_mode :: u16
  stx_ino :: u64
  stx_size :: u64
  stx_blocks :: u64

definition statx_of_kstat :: "kstat \<Rightarrow> statx" where
  "statx_of_kstat v =
     \<lparr>stx_blksize = blksize v, stx_attributes = ucast (mode v), stx_nlink = nlink v, stx_uid = uid v,
      stx_gid = gid v, stx_mode = ucast (mode v), stx_ino = ino v, stx_size = size_of v,
      stx_blocks = blocks v\<rparr>"

section \<open>File objects\<close>


datatype file_kind = KUnknown | KFifo | KChr | KDir | KBlk | KReg | KLnk | KSocket

text \<open>What the sources ask an \<open>axfs\<close> file type, in the order they ask it.\<close>

record ax_file_type =
  ft_dir :: bool
  ft_file :: bool
  ft_symlink :: bool
  ft_block_device :: bool
  ft_char_device :: bool
  ft_fifo :: bool
  ft_socket :: bool

definition file_type_from :: "ax_file_type \<Rightarrow> file_kind" where
  "file_type_from ft =
     (if ft_dir ft then KDir else if ft_file ft then KReg else if ft_symlink ft then KLnk
      else if ft_block_device ft then KBlk else if ft_char_device ft then KChr
      else if ft_fifo ft then KFifo else if ft_socket ft then KSocket else KUnknown)"

record dir_entry =
  entry_type :: ax_file_type
  entry_name :: "u8 list"

record epoll_event =
  events :: u32
  data :: u64

datatype ('f, 'd, 's) file_obj =
    FFile 'f string
  | FDirectory 'd string "dir_entry option"
  | FPipe bool arc
  | FSocket 's
  | FStdin
  | FStdout
  | FEpoll "(nat \<times> epoll_event) list"

text \<open>What the sources use of a file's attributes, and the operations of the external handles.\<close>

record file_attr =
  fa_type :: u8
  fa_perm :: u32
  fa_size :: u64
  fa_blocks :: u64

record ('f, 's) handle_ops =
  get_attr :: "'f \<Rightarrow> ax_error + file_attr"
  sock_poll :: "'s \<Rightarrow> ax_error + poll_state"

type_synonym ('f, 'd, 's) heap = "arc \<rightharpoonup> ('f, 'd, 's) file_obj"

text \<open>The kernel's file layer: the objects and the pipe buffers they share.\<close>

record ('f, 'd, 's) files =
  objs :: "('f, 'd, 's) heap"
  pipe_bufs :: "arc \<rightharpoonup> pipe_shared"

text \<open>\<open>S_IFIFO\<close>, \<open>S_IFCHR\<close>, \<open>S_IFDIR\<close> and \<open>S_IFSOCK\<close> of the Linux ABI; the permission
  bits are octal 600, 444, 220, 755 and 777 in the sources. One definition per implementor of the trait, and
  the choice among them.\<close>

definition fs_file_stat :: "('f, 's) handle_ops \<Rightarrow> 'f \<Rightarrow> kstat res" where
  [simp]: "fs_file_stat H f = rbind (from_ax (get_attr H f)) (\<lambda>metadata.
     Inr (kstat_default\<lparr>mode := push_bit 12 (ucast (fa_type metadata)) OR fa_perm metadata,
            size_of := fa_size metadata, blocks := fa_blocks metadata, blksize := 512\<rparr>))"

definition directory_stat :: "kstat res" where
  [simp]: "directory_stat = Inr (kstat_default\<lparr>mode := 0x4000 OR 0x1ED\<rparr>)"

definition pipe_stat :: "kstat res" where
  [simp]: "pipe_stat = Inr (kstat_default\<lparr>mode := 0x1000 OR 0x180\<rparr>)"

definition socket_stat :: "kstat res" where
  [simp]: "socket_stat = Inr (kstat_default\<lparr>mode := 0xC000 OR 0x1FF, blksize := 4096\<rparr>)"

definition stdin_stat :: "kstat res" where
  [simp]: "stdin_stat = Inr (kstat_default\<lparr>mode := 0x2000 OR 0x124\<rparr>)"

definition stdout_stat :: "kstat res" where
  [simp]: "stdout_stat = Inr (kstat_default\<lparr>mode := 0x2000 OR 0x90\<rparr>)"

definition epoll_stat :: "kstat res" where
  [simp]: "epoll_stat = Inr kstat_default"

definition file_stat :: "('f, 's) handle_ops \<Rightarrow> ('f, 'd, 's) file_obj \<Rightarrow> kstat res" where
  "file_stat H obj =
     (case obj of
        FFile f path \<Rightarrow> fs_file_stat H f
      | FDirectory d path ent \<Rightarrow> directory_stat
      | FPipe r b \<Rightarrow> pipe_stat
      | FSocket s \<Rightarrow> socket_stat
      | FStdin \<Rightarrow> stdin_stat
      | FStdout \<Rightarrow> stdout_stat
      | FEpoll evs \<Rightarrow> epoll_stat)"

definition fs_file_poll :: "poll_state res" where
  [simp]: "fs_file_poll = Inr \<lparr>ps_readable = True, ps_writable = True\<rparr>"

definition directory_poll :: "poll_state res" where
  [simp]: "directory_poll = Inr \<lparr>ps_readable = True, ps_writable = False\<rparr>"

definition socket_file_poll :: "('f, 's) handle_ops \<Rightarrow> 's \<Rightarrow> poll_state res" where
  [simp]: "socket_file_poll H s = from_ax (sock_poll H s)"

definition stdin_poll :: "poll_state res" where
  [simp]: "stdin_poll = Inr \<lparr>ps_readable = True, ps_writable = True\<rparr>"

definition stdout_poll :: "poll_state res" where
  [simp]: "stdout_poll = Inr \<lparr>ps_readable = True, ps_writable = True\<rparr>"

definition epoll_poll :: "(nat \<times> epoll_event) list \<Rightarrow> poll_state res" where
  [simp]: "epoll_poll evs = Inr \<lparr>ps_readable = evs \<noteq> [], ps_writable = False\<rparr>"

definition file_poll ::
  "('f, 's) handle_ops \<Rightarrow> ('f, 'd, 's) files \<Rightarrow> ('f, 'd, 's) file_obj \<Rightarrow> poll_state res" where
  "file_poll H fs obj =
     (case obj of
        FFile f path \<Rightarrow> fs_file_poll
      | FDirectory d path ent \<Rightarrow> directory_poll
      | FPipe r b \<Rightarrow> (case pipe_bufs fs b of
          None \<Rightarrow> Inl Panic
        | Some sh \<Rightarrow> Inr (pipe_poll r sh))
      | FSocket s \<Rightarrow> socket_file_poll H s
      | FStdin \<Rightarrow> stdin_poll
      | FStdout \<Rightarrow> stdout_poll
      | FEpoll evs \<Rightarrow> epoll_poll evs)"

section \<open>Objects behind descriptors\<close>

text \<open>A descriptor's object; a reference in the table always has an object on the heap, so a missing
  one is marked as a panic.\<close>

definition obj_of_fd :: "('t, arc) flatten_ops \<Rightarrow> ('f, 'd, 's) heap \<Rightarrow> 't \<Rightarrow> i32 \<Rightarrow> (arc \<times> ('f, 'd, 's) file_obj) res" where
  "obj_of_fd F h t fd =
     rbind (get_file_like F t fd) (\<lambda>a. case h a of None \<Rightarrow> Inl Panic | Some obj \<Rightarrow> Inr (a, obj))"

definition file_from_fd :: "('t, arc) flatten_ops \<Rightarrow> ('f, 'd, 's) heap \<Rightarrow> 't \<Rightarrow> i32 \<Rightarrow> (arc \<times> 'f \<times> string) res" where
  "file_from_fd F h t fd =
     rbind (obj_of_fd F h t fd) (\<lambda>(a, obj). case obj of FFile f path \<Rightarrow> Inr (a, f, path)
       | _ \<Rightarrow> Inl (Errno EINVAL))"

definition directory_from_fd ::
  "('t, arc) flatten_ops \<Rightarrow> ('f, 'd, 's) heap \<Rightarrow> 't \<Rightarrow> i32 \<Rightarrow> (arc \<times> 'd \<times> string \<times> dir_entry option) res" where
  "directory_from_fd F h t fd =
     rbind (obj_of_fd F h t fd) (\<lambda>(a, obj). case obj of FDirectory d path ent \<Rightarrow> Inr (a, d, path, ent)
       | _ \<Rightarrow> Inl (Errno ENOTDIR))"

definition pipe_from_fd :: "('t, arc) flatten_ops \<Rightarrow> ('f, 'd, 's) heap \<Rightarrow> 't \<Rightarrow> i32 \<Rightarrow> (bool \<times> arc) res" where
  "pipe_from_fd F h t fd =
     rbind (obj_of_fd F h t fd) (\<lambda>(a, obj). case obj of FPipe r b \<Rightarrow> Inr (r, b)
       | _ \<Rightarrow> Inl (Errno EINVAL))"

definition epoll_from_fd ::
  "('t, arc) flatten_ops \<Rightarrow> ('f, 'd, 's) heap \<Rightarrow> 't \<Rightarrow> i32 \<Rightarrow> (arc \<times> (nat \<times> epoll_event) list) res" where
  "epoll_from_fd F h t fd =
     rbind (obj_of_fd F h t fd) (\<lambda>(a, obj). case obj of FEpoll evs \<Rightarrow> Inr (a, evs)
       | _ \<Rightarrow> Inl (Errno EINVAL))"

text \<open>\<open>get_file_like(fd).and_then(|f| f.poll())\<close>, the readiness query of epoll, poll and select.\<close>

definition poll_fd ::
  "('t, arc) flatten_ops \<Rightarrow> ('f, 's) handle_ops \<Rightarrow> ('f, 'd, 's) files \<Rightarrow> 't \<Rightarrow> i32 \<Rightarrow> poll_state res" where
  "poll_fd F H fs t fd =
     rbind (obj_of_fd F (objs fs) t fd) (\<lambda>(a, obj). file_poll H fs obj)"

section \<open>Default methods of the trait\<close>

text \<open>\<open>read_at\<close> and \<open>write_at\<close> are overridden by regular files only, \<open>truncate\<close> and \<open>fsync\<close> too;
  the operation on a file's handle is passed in.\<close>

definition file_read_at :: "('f \<Rightarrow> 'a res) \<Rightarrow> ('f, 'd, 's) file_obj \<Rightarrow> 'a res" where
  "file_read_at op obj = (case obj of FFile f path \<Rightarrow> op f | _ \<Rightarrow> Inl (Errno ESPIPE))"

definition file_truncate :: "('f \<Rightarrow> 'a res) \<Rightarrow> ('f, 'd, 's) file_obj \<Rightarrow> 'a res" where
  "file_truncate op obj = (case obj of FFile f path \<Rightarrow> op f | _ \<Rightarrow> Inl (Errno EINVAL))"

section \<open>Creating a pipe\<close>

text \<open>\<open>sys_pipe2\<close>: both ends share one buffer; when the second descriptor cannot be had, the first
  one is closed again. Allocation of the objects is at the addresses \<open>a\<close>, \<open>b\<close>, \<open>c\<close>, which must be
  fresh. \<open>user\<close> is the outcome of the check of the user's pointer.\<close>

definition sys_pipe2 ::
  "('t, arc) flatten_ops \<Rightarrow> arc \<times> arc \<times> arc \<Rightarrow> unit res \<Rightarrow> ('f, 'd, 's) files \<times> 't \<Rightarrow>
   (i32 \<times> i32) res \<times> (('f, 'd, 's) files \<times> 't)" where
  "sys_pipe2 F fresh user s =
     (case s of (fs, t) \<Rightarrow> case fresh of (a, b, c) \<Rightarrow>
      (case user of
         Inl e \<Rightarrow> (Inl e, (fs, t))
       | Inr _ \<Rightarrow>
         (case pipe_new of (r_end, w_end, sh) \<Rightarrow>
          let fs1 = fs\<lparr>objs := (objs fs)(a \<mapsto> FPipe r_end c, b \<mapsto> FPipe w_end c),
                       pipe_bufs := (pipe_bufs fs)(c \<mapsto> sh)\<rparr> in
          (case add_file_like F t a of
             (Inl e, t1) \<Rightarrow> (Inl e, (fs, t1))
           | (Inr read_fd, t1) \<Rightarrow>
             (case add_file_like F t1 b of
                (Inl e, t2) \<Rightarrow> (case close_file_like F t2 read_fd of
                    (Inl _, t3) \<Rightarrow> (Inl Panic, (fs, t3))
                  | (Inr _, t3) \<Rightarrow> (Inl e, (fs, t3)))
              | (Inr write_fd, t2) \<Rightarrow> (Inr (read_fd, write_fd), (fs1, t2)))))))"

lemma close_file_like_spec:
  assumes "flatten_spec F okt" "okt t" "fo_get F t (fd_index fd) = Some f"
  shows "\<exists>t'. close_file_like F t fd = (Inr (), t') \<and> okt t' \<and>
    fo_get F t' = (fo_get F t)(fd_index fd := None)"
  using flatten_remove [OF assms(1,2), of "fd_index fd"] assms(3)
  by (cases "fo_remove F t (fd_index fd)") (auto simp: close_file_like_def)

text \<open>The outcome of \<open>pipe2\<close> in terms of the table and the heap.\<close>

lemma sys_pipe2_outcome:
  assumes "flatten_spec F okt" "okt t" "a \<noteq> b"
  shows "case sys_pipe2 F (a, b, c) user (fs, t) of
      (Inl e, (fs', t')) \<Rightarrow> fs' = fs \<and> okt t' \<and> fo_get F t' = fo_get F t \<and> (e = Errno EMFILE \<or> user = Inl e)
    | (Inr (rfd, wfd), (fs', t')) \<Rightarrow> okt t' \<and> fd_index rfd \<noteq> fd_index wfd \<and>
        fo_get F t (fd_index rfd) = None \<and> fo_get F t (fd_index wfd) = None \<and>
        fo_get F t' = (fo_get F t)(fd_index rfd \<mapsto> a, fd_index wfd \<mapsto> b) \<and>
        fs' = fs\<lparr>objs := (objs fs)(a \<mapsto> FPipe True c, b \<mapsto> FPipe False c),
                 pipe_bufs := (pipe_bufs fs)(c \<mapsto> \<lparr>buffer = ring_new, strong_count = 2\<rparr>)\<rparr>"
proof (cases user)
  case (Inl e)
  then show ?thesis using assms(2) by (simp add: sys_pipe2_def)
next
  case (Inr u)
  obtain r1 t1 where add1: "add_file_like F t a = (r1, t1)" by fastforce
  show ?thesis
  proof (cases r1)
    case (Inl e)
    with add1 have "e = Errno EMFILE" "t1 = t"
      by (auto simp: add_file_like_def split: option.splits)
    with Inl Inr add1 assms(2) show ?thesis by (simp add: sys_pipe2_def pipe_new_def Let_def)
  next
    case r1: (Inr rfd)
    note a1 = add_file_like_spec [OF assms(1,2) add1 [unfolded r1]]
    obtain r2 t2 where add2: "add_file_like F t1 b = (r2, t2)" by fastforce
    show ?thesis
    proof (cases r2)
      case (Inl e)
      with add2 have e: "e = Errno EMFILE" "t2 = t1"
        by (auto simp: add_file_like_def split: option.splits)
      from close_file_like_spec [OF assms(1) a1(1), of rfd a] a1(4) obtain t3 where
        t3: "close_file_like F t1 rfd = (Inr (), t3)" "okt t3" "fo_get F t3 = fo_get F t"
        using a1(3) by (auto simp: fun_upd_idem)
      with e Inl Inr r1 add1 add2 show ?thesis by (simp add: sys_pipe2_def pipe_new_def Let_def)
    next
      case r2: (Inr wfd)
      note a2 = add_file_like_spec [OF assms(1) a1(1) add2 [unfolded r2]]
      from a1(4) a2(3) have ne: "fd_index wfd \<noteq> fd_index rfd" by auto
      with a1 a2 assms(3) Inr r1 r2 add1 add2 show ?thesis
        by (auto simp: sys_pipe2_def pipe_new_def Let_def)
    qed
  qed
qed

text \<open>\<open>pipe2\<close> either installs two distinct new descriptors, a read end and a write end of one
  empty buffer held by exactly these two ends, and leaves every other descriptor alone; or it fails
  with \<open>EMFILE\<close> (or with the error of the user pointer) and the descriptor table is as before, so a
  failure in the middle leaks no descriptor.\<close>

theorem sys_pipe2_spec:
  assumes "flatten_spec F okt" "okt t" "a \<noteq> b"
  shows "case sys_pipe2 F (a, b, c) user (fs, t) of
      (Inl e, (fs', t')) \<Rightarrow> fs' = fs \<and> fo_get F t' = fo_get F t \<and> (e = Errno EMFILE \<or> user = Inl e)
    | (Inr (rfd, wfd), (fs', t')) \<Rightarrow> fd_index rfd \<noteq> fd_index wfd \<and>
        pipe_from_fd F (objs fs') t' rfd = Inr (True, c) \<and>
        pipe_from_fd F (objs fs') t' wfd = Inr (False, c) \<and>
        pipe_bufs fs' c = Some \<lparr>buffer = ring_new, strong_count = 2\<rparr> \<and>
        fo_get F t (fd_index rfd) = None \<and> fo_get F t (fd_index wfd) = None \<and>
        (\<forall>i. i \<noteq> fd_index rfd \<longrightarrow> i \<noteq> fd_index wfd \<longrightarrow> fo_get F t' i = fo_get F t i)"
  using sys_pipe2_outcome [OF assms, where c = c and user = user and fs = fs] assms(3)
  by (auto simp: pipe_from_fd_def obj_of_fd_def get_file_like_def split: prod.splits sum.splits)

theorem sys_pipe2_spec_witness:
  "\<exists>fs' t'. sys_pipe2 map_objects (0, 1, 2) (Inr ())
       (\<lparr>objs = Map.empty :: (unit, unit, unit) heap, pipe_bufs = Map.empty\<rparr>, Map.empty) =
     (Inr (0, 1), (fs', t')) \<and> pipe_from_fd map_objects (objs fs') t' 1 = Inr (False, 2)"
proof -
  let ?fs = "\<lparr>objs = Map.empty :: (unit, unit, unit) heap, pipe_bufs = Map.empty\<rparr>"
  have ok: "map_objects_wf (Map.empty :: nat \<rightharpoonup> arc)" by (simp add: map_objects_wf_def)
  have run: "\<exists>fs' t'. sys_pipe2 map_objects (0, 1, 2) (Inr ()) (?fs, Map.empty) = (Inr (0, 1), (fs', t'))"
    by (simp add: sys_pipe2_def pipe_new_def Let_def add_file_like_def map_objects_add_fresh)
  then show ?thesis
    using sys_pipe2_spec [OF map_objects_spec, OF ok, where a = 0 and b = 1 and c = 2 and user = "Inr ()" and fs = ?fs]
    by auto
qed

end
