(* ===== verification/Time_Stat.thy ===== *)
theory Time_Stat
  imports Kernel_Prelude
begin

text \<open>
  CPU time accounting (\<open>core/src/time.rs\<close> and the \<open>time_stat\<close> functions of \<open>core/src/task.rs\<close>), the
  conversions between C time structures and durations (\<open>api/src/time.rs\<close>), and the time system
  calls (\<open>api/src/imp/time.rs\<close>, \<open>sys_nanosleep\<close> of \<open>api/src/imp/task/schedule.rs\<close>). The clocks are
  arguments. Subtractions of time stamps wrap as they do in a build without overflow checks.
\<close>

section \<open>Accounting\<close>

datatype timer_type = NONE | REAL | VIRTUAL | PROF

definition timer_type_from :: "usize \<Rightarrow> timer_type" where
  "timer_type_from num =
     (let n = sint (ucast num :: i32) in
      if n = - 1 then NONE else if n = 0 then REAL else if n = 1 then VIRTUAL
      else if n = 2 then PROF else NONE)"

record time_stat =
  utime_ns :: usize
  stime_ns :: usize
  user_timestamp :: usize
  kernel_timestamp :: usize
  timer_ty :: timer_type
  timer_interval_ns :: usize
  timer_remained_ns :: usize

definition time_stat_new :: time_stat where
  "time_stat_new =
     \<lparr>utime_ns = 0, stime_ns = 0, user_timestamp = 0, kernel_timestamp = 0, timer_ty = NONE,
      timer_interval_ns = 0, timer_remained_ns = 0\<rparr>"

definition ts_output :: "time_stat \<Rightarrow> usize \<times> usize" where
  "ts_output s = (utime_ns s, stime_ns s)"

definition ts_reset :: "usize \<Rightarrow> time_stat \<Rightarrow> time_stat" where
  "ts_reset t s = s\<lparr>utime_ns := 0, stime_ns := 0, user_timestamp := 0, kernel_timestamp := t\<rparr>"

definition update_timer :: "usize \<Rightarrow> time_stat \<Rightarrow> time_stat" where
  "update_timer delta s =
     (if timer_remained_ns s = 0 then s
      else if timer_remained_ns s > delta then s\<lparr>timer_remained_ns := timer_remained_ns s - delta\<rparr>
      else s)"

definition switch_into_kernel_mode :: "usize \<Rightarrow> time_stat \<Rightarrow> time_stat" where
  "switch_into_kernel_mode now s =
     (let delta = now - kernel_timestamp s;
          s = s\<lparr>utime_ns := utime_ns s + delta, kernel_timestamp := now\<rparr>
      in if timer_ty s \<noteq> NONE then update_timer delta s else s)"

definition switch_into_user_mode :: "usize \<Rightarrow> time_stat \<Rightarrow> time_stat" where
  "switch_into_user_mode now s =
     (let delta = now - kernel_timestamp s;
          s = s\<lparr>stime_ns := stime_ns s + delta, user_timestamp := now\<rparr>
      in if timer_ty s = REAL \<or> timer_ty s = PROF then update_timer delta s else s)"

definition switch_from_old_task :: "usize \<Rightarrow> time_stat \<Rightarrow> time_stat" where
  "switch_from_old_task now s =
     (let delta = now - kernel_timestamp s;
          s = s\<lparr>stime_ns := stime_ns s + delta, kernel_timestamp := now\<rparr>
      in if timer_ty s = REAL \<or> timer_ty s = PROF then update_timer delta s else s)"

definition switch_to_new_task :: "usize \<Rightarrow> time_stat \<Rightarrow> time_stat" where
  "switch_to_new_task now s =
     (let delta = now - kernel_timestamp s;
          s = s\<lparr>kernel_timestamp := now\<rparr>
      in if timer_ty s = REAL then update_timer delta s else s)"

definition set_timer :: "usize \<Rightarrow> usize \<Rightarrow> usize \<Rightarrow> time_stat \<Rightarrow> bool \<times> time_stat" where
  "set_timer interval remained ty s =
     (let s = s\<lparr>timer_ty := timer_type_from ty, timer_interval_ns := interval, timer_remained_ns := remained\<rparr>
      in (timer_ty s \<noteq> NONE, s))"

text \<open>\<open>NANOS_PER_SEC\<close> and \<open>NANOS_PER_MICROS\<close> are \<open>10 ^ 9\<close> and \<open>1000\<close>.\<close>

definition time_stat_output :: "time_stat \<Rightarrow> usize \<times> usize \<times> usize \<times> usize" where
  "time_stat_output s =
     (let (u, k) = ts_output s
      in (u div 1000000000, u div 1000, k div 1000000000, k div 1000))"

section \<open>Durations\<close>

text \<open>\<open>TimeValue\<close> is \<open>core::time::Duration\<close>: seconds and fewer than \<open>10 ^ 9\<close> nanoseconds.
  \<open>Duration::new\<close> carries excess nanoseconds and panics when the seconds overflow.\<close>

record time_value =
  as_secs :: u64
  subsec_nanos :: u32

definition tv_ok :: "time_value \<Rightarrow> bool" where
  "tv_ok d \<longleftrightarrow> unat (subsec_nanos d) < 10 ^ 9"

definition tv_ns :: "time_value \<Rightarrow> nat" where
  "tv_ns d = unat (as_secs d) * 10 ^ 9 + unat (subsec_nanos d)"

definition tv_of_ns :: "nat \<Rightarrow> time_value" where
  "tv_of_ns n = \<lparr>as_secs = word_of_nat (n div 10 ^ 9), subsec_nanos = word_of_nat (n mod 10 ^ 9)\<rparr>"

definition duration_new :: "u64 \<Rightarrow> u32 \<Rightarrow> time_value res" where
  "duration_new secs nanos =
     (if unat nanos < 10 ^ 9 then Inr \<lparr>as_secs = secs, subsec_nanos = nanos\<rparr>
      else if unat secs + unat nanos div 10 ^ 9 < 2 ^ 64
      then Inr \<lparr>as_secs = secs + word_of_nat (unat nanos div 10 ^ 9),
                subsec_nanos = word_of_nat (unat nanos mod 10 ^ 9)\<rparr>
      else Inl Panic)"

definition checked_sub :: "time_value \<Rightarrow> time_value \<Rightarrow> time_value option" where
  "checked_sub a b = (if tv_ns b \<le> tv_ns a then Some (tv_of_ns (tv_ns a - tv_ns b)) else None)"

definition subsec_micros :: "time_value \<Rightarrow> u32" where
  "subsec_micros d = subsec_nanos d div 1000"

section \<open>Conversions\<close>

text \<open>The three C structures with nanoseconds have the same code, and so have the three with
  microseconds.\<close>

record timespec =
  ts_sec :: i64
  ts_nsec :: i64

record timeval =
  tv_sec :: i64
  tv_usec :: i64

definition timespec_from_time_value :: "time_value \<Rightarrow> timespec" where
  "timespec_from_time_value d = \<lparr>ts_sec = as_secs d, ts_nsec = ucast (subsec_nanos d)\<rparr>"

definition timespec_to_time_value :: "timespec \<Rightarrow> time_value res" where
  "timespec_to_time_value t = duration_new (ts_sec t) (ucast (ts_nsec t))"

definition timeval_from_time_value :: "time_value \<Rightarrow> timeval" where
  "timeval_from_time_value d = \<lparr>tv_sec = as_secs d, tv_usec = ucast (subsec_micros d)\<rparr>"

definition timeval_to_time_value :: "timeval \<Rightarrow> time_value res" where
  "timeval_to_time_value t = duration_new (tv_sec t) (ucast (tv_usec t) * 1000)"

section \<open>System calls\<close>

text \<open>\<open>CLOCK_REALTIME\<close> is 0 and \<open>CLOCK_MONOTONIC\<close> is 1. The outcome of accessing the user's structure
  is an argument; the result carries what is stored in it.\<close>

definition sys_clock_gettime ::
  "time_value \<Rightarrow> time_value \<Rightarrow> i32 \<Rightarrow> unit res \<Rightarrow> (isize \<times> timespec) res" where
  "sys_clock_gettime wall monotonic clock_id ts =
     rbind (if clock_id = 0 then Inr wall else if clock_id = 1 then Inr monotonic else Inl (Errno EINVAL))
       (\<lambda>now. rbind ts (\<lambda>_. Inr (0, timespec_from_time_value now)))"

definition sys_gettimeofday :: "time_value \<Rightarrow> unit res \<Rightarrow> (isize \<times> timeval) res" where
  "sys_gettimeofday wall ts = rbind ts (\<lambda>_. Inr (0, timeval_from_time_value wall))"

record tms =
  tms_utime :: usize
  tms_stime :: usize
  tms_cutime :: usize
  tms_cstime :: usize

definition sys_times :: "(u64 \<Rightarrow> u64) \<Rightarrow> u64 \<Rightarrow> time_stat \<Rightarrow> unit res \<Rightarrow> (isize \<times> tms) res" where
  "sys_times nanos_to_ticks mono_ns s buf =
     (let (_, utime_us, _, stime_us) = time_stat_output s in
      rbind buf (\<lambda>_. Inr (nanos_to_ticks mono_ns,
        \<lparr>tms_utime = utime_us, tms_stime = stime_us, tms_cutime = utime_us, tms_cstime = stime_us\<rparr>)))"

text \<open>\<open>sys_nanosleep\<close>: \<open>req\<close> is the structure read from the user, \<open>after\<close> the clock when the sleep
  that started at \<open>now\<close> ends; \<open>rem\<close> is absent for a null pointer and otherwise the outcome of
  accessing it. The result is the call's and what is stored in \<open>rem\<close>.\<close>

definition sys_nanosleep ::
  "timespec res \<Rightarrow> time_value \<Rightarrow> time_value \<Rightarrow> unit res option \<Rightarrow> isize res \<times> timespec option" where
  "sys_nanosleep req now after rem =
     (case rbind req (\<lambda>req.
             if sint (ts_nsec req) < 0 \<or> sint (ts_nsec req) > 999999999 \<or> sint (ts_sec req) < 0
             then Inl (Errno EINVAL)
             else rbind (timespec_to_time_value req) (\<lambda>dur.
               (case checked_sub after now of None \<Rightarrow> Inl Panic | Some actual \<Rightarrow> Inr (dur, actual)))) of
        Inl e \<Rightarrow> (Inl e, None)
      | Inr (dur, actual) \<Rightarrow>
          (case checked_sub dur actual of
             Some diff \<Rightarrow>
               (case rem of
                  None \<Rightarrow> (Inl (Errno EINTR), None)
                | Some (Inl e) \<Rightarrow> (Inl e, None)
                | Some (Inr _) \<Rightarrow> (Inl (Errno EINTR), Some (timespec_from_time_value diff)))
           | None \<Rightarrow> (Inr 0, None)))"

section \<open>What is charged to user and system time\<close>

lemma update_timer_times [simp]:
  "utime_ns (update_timer d s) = utime_ns s" "stime_ns (update_timer d s) = stime_ns s"
  "kernel_timestamp (update_timer d s) = kernel_timestamp s"
  "user_timestamp (update_timer d s) = user_timestamp s"
  by (simp_all add: update_timer_def)

text \<open>A task alternates: it leaves the kernel at \<open>u\<close> and comes back at \<open>k\<close>. The time it spends in
  each mode when it entered the kernel at \<open>k0\<close>.\<close>

fun run_modes :: "(usize \<times> usize) list \<Rightarrow> time_stat \<Rightarrow> time_stat" where
  "run_modes [] s = s"
| "run_modes ((u, k) # rs) s = run_modes rs (switch_into_kernel_mode k (switch_into_user_mode u s))"

fun system_time :: "usize \<Rightarrow> (usize \<times> usize) list \<Rightarrow> usize" where
  "system_time k0 [] = 0"
| "system_time k0 ((u, k) # rs) = (u - k0) + system_time k rs"

fun user_time :: "(usize \<times> usize) list \<Rightarrow> usize" where
  "user_time [] = 0"
| "user_time ((u, k) # rs) = (k - u) + user_time rs"

text \<open>After any number of switches between the modes the system time counter has grown by exactly
  the time the task spent in the kernel, but the user time counter has grown by the user time and
  the system time together: every nanosecond of kernel time is charged twice.\<close>

theorem cpu_time_accounting:
  "stime_ns (run_modes rs s) = stime_ns s + system_time (kernel_timestamp s) rs
   \<and> utime_ns (run_modes rs s) = utime_ns s + user_time rs + system_time (kernel_timestamp s) rs"
proof (induction rs arbitrary: s)
  case (Cons r rs)
  obtain u k where r: "r = (u, k)" by fastforce
  let ?s = "switch_into_kernel_mode k (switch_into_user_mode u s)"
  have "kernel_timestamp ?s = k" "stime_ns ?s = stime_ns s + (u - kernel_timestamp s)"
    "utime_ns ?s = utime_ns s + ((k - u) + (u - kernel_timestamp s))"
    by (simp_all add: switch_into_kernel_mode_def switch_into_user_mode_def Let_def)
  with Cons.IH [of ?s] r show ?case by (simp add: algebra_simps)
qed simp

datatype time_op = IntoKernel usize | IntoUser usize | FromOld usize | ToNew usize

fun time_exec :: "time_op \<Rightarrow> time_stat \<Rightarrow> time_stat" where
  "time_exec (IntoKernel t) s = switch_into_kernel_mode t s"
| "time_exec (IntoUser t) s = switch_into_user_mode t s"
| "time_exec (FromOld t) s = switch_from_old_task t s"
| "time_exec (ToNew t) s = switch_to_new_task t s"

definition tick :: "usize \<Rightarrow> usize \<Rightarrow> usize" where
  "tick d r = (if d < r then r - d else r)"

lemma remained_update_timer [simp]:
  "timer_remained_ns (update_timer d s) = tick d (timer_remained_ns s)"
  by (simp add: update_timer_def tick_def)

lemma tick_bounds:
  assumes "0 < r"
  shows "0 < tick d r" "tick d r \<le> r"
proof -
  have "0 < r - d \<and> r - d \<le> r" if "d < r"
    using that by (simp add: word_less_nat_alt word_le_nat_alt unat_sub)
  then show "0 < tick d r" "tick d r \<le> r" using assms by (auto simp: tick_def)
qed

lemma time_exec_remained:
  assumes "0 < timer_remained_ns s"
  shows "0 < timer_remained_ns (time_exec op s) \<and> timer_remained_ns (time_exec op s) \<le> timer_remained_ns s"
  using tick_bounds [OF assms] assms
  by (cases op) (auto simp: switch_into_kernel_mode_def switch_into_user_mode_def
      switch_from_old_task_def switch_to_new_task_def Let_def)

text \<open>A timer that was armed with a positive time never runs out: whatever switches follow and at
  whatever times, its remaining time only decreases and stays positive, because a step as long as
  the remaining time, or longer, is not subtracted.\<close>

theorem timer_never_expires:
  assumes "0 < remained"
  shows "case set_timer interval remained ty s of (armed, s) \<Rightarrow>
           0 < timer_remained_ns (fold time_exec ops s)
           \<and> timer_remained_ns (fold time_exec ops s) \<le> remained"
proof -
  have "0 < timer_remained_ns (fold time_exec ops s) \<and> timer_remained_ns (fold time_exec ops s) \<le> remained"
    if "0 < timer_remained_ns s" "timer_remained_ns s \<le> remained" for s
    using that
  proof (induction ops arbitrary: s)
    case (Cons op ops)
    with time_exec_remained [OF Cons.prems(1), of op] show ?case by (simp add: order_trans [OF _ Cons.prems(2)])
  qed simp
  with assms show ?thesis by (simp add: set_timer_def Let_def)
qed

theorem timer_never_expires_witness:
  "case set_timer 0 10 0 time_stat_new of (armed, s) \<Rightarrow>
     0 < timer_remained_ns (fold time_exec [IntoUser 4, IntoKernel 400] s)
     \<and> timer_remained_ns (fold time_exec [IntoUser 4, IntoKernel 400] s) \<le> 10"
  by (rule timer_never_expires) simp

section \<open>Conversions and sleeping\<close>

lemma tv_of_ns_inverse: "n < 2 ^ 64 * 10 ^ 9 \<Longrightarrow> tv_ns (tv_of_ns n) = n"
proof -
  assume "n < 2 ^ 64 * 10 ^ 9"
  then have "n div 10 ^ 9 < 2 ^ 64" by (simp add: less_mult_imp_div_less)
  moreover have "n mod 10 ^ 9 < 2 ^ 32"
    using mod_less_divisor [of "10 ^ 9" n] by (simp add: less_trans)
  ultimately show ?thesis by (simp add: tv_ns_def tv_of_ns_def unat_of_nat)
qed

definition timespec_ok :: "timespec \<Rightarrow> bool" where
  "timespec_ok t \<longleftrightarrow> 0 \<le> sint (ts_sec t) \<and> 0 \<le> sint (ts_nsec t) \<and> sint (ts_nsec t) \<le> 999999999"

definition ts_ns :: "timespec \<Rightarrow> nat" where
  "ts_ns t = nat (sint (ts_sec t)) * 10 ^ 9 + nat (sint (ts_nsec t))"

lemma timespec_to_time_value_ok:
  assumes "timespec_ok t"
  shows "\<exists>d. timespec_to_time_value t = Inr d \<and> tv_ns d = ts_ns t \<and> tv_ok d
           \<and> timespec_from_time_value d = t"
proof -
  have n: "unat (ts_nsec t) = nat (sint (ts_nsec t))" "unat (ts_sec t) = nat (sint (ts_sec t))"
    using assms by (simp_all add: timespec_ok_def unat_sint_nonneg)
  have lt: "unat (ts_nsec t) < 10 ^ 9" using assms unfolding n timespec_ok_def by auto
  have c: "unat (ucast (ts_nsec t) :: u32) = unat (ts_nsec t)" by (rule unat_ucast_less) (use lt in simp)
  have b: "ucast (ucast (ts_nsec t) :: u32) = ts_nsec t"
    by (rule word_unat_eq_iff [THEN iffD2]) (use c in \<open>simp add: unat_ucast_up\<close>)
  show ?thesis
    using lt c b n
    by (cases t) (simp add: timespec_to_time_value_def duration_new_def tv_ns_def ts_ns_def tv_ok_def
        timespec_from_time_value_def)
qed

lemma timeval_to_time_value_ok:
  assumes "0 \<le> sint (tv_usec t)" "sint (tv_usec t) \<le> 999999"
  shows "\<exists>d. timeval_to_time_value t = Inr d \<and> tv_ok d \<and> timeval_from_time_value d = t"
proof -
  have n: "unat (tv_usec t) \<le> 999999" using assms by (simp add: unat_sint_nonneg)
  have c: "unat (ucast (tv_usec t) :: u32) = unat (tv_usec t)" by (rule unat_ucast_less) (use n in simp)
  have m: "unat (ucast (tv_usec t) * 1000 :: u32) = unat (tv_usec t) * 1000"
    using n c by (simp add: unat_word_ariths)
  have "unat ((ucast (tv_usec t) * 1000 :: u32) div 1000) = unat (tv_usec t)" using m by (simp add: unat_div)
  then have "ucast ((ucast (tv_usec t) * 1000 :: u32) div 1000) = tv_usec t"
    by (intro word_unat_eq_iff [THEN iffD2]) (simp add: unat_ucast_up)
  then show ?thesis
    using m n
    by (cases t) (simp add: timeval_to_time_value_def duration_new_def tv_ok_def timeval_from_time_value_def
        subsec_micros_def)
qed

text \<open>Converting a nonnegative \<open>timespec\<close> or \<open>timeval\<close> with a proper fraction of a second to a
  duration never panics, and converting the duration back gives the same structure.\<close>

theorem time_conversions_roundtrip:
  assumes "timespec_ok t" "0 \<le> sint (tv_usec v)" "sint (tv_usec v) \<le> 999999"
  shows "(\<exists>d. timespec_to_time_value t = Inr d \<and> tv_ns d = ts_ns t \<and> timespec_from_time_value d = t)
       \<and> (\<exists>d. timeval_to_time_value v = Inr d \<and> timeval_from_time_value d = v)"
  using timespec_to_time_value_ok [OF assms(1)] timeval_to_time_value_ok [OF assms(2,3)] by blast

theorem time_conversions_roundtrip_witness:
  "(\<exists>d. timespec_to_time_value \<lparr>ts_sec = 3, ts_nsec = 999999999\<rparr> = Inr d
       \<and> tv_ns d = ts_ns \<lparr>ts_sec = 3, ts_nsec = 999999999\<rparr>
       \<and> timespec_from_time_value d = \<lparr>ts_sec = 3, ts_nsec = 999999999\<rparr>)
   \<and> (\<exists>d. timeval_to_time_value \<lparr>tv_sec = 3, tv_usec = 5\<rparr> = Inr d
       \<and> timeval_from_time_value d = \<lparr>tv_sec = 3, tv_usec = 5\<rparr>)"
  by (rule time_conversions_roundtrip) (simp_all add: timespec_ok_def)

text \<open>\<open>sys_nanosleep\<close> on a valid request and an accessible remainder, when the clock does not go
  back: it returns 0 exactly when the time that passed exceeds the request; otherwise it fails with
  \<open>EINTR\<close> and the remainder it stores is the request less the time that passed, even when that is
  zero. A request outside the valid range is refused with \<open>EINVAL\<close>.\<close>

theorem sys_nanosleep_spec:
  assumes "tv_ns now \<le> tv_ns after" "tv_ok after"
  shows "case sys_nanosleep (Inr t) now after (Some (Inr ())) of (r, rem) \<Rightarrow>
           if \<not> timespec_ok t then r = Inl (Errno EINVAL) \<and> rem = None
           else if ts_ns t < tv_ns after - tv_ns now then r = Inr 0 \<and> rem = None
           else r = Inl (Errno EINTR)
                \<and> rem = Some (timespec_from_time_value (tv_of_ns (ts_ns t - (tv_ns after - tv_ns now))))"
proof (cases "timespec_ok t")
  case False
  then show ?thesis by (auto simp: sys_nanosleep_def timespec_ok_def)
next
  case True
  obtain d where d: "timespec_to_time_value t = Inr d" "tv_ns d = ts_ns t"
    using timespec_to_time_value_ok [OF True] by blast
  have b: "tv_ns after - tv_ns now < 2 ^ 64 * 10 ^ 9"
  proof -
    have "unat (as_secs after) < 2 ^ 64" using unsigned_less [of "as_secs after"] by simp
    then show ?thesis using assms(2) by (simp add: tv_ok_def tv_ns_def)
  qed
  have "tv_ns (tv_of_ns (tv_ns after - tv_ns now)) = tv_ns after - tv_ns now" by (rule tv_of_ns_inverse [OF b])
  then show ?thesis
    using True d assms by (auto simp: sys_nanosleep_def timespec_ok_def checked_sub_def)
qed

theorem sys_nanosleep_spec_witness:
  "sys_nanosleep (Inr \<lparr>ts_sec = 2, ts_nsec = 5\<rparr>) \<lparr>as_secs = 1, subsec_nanos = 0\<rparr>
     \<lparr>as_secs = 3, subsec_nanos = 5\<rparr> (Some (Inr ())) =
   (Inl (Errno EINTR), Some \<lparr>ts_sec = 0, ts_nsec = 0\<rparr>)"
  using sys_nanosleep_spec [of "\<lparr>as_secs = 1, subsec_nanos = 0\<rparr>" "\<lparr>as_secs = 3, subsec_nanos = 5\<rparr>"
      "\<lparr>ts_sec = 2, ts_nsec = 5\<rparr>"]
  by (auto simp: tv_ns_def ts_ns_def tv_ok_def timespec_ok_def tv_of_ns_def timespec_from_time_value_def
      split: prod.splits)

end
