(* ===== verification/Poll.thy ===== *)
theory Poll
  imports File_Like Time_Stat
begin

text \<open>
  The waiting loop of the multiplexing calls (\<open>api/src/imp/fs/io_mpx/mod.rs\<close>) and \<open>poll\<close>, \<open>ppoll\<close>
  (\<open>poll.rs\<close>). While a call waits the rest of the system moves: a run is given the list of its
  rounds, each with what the descriptors answer in that round and the wall clock after it. A result
  of \<open>None\<close> means that the call is still waiting after those rounds. Times are in nanoseconds.
\<close>

section \<open>The waiting loop\<close>

fun poll_with_timeout ::
  "nat option \<Rightarrow> ('q \<Rightarrow> 'u \<Rightarrow> 'r option res \<times> 'u) \<Rightarrow> ('q \<times> nat) list \<Rightarrow> 'u
   \<Rightarrow> ('r option res \<times> 'u) option" where
  "poll_with_timeout deadline poll_fn [] u = None"
| "poll_with_timeout deadline poll_fn ((q, now) # rounds) u =
     (case poll_fn q u of
        (Inl e, u) \<Rightarrow> Some (Inl e, u)
      | (Inr (Some r), u) \<Rightarrow> Some (Inr (Some r), u)
      | (Inr None, u) \<Rightarrow>
          if (case deadline of None \<Rightarrow> False | Some ddl \<Rightarrow> now \<ge> ddl) then Some (Inr None, u)
          else poll_with_timeout deadline poll_fn rounds u)"

text \<open>\<open>handle_empty_nfds\<close>: the sleep is over in the list's first round whose clock reaches it.\<close>

fun sleep_until :: "nat \<Rightarrow> nat list \<Rightarrow> bool" where
  "sleep_until t [] = False"
| "sleep_until t (now # clock) = (now \<ge> t \<or> sleep_until t clock)"

definition handle_empty_nfds :: "nat \<Rightarrow> nat option \<Rightarrow> nat list \<Rightarrow> isize res option" where
  "handle_empty_nfds now timeout clock =
     (case timeout of
        None \<Rightarrow> Some (Inr 0)
      | Some d \<Rightarrow> if sleep_until (now + d) clock then Some (Inr 0) else None)"

text \<open>Adding durations panics when the seconds no longer fit 64 bits.\<close>

definition dur_add :: "nat \<Rightarrow> nat \<Rightarrow> nat res" where
  "dur_add a b = (if a + b < 2 ^ 64 * 10 ^ 9 then Inr (a + b) else Inl Panic)"

definition from_millis :: "i32 \<Rightarrow> nat" where
  "from_millis ms = unat (scast ms :: u64) * 10 ^ 6"

section \<open>poll\<close>

record pollfd =
  pfd :: i32
  pevents :: i16
  revents :: i16

definition POLLIN :: i16 where "POLLIN = 1"

definition POLLOUT :: i16 where "POLLOUT = 4"

definition POLLERR :: i16 where "POLLERR = 8"

definition POLLNVAL :: i16 where "POLLNVAL = 0x20"

text \<open>What a descriptor answers: \<open>None\<close> when it is not in the table, otherwise the answer of its
  file's \<open>poll\<close>.\<close>

type_synonym readiness = "i32 \<Rightarrow> poll_state res option"

definition poll_fd_entry :: "readiness \<Rightarrow> pollfd \<Rightarrow> nat \<Rightarrow> pollfd \<times> nat" where
  "poll_fd_entry q p ready_count =
     (let p = p\<lparr>revents := 0\<rparr> in
      if sint (pfd p) < 0 then (p, ready_count)
      else case q (pfd p) of
        Some (Inr state) \<Rightarrow>
          let p = (if pevents p AND POLLIN \<noteq> 0 \<and> ps_readable state
                   then p\<lparr>revents := revents p OR POLLIN\<rparr> else p);
              p = (if pevents p AND POLLOUT \<noteq> 0 \<and> ps_writable state
                   then p\<lparr>revents := revents p OR POLLOUT\<rparr> else p)
          in (p, if revents p \<noteq> 0 then ready_count + 1 else ready_count)
      | Some (Inl _) \<Rightarrow> (p\<lparr>revents := POLLERR\<rparr>, ready_count + 1)
      | None \<Rightarrow> (p\<lparr>revents := POLLNVAL\<rparr>, ready_count + 1))"

fun poll_fds_loop :: "readiness \<Rightarrow> pollfd list \<Rightarrow> nat \<Rightarrow> pollfd list \<times> nat" where
  "poll_fds_loop q [] n = ([], n)"
| "poll_fds_loop q (p # ps) n =
     (let (p, n) = poll_fd_entry q p n; (ps, n) = poll_fds_loop q ps n in (p # ps, n))"

text \<open>The user's array is the state; \<open>Inl e\<close> stands for an array that cannot be accessed.\<close>

definition poll_fds :: "readiness \<Rightarrow> pollfd list res \<Rightarrow> nat option res \<times> pollfd list res" where
  "poll_fds q fds =
     (case fds of
        Inl e \<Rightarrow> (Inl e, fds)
      | Inr ps \<Rightarrow> let (ps, n) = poll_fds_loop q ps 0
                  in (Inr (if n > 0 then Some n else None), Inr ps))"

definition poll_result :: "(nat option res \<times> 'u) option \<Rightarrow> (isize res \<times> 'u) option" where
  "poll_result r =
     map_option (\<lambda>(r, u). (rbind r (\<lambda>x. Inr (case x of Some n \<Rightarrow> word_of_nat n | None \<Rightarrow> 0)), u)) r"

definition sys_poll ::
  "nat \<Rightarrow> pollfd list res \<Rightarrow> usize \<Rightarrow> i32 \<Rightarrow> (readiness \<times> nat) list
   \<Rightarrow> (isize res \<times> pollfd list res) option" where
  "sys_poll wall fds nfds timeout_ms rounds =
     (if nfds = 0 then
        map_option (\<lambda>r. (r, fds))
          (handle_empty_nfds wall (if sint timeout_ms < 0 then None else Some (from_millis timeout_ms))
             (map snd rounds))
      else
        (case (if sint timeout_ms < 0 then Inr None
               else rbind (dur_add wall (from_millis timeout_ms)) (\<lambda>d. Inr (Some d))) of
           Inl e \<Rightarrow> Some (Inl e, fds)
         | Inr deadline \<Rightarrow> poll_result (poll_with_timeout deadline poll_fds rounds fds)))"

text \<open>\<open>ppoll\<close>: the timeout is absent for a null pointer. \<open>from_secs\<close> and \<open>from_nanos\<close> read the fields
  as unsigned numbers.\<close>

definition timespec_deadline :: "nat \<Rightarrow> timespec \<Rightarrow> nat res" where
  "timespec_deadline wall ts =
     rbind (dur_add wall (unat (ts_sec ts) * 10 ^ 9)) (\<lambda>d. dur_add d (unat (ts_nsec ts)))"

definition sys_ppoll ::
  "nat \<Rightarrow> pollfd list res \<Rightarrow> usize \<Rightarrow> timespec res option \<Rightarrow> (readiness \<times> nat) list
   \<Rightarrow> (isize res \<times> pollfd list res) option" where
  "sys_ppoll wall fds nfds timeout rounds =
     (if nfds = 0 then
        (case (case timeout of
                 None \<Rightarrow> Inr None
               | Some r \<Rightarrow> rbind r (\<lambda>ts. rbind (dur_add (unat (ts_sec ts) * 10 ^ 9) (unat (ts_nsec ts)))
                                          (\<lambda>d. Inr (Some d)))) of
           Inl e \<Rightarrow> Some (Inl e, fds)
         | Inr d \<Rightarrow> map_option (\<lambda>r. (r, fds)) (handle_empty_nfds wall d (map snd rounds)))
      else
        (case (case timeout of
                 None \<Rightarrow> Inr None
               | Some r \<Rightarrow> rbind r (\<lambda>ts. rbind (timespec_deadline wall ts) (\<lambda>d. Inr (Some d)))) of
           Inl e \<Rightarrow> Some (Inl e, fds)
         | Inr deadline \<Rightarrow> poll_result (poll_with_timeout deadline poll_fds rounds fds)))"

section \<open>The answers of the descriptors\<close>

text \<open>How the table, the heap and the handles answer.\<close>

definition readiness_of ::
  "('t, arc) flatten_ops \<Rightarrow> ('f, 's) handle_ops \<Rightarrow> ('f, 'd, 's) files \<Rightarrow> 't \<Rightarrow> readiness" where
  "readiness_of F H fs t fd =
     (case get_file_like F t fd of Inl _ \<Rightarrow> None | Inr a \<Rightarrow> Some (poll_fd F H fs t fd))"

section \<open>What a round reports\<close>

text \<open>The reference: the events of one entry.\<close>

definition entry_events :: "readiness \<Rightarrow> pollfd \<Rightarrow> i16" where
  "entry_events q p =
     (if sint (pfd p) < 0 then 0
      else case q (pfd p) of
        None \<Rightarrow> POLLNVAL
      | Some (Inl _) \<Rightarrow> POLLERR
      | Some (Inr st) \<Rightarrow>
          (if pevents p AND POLLIN \<noteq> 0 \<and> ps_readable st then POLLIN else 0) OR
          (if pevents p AND POLLOUT \<noteq> 0 \<and> ps_writable st then POLLOUT else 0))"

lemma poll_fd_entry_eq:
  "poll_fd_entry q p n =
     (p\<lparr>revents := entry_events q p\<rparr>, n + (if entry_events q p \<noteq> 0 then 1 else 0))"
  by (simp add: poll_fd_entry_def entry_events_def Let_def POLLIN_def POLLOUT_def POLLERR_def
      POLLNVAL_def split: option.split sum.split)

lemma poll_fds_loop_eq:
  "poll_fds_loop q ps n =
     (map (\<lambda>p. p\<lparr>revents := entry_events q p\<rparr>) ps,
      n + length (filter (\<lambda>p. entry_events q p \<noteq> 0) ps))"
  by (induction ps arbitrary: n) (simp_all add: poll_fd_entry_eq)

text \<open>The loop: it answers in the first round that has a result or ends by the deadline.\<close>

lemma poll_with_timeout_skip:
  assumes "\<forall>(q, now) \<in> set pre. \<forall>u \<in> U. \<exists>u' \<in> U. poll_fn q u = (Inr None, u')"
    and "\<forall>(q, now) \<in> set pre. \<forall>d. deadline = Some d \<longrightarrow> now < d"
    and "u \<in> U"
  shows "\<exists>u' \<in> U. poll_with_timeout deadline poll_fn (pre @ rounds) u =
           poll_with_timeout deadline poll_fn rounds u'"
  using assms
proof (induction pre arbitrary: u)
  case (Cons r pre)
  obtain q now where r: "r = (q, now)" by fastforce
  with Cons.prems(1,3) obtain v where v: "v \<in> U" "poll_fn q u = (Inr None, v)" by fastforce
  have "\<exists>u' \<in> U. poll_with_timeout deadline poll_fn (pre @ rounds) v =
      poll_with_timeout deadline poll_fn rounds u'"
    by (rule Cons.IH) (use Cons.prems(1,2) v(1) in auto)
  then show ?case using r v(2) Cons.prems(2) by (auto split: option.splits)
qed auto

lemma entry_events_revents [simp]: "entry_events q (p\<lparr>revents := r\<rparr>) = entry_events q p"
  by (simp add: entry_events_def split: option.split sum.split)

text \<open>The array with the events of a round filled in, and how many of its entries have any.\<close>

definition polled :: "readiness \<Rightarrow> pollfd list \<Rightarrow> pollfd list" where
  "polled q ps = map (\<lambda>p. p\<lparr>revents := entry_events q p\<rparr>) ps"

definition poll_count :: "readiness \<Rightarrow> pollfd list \<Rightarrow> nat" where
  "poll_count q ps = length (filter (\<lambda>p. entry_events q p \<noteq> 0) ps)"

lemma poll_fds_eq:
  "poll_fds q (Inr ps) =
     (Inr (if poll_count q ps > 0 then Some (poll_count q ps) else None), Inr (polled q ps))"
  by (simp add: poll_fds_def poll_fds_loop_eq polled_def poll_count_def)

lemma polled_polled [simp]: "polled q (polled q' ps) = polled q ps"
  by (simp add: polled_def)

lemma poll_count_polled [simp]: "poll_count q (polled q' ps) = poll_count q ps"
  by (simp add: poll_count_def polled_def filter_map o_def)

lemma poll_loop_first:
  assumes "\<forall>(q, now) \<in> set pre. poll_count q ps = 0 \<and> (\<forall>d. deadline = Some d \<longrightarrow> now < d)"
    and "poll_count q ps > 0 \<or> (\<exists>d. deadline = Some d \<and> d \<le> now)"
  shows "poll_with_timeout deadline poll_fds (pre @ (q, now) # post) (Inr ps) =
           Some (Inr (if poll_count q ps > 0 then Some (poll_count q ps) else None), Inr (polled q ps))"
proof -
  let ?U = "insert (Inr ps) (range (\<lambda>q. Inr (polled q ps)))"
  have "\<exists>u \<in> ?U. poll_with_timeout deadline poll_fds (pre @ (q, now) # post) (Inr ps) =
      poll_with_timeout deadline poll_fds ((q, now) # post) u"
    by (rule poll_with_timeout_skip) (use assms(1) in \<open>auto simp: poll_fds_eq\<close>)
  then show ?thesis using assms(2) by (auto simp: poll_fds_eq split: option.splits if_splits)
qed

lemma poll_loop_waits:
  assumes "\<forall>(q, now) \<in> set rounds. poll_count q ps = 0 \<and> (\<forall>d. deadline = Some d \<longrightarrow> now < d)"
  shows "poll_with_timeout deadline poll_fds rounds (Inr ps) = None"
proof -
  let ?U = "insert (Inr ps) (range (\<lambda>q. Inr (polled q ps)))"
  have "\<exists>u \<in> ?U. poll_with_timeout deadline poll_fds (rounds @ []) (Inr ps) =
      poll_with_timeout deadline poll_fds [] u"
    by (rule poll_with_timeout_skip) (use assms in \<open>auto simp: poll_fds_eq\<close>)
  then show ?thesis by simp
qed

text \<open>C21. \<open>sys_poll\<close> on an accessible array, with a deadline that does not overflow: it keeps waiting
  through every round in which no entry has an event and the deadline has not passed, and answers
  in the first other round. Its answer is the number of entries with an event, or 0 when the
  deadline passed, and every entry then holds exactly its events: none for a negative descriptor,
  \<open>POLLNVAL\<close> for a closed one, \<open>POLLERR\<close> when the file cannot be polled, otherwise the requested
  events that are ready.\<close>

theorem sys_poll_spec:
  assumes "nfds \<noteq> 0" "wall + from_millis timeout_ms < 2 ^ 64 * 10 ^ 9"
    and quiet: "\<forall>(q, now) \<in> set pre. (\<forall>p \<in> set ps. entry_events q p = 0)
                  \<and> (sint timeout_ms < 0 \<or> now < wall + from_millis timeout_ms)"
  shows "sys_poll wall (Inr ps) nfds timeout_ms pre = None
       \<and> ((\<exists>p \<in> set ps. entry_events q p \<noteq> 0)
            \<or> (0 \<le> sint timeout_ms \<and> wall + from_millis timeout_ms \<le> now) \<longrightarrow>
          sys_poll wall (Inr ps) nfds timeout_ms (pre @ (q, now) # post) =
            Some (Inr (word_of_nat (length (filter (\<lambda>p. entry_events q p \<noteq> 0) ps))),
                  Inr (map (\<lambda>p. p\<lparr>revents := entry_events q p\<rparr>) ps)))"
proof -
  define deadline where
    "deadline = (if sint timeout_ms < 0 then None else Some (wall + from_millis timeout_ms))"
  have sp: "sys_poll wall (Inr ps) nfds timeout_ms rounds =
      poll_result (poll_with_timeout deadline poll_fds rounds (Inr ps))" for rounds
    using assms(1,2) by (simp add: sys_poll_def deadline_def dur_add_def)
  have z: "poll_count q ps = 0 \<longleftrightarrow> (\<forall>p \<in> set ps. entry_events q p = 0)" for q
    by (simp add: poll_count_def filter_empty_conv)
  have pre: "\<forall>(q, now) \<in> set pre. poll_count q ps = 0 \<and> (\<forall>d. deadline = Some d \<longrightarrow> now < d)"
    using quiet by (auto simp: z deadline_def)
  have "sys_poll wall (Inr ps) nfds timeout_ms (pre @ (q, now) # post) =
      Some (Inr (word_of_nat (poll_count q ps)), Inr (polled q ps))"
    if "(\<exists>p \<in> set ps. entry_events q p \<noteq> 0) \<or> (0 \<le> sint timeout_ms \<and> wall + from_millis timeout_ms \<le> now)"
  proof -
    have "poll_count q ps > 0 \<or> (\<exists>d. deadline = Some d \<and> d \<le> now)"
      using that z [of q] by (auto simp: deadline_def)
    from poll_loop_first [OF pre this] show ?thesis by (auto simp: sp poll_result_def)
  qed
  moreover have "sys_poll wall (Inr ps) nfds timeout_ms pre = None"
    using poll_loop_waits [OF pre] by (simp add: sp poll_result_def)
  ultimately show ?thesis by (auto simp: poll_count_def polled_def)
qed

theorem sys_poll_spec_witness:
  "let q0 = (\<lambda>_. Some (Inr \<lparr>ps_readable = False, ps_writable = True\<rparr>));
       q1 = (\<lambda>_. Some (Inr \<lparr>ps_readable = True, ps_writable = True\<rparr>));
       ps = [\<lparr>pfd = 3, pevents = POLLIN, revents = 0\<rparr>]
   in sys_poll 0 (Inr ps) 1 5 [(q0, 1)] = None
    \<and> sys_poll 0 (Inr ps) 1 5 [(q0, 1), (q1, 2)] =
        Some (Inr 1, Inr [\<lparr>pfd = 3, pevents = POLLIN, revents = POLLIN\<rparr>])"
  using sys_poll_spec [where nfds = 1 and wall = 0 and timeout_ms = 5 and ps = "[\<lparr>pfd = 3, pevents = POLLIN, revents = 0\<rparr>]"
      and pre = "[(\<lambda>_. Some (Inr \<lparr>ps_readable = False, ps_writable = True\<rparr>), 1)]"
      and q = "\<lambda>_. Some (Inr \<lparr>ps_readable = True, ps_writable = True\<rparr>)" and now = 2 and post = "[]"]
  by (simp add: from_millis_def entry_events_def POLLIN_def POLLOUT_def)

end
