(* ===== verification/Btree_Map.thy ===== *)
theory Btree_Map
  imports Kernel_Prelude
begin

text \<open>
  Ordered maps. The sources keep several tables in \<open>BTreeMap\<close>s and walk them in the order of their
  keys. The locale gives the contract the clients rely on; the instance is the list of the entries
  in ascending order of keys.
\<close>

locale ordered_map =
  fixes lookup :: "'m \<Rightarrow> 'k::linorder \<Rightarrow> 'v option"
    and insert_key :: "'k \<Rightarrow> 'v \<Rightarrow> 'm \<Rightarrow> 'm"
    and remove_key :: "'k \<Rightarrow> 'm \<Rightarrow> 'm"
    and entries :: "'m \<Rightarrow> ('k \<times> 'v) list"
    and okm :: "'m \<Rightarrow> bool"
  assumes lookup_insert: "okm m \<Longrightarrow> lookup (insert_key k v m) k' = (if k' = k then Some v else lookup m k')"
    and lookup_remove: "okm m \<Longrightarrow> lookup (remove_key k m) k' = (if k' = k then None else lookup m k')"
    and ok_insert: "okm m \<Longrightarrow> okm (insert_key k v m)"
    and ok_remove: "okm m \<Longrightarrow> okm (remove_key k m)"
    and entries_sorted: "okm m \<Longrightarrow> sorted (map fst (entries m)) \<and> distinct (map fst (entries m))"
    and entries_lookup: "okm m \<Longrightarrow> (k, v) \<in> set (entries m) \<longleftrightarrow> lookup m k = Some v"
begin

lemma entries_insert:
  "okm m \<Longrightarrow> set (entries (insert_key k v m)) = insert (k, v) {e \<in> set (entries m). fst e \<noteq> k}"
  by (auto simp: entries_lookup lookup_insert ok_insert split: if_splits)

lemma entries_remove:
  "okm m \<Longrightarrow> set (entries (remove_key k m)) = {e \<in> set (entries m). fst e \<noteq> k}"
  by (auto simp: entries_lookup lookup_remove ok_remove split: if_splits)

lemma remove_insert_lookup:
  "okm m \<Longrightarrow> lookup m k = None \<Longrightarrow> lookup (remove_key k (insert_key k v m)) = lookup m"
  by (auto simp: lookup_insert lookup_remove ok_insert)

end

section \<open>Sorted association lists\<close>

fun bt_insert :: "'k::linorder \<Rightarrow> 'v \<Rightarrow> ('k \<times> 'v) list \<Rightarrow> ('k \<times> 'v) list" where
  "bt_insert k v [] = [(k, v)]"
| "bt_insert k v ((k', v') # m) =
     (if k < k' then (k, v) # (k', v') # m
      else if k = k' then (k, v) # m
      else (k', v') # bt_insert k v m)"

definition bt_remove :: "'k \<Rightarrow> ('k \<times> 'v) list \<Rightarrow> ('k \<times> 'v) list" where
  "bt_remove k m = filter (\<lambda>e. fst e \<noteq> k) m"

definition bt_ok :: "('k::linorder \<times> 'v) list \<Rightarrow> bool" where
  "bt_ok m \<longleftrightarrow> sorted (map fst m) \<and> distinct (map fst m)"

lemma bt_keys_insert: "fst ` set (bt_insert k v m) = insert k (fst ` set m)"
  by (induction k v m rule: bt_insert.induct) auto

lemma bt_lookup_insert: "map_of (bt_insert k v m) k' = (if k' = k then Some v else map_of m k')"
  if "bt_ok m"
  using that by (induction k v m rule: bt_insert.induct) (auto simp: bt_ok_def)

lemma bt_lookup_remove: "map_of (bt_remove k m) k' = (if k' = k then None else map_of m k')"
  by (induction m) (auto simp: bt_remove_def)

lemma bt_ok_insert: "bt_ok m \<Longrightarrow> bt_ok (bt_insert k v m)"
proof (induction k v m rule: bt_insert.induct)
  case (2 k v k' v' m)
  have "fst ` set (bt_insert k v m) = insert k (fst ` set m)" by (rule bt_keys_insert)
  with 2 show ?case by (auto simp: bt_ok_def)
qed (simp add: bt_ok_def)

lemma bt_ok_remove: "bt_ok m \<Longrightarrow> bt_ok (bt_remove k m)"
  by (induction m) (auto simp: bt_ok_def bt_remove_def)

lemma bt_entries:
  assumes "bt_ok m"
  shows "sorted (map fst m)" "distinct (map fst m)" "(k, v) \<in> set m \<longleftrightarrow> map_of m k = Some v"
  using assms by (simp_all add: bt_ok_def)

interpretation bt: ordered_map map_of bt_insert bt_remove "\<lambda>m. m" bt_ok
proof
  fix m :: "('a \<times> 'b) list" and k k' v
  assume ok: "bt_ok m"
  show "map_of (bt_insert k v m) k' = (if k' = k then Some v else map_of m k')" by (rule bt_lookup_insert [OF ok])
  show "map_of (bt_remove k m) k' = (if k' = k then None else map_of m k')" by (rule bt_lookup_remove)
  show "bt_ok (bt_insert k v m)" by (rule bt_ok_insert [OF ok])
  show "bt_ok (bt_remove k m)" by (rule bt_ok_remove [OF ok])
  show "sorted (map fst m) \<and> distinct (map fst m)" using bt_entries(1,2) [OF ok] by blast
  show "(k, v) \<in> set m \<longleftrightarrow> map_of m k = Some v" by (rule bt_entries(3) [OF ok])
qed

end
