(* ===== verification/Epoll.thy ===== *)
theory Epoll
  imports Poll Btree_Map
begin

text \<open>
  \<open>api/src/imp/fs/io_mpx/epoll.rs\<close>. An instance holds its registrations in a \<open>BTreeMap\<close> from
  descriptor numbers to events, here the sorted list of its entries; it is a file object of the
  heap. While \<open>epoll_wait\<close> waits, other threads may change the registrations: a round of a waiting
  call has the registrations of that round and what the descriptors answer in it.
\<close>

type_synonym registrations = "(nat \<times> epoll_event) list"

definition EPOLLIN :: u32 where "EPOLLIN = 1"

definition EPOLLOUT :: u32 where "EPOLLOUT = 4"

definition EPOLLERR :: u32 where "EPOLLERR = 8"

definition EPOLL_CTL_ADD :: u32 where "EPOLL_CTL_ADD = 1"

definition EPOLL_CTL_DEL :: u32 where "EPOLL_CTL_DEL = 2"

definition EPOLL_CTL_MOD :: u32 where "EPOLL_CTL_MOD = 3"

definition epoll_control ::
  "('t, arc) flatten_ops \<Rightarrow> 't \<Rightarrow> registrations \<Rightarrow> usize \<Rightarrow> usize \<Rightarrow> epoll_event
   \<Rightarrow> usize res \<times> registrations" where
  "epoll_control F t evs op fd event =
     (case get_file_like F t (ucast fd) of
        Inl e \<Rightarrow> (Inl e, evs)
      | Inr _ \<Rightarrow>
          let op = ucast op; contains = (map_of evs (unat fd) \<noteq> None) in
          if op = EPOLL_CTL_ADD then
            if contains then (Inl (Errno EEXIST), evs)
            else (Inr 0, bt_insert (unat fd) event evs)
          else if op = EPOLL_CTL_MOD then
            if \<not> contains then (Inl (Errno ENOENT), evs)
            else (Inr 0, bt_insert (unat fd) event evs)
          else if op = EPOLL_CTL_DEL then
            if \<not> contains then (Inl (Errno ENOENT), evs)
            else (Inr 0, bt_remove (unat fd) evs)
          else (Inl (Errno EINVAL), evs))"

text \<open>\<open>get_file_like(fd).and_then(|f| f.poll())\<close>.\<close>

definition query :: "readiness \<Rightarrow> i32 \<Rightarrow> poll_state option" where
  "query q fd = (case q fd of Some (Inr st) \<Rightarrow> Some st | _ \<Rightarrow> None)"

text \<open>\<open>poll_all\<close> with \<open>room\<close> free places left in the buffer; the result is what it filled in.\<close>

fun epoll_poll_all :: "readiness \<Rightarrow> nat \<Rightarrow> registrations \<Rightarrow> epoll_event list" where
  "epoll_poll_all q room [] = []"
| "epoll_poll_all q room ((infd, ev) # evs) =
     (if room = 0 then []
      else case query q (word_of_nat infd) of
        None \<Rightarrow>
          if events ev AND EPOLLERR \<noteq> 0
          then \<lparr>events = EPOLLERR, data = data ev\<rparr> # epoll_poll_all q (room - 1) evs
          else epoll_poll_all q room evs
      | Some state \<Rightarrow>
          if ps_readable state \<and> events ev AND EPOLLIN \<noteq> 0
          then \<lparr>events = EPOLLIN, data = data ev\<rparr> # epoll_poll_all q (room - 1) evs
          else if ps_writable state \<and> events ev AND EPOLLOUT \<noteq> 0
          then \<lparr>events = EPOLLOUT, data = data ev\<rparr> # epoll_poll_all q (room - 1) evs
          else epoll_poll_all q room evs)"

section \<open>System calls\<close>

definition sys_epoll_create ::
  "('t, arc) flatten_ops \<Rightarrow> arc \<Rightarrow> i32 \<Rightarrow> ('f, 'd, 's) heap \<times> 't \<Rightarrow> isize res \<times> (('f, 'd, 's) heap \<times> 't)" where
  "sys_epoll_create F fresh sz s =
     (case s of (h, t) \<Rightarrow>
        if sint sz \<le> 0 then (Inl (Errno EINVAL), (h, t))
        else case add_file_like F t fresh of
          (Inl e, t) \<Rightarrow> (Inl e, (h, t))
        | (Inr fd, t) \<Rightarrow> (Inr (scast fd), (h(fresh \<mapsto> FEpoll []), t)))"

definition sys_epoll_create1 ::
  "('t, arc) flatten_ops \<Rightarrow> arc \<Rightarrow> i32 \<Rightarrow> ('f, 'd, 's) heap \<times> 't \<Rightarrow> isize res \<times> (('f, 'd, 's) heap \<times> 't)" where
  "sys_epoll_create1 F fresh flags s = sys_epoll_create F fresh 1 s"

text \<open>\<open>event\<close>: whether the pointer is null, and the outcome of accessing it.\<close>

definition sys_epoll_ctl ::
  "('t, arc) flatten_ops \<Rightarrow> 't \<Rightarrow> i32 \<Rightarrow> i32 \<Rightarrow> i32 \<Rightarrow> bool \<times> epoll_event res \<Rightarrow> ('f, 'd, 's) heap
   \<Rightarrow> isize res \<times> ('f, 'd, 's) heap" where
  "sys_epoll_ctl F t epfd op fd event h =
     (case (if op = EPOLL_CTL_DEL then
              if fst event then Inr \<lparr>events = 0, data = 0\<rparr> else snd event
            else snd event) of
        Inl e \<Rightarrow> (Inl e, h)
      | Inr ev \<Rightarrow>
          (case epoll_from_fd F h t epfd of
             Inl e \<Rightarrow> (Inl e, h)
           | Inr (a, evs) \<Rightarrow>
               let (r, evs') = epoll_control F t evs (scast op) (scast fd) ev
               in (r, h(a \<mapsto> FEpoll evs'))))"

text \<open>The loop of \<open>epoll_wait\<close>; \<open>user n\<close> is the outcome of accessing \<open>n\<close> entries of the user's array.
  The result carries the events that were stored.\<close>

fun epoll_wait_loop ::
  "nat option \<Rightarrow> nat \<Rightarrow> (nat \<Rightarrow> unit res) \<Rightarrow> ((registrations \<times> readiness) \<times> nat) list
   \<Rightarrow> (isize res \<times> epoll_event list) option" where
  "epoll_wait_loop deadline maxevents user [] = None"
| "epoll_wait_loop deadline maxevents user (((evs, q), now) # rounds) =
     (let found = epoll_poll_all q maxevents evs; events_num = length found in
      if events_num > 0 then
        (case user events_num of
           Inl e \<Rightarrow> Some (Inl e, [])
         | Inr _ \<Rightarrow> Some (Inr (word_of_nat events_num), found))
      else if (case deadline of None \<Rightarrow> False | Some ddl \<Rightarrow> now \<ge> ddl) then Some (Inr 0, [])
      else epoll_wait_loop deadline maxevents user rounds)"

definition sys_epoll_wait ::
  "('t, arc) flatten_ops \<Rightarrow> ('f, 'd, 's) heap \<Rightarrow> 't \<Rightarrow> nat \<Rightarrow> i32 \<Rightarrow> (nat \<Rightarrow> unit res) \<Rightarrow> i32 \<Rightarrow> i32
   \<Rightarrow> ((registrations \<times> readiness) \<times> nat) list \<Rightarrow> (isize res \<times> epoll_event list) option" where
  "sys_epoll_wait F h t wall epfd user maxevents timeout rounds =
     (if sint maxevents \<le> 0 then Some (Inl (Errno EINVAL), [])
      else case (if sint timeout < 0 then Inr None
                 else rbind (dur_add wall (from_millis timeout)) (\<lambda>d. Inr (Some d))) of
        Inl e \<Rightarrow> Some (Inl e, [])
      | Inr deadline \<Rightarrow>
          (case epoll_from_fd F h t epfd of
             Inl e \<Rightarrow> Some (Inl e, [])
           | Inr _ \<Rightarrow> epoll_wait_loop deadline (unat (scast maxevents :: usize)) user rounds))"

definition sys_epoll_pwait ::
  "('t, arc) flatten_ops \<Rightarrow> ('f, 'd, 's) heap \<Rightarrow> 't \<Rightarrow> nat \<Rightarrow> i32 \<Rightarrow> (nat \<Rightarrow> unit res) \<Rightarrow> i32 \<Rightarrow> i32
   \<Rightarrow> ((registrations \<times> readiness) \<times> nat) list \<Rightarrow> (isize res \<times> epoll_event list) option" where
  "sys_epoll_pwait F h t wall epfd user maxevents timeout rounds =
     sys_epoll_wait F h t wall epfd user maxevents timeout rounds"

section \<open>Registrations\<close>

text \<open>\<open>sys_epoll_ctl\<close> on an instance, for an open descriptor and an accessible event, acts on
  the finite map of registrations: adding requires that the descriptor is absent, modifying and
  deleting that it is present, with \<open>EEXIST\<close> and \<open>ENOENT\<close> otherwise; unknown operations fail with
  \<open>EINVAL\<close>; a failed call changes nothing, a successful one changes the entry of this descriptor
  only, and the order of the table is kept.\<close>

theorem sys_epoll_ctl_spec:
  assumes "epoll_from_fd F h t epfd = Inr (a, evs)" "h a = Some (FEpoll evs)" "bt_ok evs"
    and "get_file_like F t fd = Inr f"
  shows "case sys_epoll_ctl F t epfd op fd (isnull, Inr ev) h of (r, h') \<Rightarrow>
           let present = (map_of evs (fd_index fd) \<noteq> None) in
           if op \<notin> {EPOLL_CTL_ADD, EPOLL_CTL_MOD, EPOLL_CTL_DEL} then r = Inl (Errno EINVAL) \<and> h' = h
           else if op = EPOLL_CTL_ADD \<and> present then r = Inl (Errno EEXIST) \<and> h' = h
           else if op \<noteq> EPOLL_CTL_ADD \<and> \<not> present then r = Inl (Errno ENOENT) \<and> h' = h
           else r = Inr 0 \<and> (\<exists>evs'. h' = h(a \<mapsto> FEpoll evs') \<and> bt_ok evs'
                  \<and> map_of evs' = (map_of evs)
                      (fd_index fd := if op = EPOLL_CTL_DEL then None else Some ev))"
proof -
  have same: "h(a \<mapsto> FEpoll evs) = h" using assms(2) by (simp add: fun_upd_idem)
  have ins: "map_of (bt_insert k v evs) = (map_of evs)(k \<mapsto> v)" for k v
    by (auto simp: bt.lookup_insert [OF assms(3)])
  have rem: "map_of (bt_remove k evs) = (map_of evs)(k := None)" for k
    by (auto simp: bt.lookup_remove [OF assms(3)])
  have d: "EPOLL_CTL_ADD \<noteq> EPOLL_CTL_DEL" "EPOLL_CTL_ADD \<noteq> EPOLL_CTL_MOD" "EPOLL_CTL_MOD \<noteq> EPOLL_CTL_DEL"
    by (simp_all add: EPOLL_CTL_ADD_def EPOLL_CTL_MOD_def EPOLL_CTL_DEL_def)
  have k: "unat (scast fd :: usize) = fd_index fd" by (simp add: fd_index_def)
  show ?thesis
    using assms(1,4) same ins rem d bt.ok_insert [OF assms(3)] bt.ok_remove [OF assms(3)]
    by (auto simp: sys_epoll_ctl_def epoll_control_def Let_def k)
qed

theorem sys_epoll_ctl_spec_witness:
  "case sys_epoll_ctl map_objects [0 \<mapsto> 7, 4 \<mapsto> 8] 0 EPOLL_CTL_ADD 4
          (False, Inr \<lparr>events = EPOLLIN, data = 9\<rparr>)
          ([7 \<mapsto> FEpoll []] :: (unit, unit, unit) heap) of (r, h') \<Rightarrow>
     r = Inr 0 \<and> (\<exists>evs'. h' 7 = Some (FEpoll evs') \<and> map_of evs' = [4 \<mapsto> \<lparr>events = EPOLLIN, data = 9\<rparr>])"
proof -
  have fd: "fd_index 4 = 4" "fd_index 0 = 0" by (simp_all add: fd_index_def)
  show ?thesis
    using sys_epoll_ctl_spec [where F = map_objects and h = "[7 \<mapsto> FEpoll []] :: (unit, unit, unit) heap"
        and t = "[0 \<mapsto> 7, 4 \<mapsto> 8]" and epfd = 0 and a = 7 and evs = "[]" and fd = 4 and f = 8
        and op = EPOLL_CTL_ADD and isnull = False and ev = "\<lparr>events = EPOLLIN, data = 9\<rparr>"] fd
    by (auto simp: epoll_from_fd_def obj_of_fd_def get_file_like_def bt_ok_def Let_def
        EPOLL_CTL_ADD_def EPOLL_CTL_DEL_def split: prod.splits)
qed

section \<open>Waiting\<close>

text \<open>The reference: what one registration reports, and the reports of an instance in the order of
  the descriptors.\<close>

definition epoll_report :: "readiness \<Rightarrow> nat \<times> epoll_event \<Rightarrow> epoll_event option" where
  "epoll_report q r =
     (case r of (infd, ev) \<Rightarrow>
        map_option (\<lambda>e. \<lparr>events = e, data = data ev\<rparr>)
          (case query q (word_of_nat infd) of
             None \<Rightarrow> if events ev AND EPOLLERR \<noteq> 0 then Some EPOLLERR else None
           | Some st \<Rightarrow>
               if ps_readable st \<and> events ev AND EPOLLIN \<noteq> 0 then Some EPOLLIN
               else if ps_writable st \<and> events ev AND EPOLLOUT \<noteq> 0 then Some EPOLLOUT else None))"

definition epoll_reports :: "readiness \<Rightarrow> registrations \<Rightarrow> epoll_event list" where
  "epoll_reports q evs = List.map_filter (epoll_report q) evs"

lemma epoll_reports_simps [simp]:
  "epoll_reports q [] = []"
  "epoll_reports q (r # evs) =
     (case epoll_report q r of None \<Rightarrow> epoll_reports q evs | Some e \<Rightarrow> e # epoll_reports q evs)"
  by (simp_all add: epoll_reports_def List.map_filter_simps split: option.split)

lemma epoll_poll_all_eq: "epoll_poll_all q room evs = take room (epoll_reports q evs)"
proof (induction q room evs rule: epoll_poll_all.induct)
  case (2 q room infd ev evs)
  then show ?case
    by (cases room) (auto simp: epoll_report_def split: option.split)
qed simp

lemma epoll_wait_loop_skip:
  assumes "\<forall>((evs, q), now) \<in> set pre. epoll_reports q evs = [] \<and> (\<forall>d. deadline = Some d \<longrightarrow> now < d)"
  shows "epoll_wait_loop deadline n user (pre @ rounds) = epoll_wait_loop deadline n user rounds"
  using assms
proof (induction pre)
  case (Cons r pre)
  obtain evs q now where r: "r = ((evs, q), now)" by (metis prod.exhaust)
  with Cons show ?case by (auto simp: epoll_poll_all_eq Let_def split: option.split)
qed simp

text \<open>C20. \<open>sys_epoll_wait\<close> on an instance, with a positive number of places and a deadline that does
  not overflow, keeps waiting through every round in which nothing is to be reported and the
  deadline has not passed. In the first other round it stores the first reports, in the order of
  the descriptors, at most as many as there are places and at least one when there is any, and
  returns their number, or returns 0 when the deadline passed.\<close>

theorem sys_epoll_wait_spec:
  assumes "epoll_from_fd F h t epfd = Inr inst" "0 < sint maxevents"
    and "wall + from_millis timeout < 2 ^ 64 * 10 ^ 9" "\<forall>n. user n = Inr ()"
    and "\<forall>((evs, q), now) \<in> set pre. epoll_reports q evs = []
           \<and> (sint timeout < 0 \<or> now < wall + from_millis timeout)"
  shows "sys_epoll_wait F h t wall epfd user maxevents timeout pre = None
       \<and> (epoll_reports q evs \<noteq> [] \<or> (0 \<le> sint timeout \<and> wall + from_millis timeout \<le> now) \<longrightarrow>
          (\<exists>es. es = take (nat (sint maxevents)) (epoll_reports q evs)
             \<and> (epoll_reports q evs \<noteq> [] \<longrightarrow> es \<noteq> [])
             \<and> sys_epoll_wait F h t wall epfd user maxevents timeout (pre @ ((evs, q), now) # post) =
                 Some (Inr (word_of_nat (length es)), es)))"
proof -
  define deadline where
    "deadline = (if sint timeout < 0 then None else Some (wall + from_millis timeout))"
  have n: "unat (scast maxevents :: usize) = nat (sint maxevents)"
  proof -
    have "sint (scast maxevents :: usize) = sint maxevents" by (simp add: sint_up_scast is_up)
    then show ?thesis using assms(2) unat_sint_nonneg [of "scast maxevents :: usize"] by simp
  qed
  have sys: "sys_epoll_wait F h t wall epfd user maxevents timeout rounds =
      epoll_wait_loop deadline (nat (sint maxevents)) user rounds" for rounds
    using assms(1-3) by (simp add: sys_epoll_wait_def deadline_def dur_add_def n)
  have pre: "\<forall>((evs, q), now) \<in> set pre. epoll_reports q evs = [] \<and> (\<forall>d. deadline = Some d \<longrightarrow> now < d)"
    using assms(5) by (auto simp: deadline_def)
  have "0 < nat (sint maxevents)" using assms(2) by simp
  then show ?thesis
    using epoll_wait_loop_skip [OF pre, of _ user "[]"] epoll_wait_loop_skip [OF pre, of _ user "((evs, q), now) # post"]
      assms(4)
    by (auto simp: sys epoll_poll_all_eq Let_def deadline_def)
qed

theorem sys_epoll_wait_spec_witness:
  "let q = (\<lambda>_. Some (Inr \<lparr>ps_readable = True, ps_writable = False\<rparr>));
       evs = [(4, \<lparr>events = EPOLLIN, data = 9\<rparr>), (5, \<lparr>events = EPOLLIN, data = 8\<rparr>)]
   in sys_epoll_wait map_objects ([7 \<mapsto> FEpoll []] :: (unit, unit, unit) heap) [0 \<mapsto> 7] 0 0 (\<lambda>_. Inr ()) 1 5
        [(([], q), 1), ((evs, q), 2)] = Some (Inr 1, [\<lparr>events = EPOLLIN, data = 9\<rparr>])"
proof -
  have "epoll_from_fd map_objects ([7 \<mapsto> FEpoll []] :: (unit, unit, unit) heap) [0 \<mapsto> 7] 0 = Inr (7, [])"
    by (simp add: epoll_from_fd_def obj_of_fd_def get_file_like_def fd_index_def)
  from sys_epoll_wait_spec [OF this, where maxevents = 1 and timeout = 5 and wall = 0 and user = "\<lambda>_. Inr ()"
      and pre = "[(([], \<lambda>_. Some (Inr \<lparr>ps_readable = True, ps_writable = False\<rparr>)), 1)]"
      and q = "\<lambda>_. Some (Inr \<lparr>ps_readable = True, ps_writable = False\<rparr>)"
      and evs = "[(4, \<lparr>events = EPOLLIN, data = 9\<rparr>), (5, \<lparr>events = EPOLLIN, data = 8\<rparr>)]"
      and now = 2 and post = "[]"]
  show ?thesis by (simp add: from_millis_def epoll_report_def query_def EPOLLIN_def)
qed

end
