(* ===== verification/Select.thy ===== *)
theory Select
  imports Poll
begin

text \<open>
  \<open>api/src/imp/fs/io_mpx/select.rs\<close>: \<open>select\<close> and \<open>pselect6\<close> over bit sets of 16 machine words. A user
  set is absent for a null pointer, and otherwise its words or the error of accessing it; the three
  sets of a call are taken to be different objects. A descriptor's answer is that of \<open>Poll\<close>.
\<close>

definition FD_SETSIZE :: nat where
  "FD_SETSIZE = 1024"

definition BITS_PER_USIZE :: nat where
  "BITS_PER_USIZE = 64"

definition FD_SETSIZE_USIZES :: nat where
  "FD_SETSIZE_USIZES = 16"

type_synonym user_set = "usize list res option"

record fd_sets =
  sel_nfds :: nat
  sel_bits :: "usize list"

definition div_ceil :: "nat \<Rightarrow> nat \<Rightarrow> nat" where
  "div_ceil a b = (a + b - 1) div b"

text \<open>One of the three slices of the array: zero, or the first words of the user's set.\<close>

definition copy_from_fd_set :: "nat \<Rightarrow> user_set \<Rightarrow> usize list res" where
  "copy_from_fd_set nfds_usizes fds =
     (case fds of
        None \<Rightarrow> Inr (replicate FD_SETSIZE_USIZES 0)
      | Some r \<Rightarrow> rbind r (\<lambda>ws. Inr (take nfds_usizes ws @ replicate (FD_SETSIZE_USIZES - nfds_usizes) 0)))"

definition fd_sets_from :: "nat \<Rightarrow> user_set \<Rightarrow> user_set \<Rightarrow> user_set \<Rightarrow> fd_sets res" where
  "fd_sets_from nfds r w e =
     (let nfds = min nfds FD_SETSIZE; nfds_usizes = div_ceil nfds BITS_PER_USIZE in
      rbind (copy_from_fd_set nfds_usizes r) (\<lambda>rs.
      rbind (copy_from_fd_set nfds_usizes w) (\<lambda>ws.
      rbind (copy_from_fd_set nfds_usizes e) (\<lambda>es.
        Inr \<lparr>sel_nfds = nfds, sel_bits = rs @ ws @ es\<rparr>))))"

section \<open>The scan\<close>

record sel_acc =
  result_read :: "usize list"
  result_write :: "usize list"
  result_except :: "usize list"
  res_num :: nat

definition set_fd :: "nat \<Rightarrow> usize list \<Rightarrow> usize list" where
  "set_fd fd ws =
     ws[fd div BITS_PER_USIZE := ws ! (fd div BITS_PER_USIZE) OR push_bit (fd mod BITS_PER_USIZE) 1]"

definition select_fd :: "readiness \<Rightarrow> usize \<Rightarrow> usize \<Rightarrow> usize \<Rightarrow> usize \<Rightarrow> nat \<Rightarrow> sel_acc \<Rightarrow> sel_acc" where
  "select_fd q read_bits write_bits except_bits fdbit fd acc =
     (case q (word_of_nat fd) of
        Some (Inr state) \<Rightarrow>
          let acc = (if ps_readable state \<and> read_bits AND fdbit \<noteq> 0
                     then acc\<lparr>result_read := set_fd fd (result_read acc), res_num := res_num acc + 1\<rparr>
                     else acc)
          in (if ps_writable state \<and> write_bits AND fdbit \<noteq> 0
              then acc\<lparr>result_write := set_fd fd (result_write acc), res_num := res_num acc + 1\<rparr>
              else acc)
      | _ \<Rightarrow>
          if except_bits AND fdbit \<noteq> 0
          then acc\<lparr>result_except := set_fd fd (result_except acc), res_num := res_num acc + 1\<rparr>
          else acc)"

text \<open>The inner loop over the bits \<open>j\<close> of a word, and the outer loop over the words: \<open>p\<close> is how far the
  pointers were advanced.\<close>

function select_inner ::
  "readiness \<Rightarrow> nat \<Rightarrow> usize \<Rightarrow> usize \<Rightarrow> usize \<Rightarrow> nat \<Rightarrow> nat \<Rightarrow> sel_acc \<Rightarrow> sel_acc" where
  "select_inner q nfds rb wb eb i j acc =
     (if j < BITS_PER_USIZE \<and> i + j < nfds then
        let fdbit = push_bit j 1 in
        if (rb OR wb OR eb) AND fdbit = 0 then select_inner q nfds rb wb eb i (j + 1) acc
        else select_inner q nfds rb wb eb i (j + 1) (select_fd q rb wb eb fdbit (i + j) acc)
      else acc)"
  by pat_completeness auto
termination
  by (relation "measure (\<lambda>(q, nfds, rb, wb, eb, i, j, acc). BITS_PER_USIZE - j)") auto

function select_outer :: "readiness \<Rightarrow> nat \<Rightarrow> usize list \<Rightarrow> nat \<Rightarrow> nat \<Rightarrow> sel_acc \<Rightarrow> sel_acc" where
  "select_outer q nfds bits p i acc =
     (if i < nfds then
        let read_bits = bits ! p;
            write_bits = bits ! (FD_SETSIZE_USIZES + p);
            except_bits = bits ! (FD_SETSIZE_USIZES * 2 + p);
            all_bits = read_bits OR write_bits OR except_bits
        in if all_bits = 0 then select_outer q nfds bits (p + 1) (i + BITS_PER_USIZE) acc
           else select_outer q nfds bits (p + 1) (i + BITS_PER_USIZE)
                  (select_inner q nfds read_bits write_bits except_bits i 0 acc)
      else acc)"
  by pat_completeness auto
termination
  by (relation "measure (\<lambda>(q, nfds, bits, p, i, acc). nfds - i)") (auto simp: BITS_PER_USIZE_def)

declare select_inner.simps [simp del] select_outer.simps [simp del]

definition acc_empty :: sel_acc where
  "acc_empty =
     \<lparr>result_read = replicate FD_SETSIZE_USIZES 0, result_write = replicate FD_SETSIZE_USIZES 0,
      result_except = replicate FD_SETSIZE_USIZES 0, res_num = 0\<rparr>"

text \<open>Writing a set back to the user.\<close>

definition write_fd_set :: "usize list \<Rightarrow> user_set \<Rightarrow> unit res \<times> user_set" where
  "write_fd_set ws u =
     (case u of
        None \<Rightarrow> (Inr (), u)
      | Some (Inl e) \<Rightarrow> (Inl e, u)
      | Some (Inr _) \<Rightarrow> (Inr (), Some (Inr ws)))"

definition write_fd_sets ::
  "usize list \<Rightarrow> usize list \<Rightarrow> usize list \<Rightarrow> user_set \<times> user_set \<times> user_set
   \<Rightarrow> unit res \<times> (user_set \<times> user_set \<times> user_set)" where
  "write_fd_sets rs ws es u =
     (case u of (r, w, e) \<Rightarrow>
        case write_fd_set rs r of
          (Inl x, r) \<Rightarrow> (Inl x, (r, w, e))
        | (Inr _, r) \<Rightarrow>
            (case write_fd_set ws w of
               (Inl x, w) \<Rightarrow> (Inl x, (r, w, e))
             | (Inr _, w) \<Rightarrow>
                 (case write_fd_set es e of
                    (Inl x, e) \<Rightarrow> (Inl x, (r, w, e))
                  | (Inr _, e) \<Rightarrow> (Inr (), (r, w, e)))))"

definition select_poll_all ::
  "fd_sets \<Rightarrow> readiness \<Rightarrow> user_set \<times> user_set \<times> user_set
   \<Rightarrow> nat option res \<times> (user_set \<times> user_set \<times> user_set)" where
  "select_poll_all s q u =
     (let acc = select_outer q (sel_nfds s) (sel_bits s) 0 0 acc_empty in
      sbind (write_fd_sets (result_read acc) (result_write acc) (result_except acc) u)
        (\<lambda>_ u. (Inr (if res_num acc > 0 then Some (res_num acc) else None), u)))"

text \<open>\<open>clear_fd_set\<close> on the three sets in turn.\<close>

definition clear_fd_sets ::
  "user_set \<times> user_set \<times> user_set \<Rightarrow> unit res \<times> (user_set \<times> user_set \<times> user_set)" where
  "clear_fd_sets u =
     (let z = replicate FD_SETSIZE_USIZES 0 in write_fd_sets z z z u)"

section \<open>System calls\<close>

definition timeval_deadline :: "nat \<Rightarrow> timeval \<Rightarrow> nat res" where
  "timeval_deadline wall tv =
     rbind (dur_add wall (unat (tv_sec tv) * 10 ^ 9)) (\<lambda>d. dur_add d (unat (tv_usec tv) * 1000))"

text \<open>The part \<open>select\<close> and \<open>pselect6\<close> share, from the number of descriptors and the deadline on.\<close>

definition select_with ::
  "nat \<Rightarrow> nat option res \<Rightarrow> user_set \<times> user_set \<times> user_set \<Rightarrow> (readiness \<times> nat) list
   \<Rightarrow> (isize res \<times> (user_set \<times> user_set \<times> user_set)) option" where
  "select_with nfds deadline u rounds =
     (case rbind deadline (\<lambda>d. case u of (r, w, e) \<Rightarrow>
             rbind (fd_sets_from nfds r w e) (\<lambda>s. Inr (d, s))) of
        Inl x \<Rightarrow> Some (Inl x, u)
      | Inr (d, s) \<Rightarrow>
          (case clear_fd_sets u of
             (Inl x, u) \<Rightarrow> Some (Inl x, u)
           | (Inr _, u) \<Rightarrow> poll_result (poll_with_timeout d (select_poll_all s) rounds u)))"

definition sys_select ::
  "nat \<Rightarrow> i32 \<Rightarrow> user_set \<Rightarrow> user_set \<Rightarrow> user_set \<Rightarrow> timeval res option \<Rightarrow> (readiness \<times> nat) list
   \<Rightarrow> (isize res \<times> (user_set \<times> user_set \<times> user_set)) option" where
  "sys_select wall nfds r w e timeout rounds =
     (if sint nfds < 0 then Some (Inl (Errno EINVAL), (r, w, e))
      else select_with (min (unat (scast nfds :: usize)) FD_SETSIZE)
             (case timeout of
                None \<Rightarrow> Inr None
              | Some x \<Rightarrow> rbind x (\<lambda>tv. rbind (timeval_deadline wall tv) (\<lambda>d. Inr (Some d))))
             (r, w, e) rounds)"

definition sys_pselect6 ::
  "nat \<Rightarrow> i32 \<Rightarrow> user_set \<Rightarrow> user_set \<Rightarrow> user_set \<Rightarrow> timespec res option \<Rightarrow> (readiness \<times> nat) list
   \<Rightarrow> (isize res \<times> (user_set \<times> user_set \<times> user_set)) option" where
  "sys_pselect6 wall nfds r w e timeout rounds =
     (if sint nfds < 0 then Some (Inl (Errno EINVAL), (r, w, e))
      else select_with (min (unat (scast nfds :: usize)) FD_SETSIZE)
             (case timeout of
                None \<Rightarrow> Inr None
              | Some x \<Rightarrow> rbind x (\<lambda>ts. rbind (timespec_deadline wall ts) (\<lambda>d. Inr (Some d))))
             (r, w, e) rounds)"

section \<open>The scan visits every requested descriptor once\<close>

definition fd_isset :: "usize list \<Rightarrow> nat \<Rightarrow> bool" where
  "fd_isset ws fd \<longleftrightarrow> bit (ws ! (fd div 64)) (fd mod 64)"

definition select_step :: "readiness \<Rightarrow> usize list \<Rightarrow> nat \<Rightarrow> sel_acc \<Rightarrow> sel_acc" where
  "select_step q bits fd =
     select_fd q (bits ! (fd div 64)) (bits ! (16 + fd div 64)) (bits ! (32 + fd div 64))
       (push_bit (fd mod 64) 1) fd"

lemma and_bit: "x AND push_bit j 1 \<noteq> 0 \<longleftrightarrow> bit x j" for x :: usize
  by (simp add: bit_iff_and_push_bit_not_eq_0)

lemma select_fd_skip:
  assumes "(rb OR wb OR eb) AND push_bit j 1 = (0 :: usize)"
  shows "select_fd q rb wb eb (push_bit j 1) fd acc = acc"
proof -
  have "\<not> bit (rb OR wb OR eb) j" using assms and_bit by blast
  then have "\<not> bit rb j" "\<not> bit wb j" "\<not> bit eb j" by (auto simp: bit_or_iff)
  then have z: "\<not> rb AND push_bit j 1 \<noteq> 0" "\<not> wb AND push_bit j 1 \<noteq> 0" "\<not> eb AND push_bit j 1 \<noteq> 0"
    unfolding and_bit .
  show ?thesis using z by (auto simp: select_fd_def Let_def split: option.split sum.split)
qed

lemma select_inner_fold:
  assumes "i mod 64 = 0"
  shows "select_inner q nfds (bits ! (i div 64)) (bits ! (16 + i div 64)) (bits ! (32 + i div 64)) i j acc =
           fold (select_step q bits) [i + j ..< min (i + 64) nfds] acc"
proof (induction "64 - j" arbitrary: j acc)
  case 0
  then show ?case by (simp add: select_inner.simps [of _ _ _ _ _ _ j] BITS_PER_USIZE_def)
next
  case (Suc n)
  let ?R = "bits ! (i div 64)" and ?W = "bits ! (16 + i div 64)" and ?E = "bits ! (32 + i div 64)"
  have j: "j < 64" "n = 64 - (j + 1)" using Suc.hyps(2) by simp_all
  show ?case
  proof (cases "i + j < nfds")
    case False
    then show ?thesis by (simp add: select_inner.simps [of _ _ _ _ _ _ j])
  next
    case True
    obtain k where k: "i = 64 * k" using assms by (auto simp: mod_eq_0_iff_dvd)
    have dm: "(i + j) div 64 = i div 64" "(i + j) mod 64 = j" using j(1) by (simp_all add: k)
    have up: "[i + j ..< min (i + 64) nfds] = (i + j) # [i + (j + 1) ..< min (i + 64) nfds]"
      using True j(1) by (simp add: upt_conv_Cons)
    have st: "select_step q bits (i + j) acc = select_fd q ?R ?W ?E (push_bit j 1) (i + j) acc"
      by (simp add: select_step_def dm)
    have "select_inner q nfds ?R ?W ?E i j acc =
        select_inner q nfds ?R ?W ?E i (j + 1) (select_step q bits (i + j) acc)"
      using True j(1) select_fd_skip [of ?R ?W ?E j] unfolding st
      by (subst select_inner.simps) (simp add: BITS_PER_USIZE_def Let_def)
    with Suc.hyps(1) [OF j(2)] up show ?thesis by simp
  qed
qed

lemma fold_id: "(\<And>x a. x \<in> set xs \<Longrightarrow> f x a = a) \<Longrightarrow> fold f xs a = a"
  by (induction xs arbitrary: a) auto

lemma select_outer_fold:
  assumes "i = 64 * p"
  shows "select_outer q nfds bits p i acc = fold (select_step q bits) [i ..< nfds] acc"
  using assms
proof (induction q nfds bits p i acc rule: select_outer.induct)
  case (1 q nfds bits p i acc)
  have p: "i div 64 = p" "i mod 64 = 0" "i + BITS_PER_USIZE = 64 * (p + 1)"
    using "1.prems" by (simp_all add: BITS_PER_USIZE_def)
  show ?case
  proof (cases "i < nfds")
    case False
    then show ?thesis by (simp add: select_outer.simps)
  next
    case True
    let ?all = "bits ! p OR bits ! (FD_SETSIZE_USIZES + p) OR bits ! (FD_SETSIZE_USIZES * 2 + p)"
    have sp: "[i ..< nfds] = [i ..< min (i + 64) nfds] @ [i + 64 ..< nfds]"
      using True upt_add_eq_append [of i "i + 64" "nfds - (i + 64)"] by (cases "i + 64 \<le> nfds") (simp_all add: min_def)
    let ?chunk = "fold (select_step q bits) [i ..< min (i + 64) nfds]"
    have sk: "?chunk acc = acc" if "?all = 0"
    proof (rule fold_id)
      fix fd a assume "fd \<in> set [i ..< min (i + 64) nfds]"
      then have "64 * p \<le> fd" "fd < 64 * Suc p" using "1.prems" by auto
      then have "fd div 64 = p" by (rule div_nat_eqI)
      with that show "select_step q bits fd a = a"
        unfolding select_step_def by (intro select_fd_skip) (simp add: FD_SETSIZE_USIZES_def)
    qed
    have inn: "select_inner q nfds (bits ! p) (bits ! (FD_SETSIZE_USIZES + p))
        (bits ! (FD_SETSIZE_USIZES * 2 + p)) i 0 acc = ?chunk acc"
      using select_inner_fold [OF p(2), of q nfds bits 0 acc] p by (simp add: FD_SETSIZE_USIZES_def)
    have next_i: "i + BITS_PER_USIZE = i + 64" by (simp add: BITS_PER_USIZE_def)
    have "select_outer q nfds bits p i acc =
        select_outer q nfds bits (p + 1) (i + BITS_PER_USIZE) (?chunk acc)"
      using True sk inn by (subst select_outer.simps) (simp add: Let_def)
    also have "... = fold (select_step q bits) [i + BITS_PER_USIZE ..< nfds] (?chunk acc)"
    proof (cases "?all = 0")
      case z: True
      show ?thesis using "1.IH"(1) [OF True refl refl refl refl z p(3)] sk [OF z] by simp
    next
      case nz: False
      show ?thesis using "1.IH"(2) [OF True refl refl refl refl nz p(3)] inn by simp
    qed
    finally show ?thesis using sp by (simp add: next_i)
  qed
qed

section \<open>What the scan computes\<close>

text \<open>The reference: the descriptors to be reported in each set.\<close>

definition ready_read :: "readiness \<Rightarrow> usize list \<Rightarrow> nat \<Rightarrow> nat set" where
  "ready_read q rs n =
     {fd. fd < n \<and> fd_isset rs fd \<and> (\<exists>st. q (word_of_nat fd) = Some (Inr st) \<and> ps_readable st)}"

definition ready_write :: "readiness \<Rightarrow> usize list \<Rightarrow> nat \<Rightarrow> nat set" where
  "ready_write q ws n =
     {fd. fd < n \<and> fd_isset ws fd \<and> (\<exists>st. q (word_of_nat fd) = Some (Inr st) \<and> ps_writable st)}"

definition ready_except :: "readiness \<Rightarrow> usize list \<Rightarrow> nat \<Rightarrow> nat set" where
  "ready_except q es n = {fd. fd < n \<and> fd_isset es fd \<and> (\<nexists>st. q (word_of_nat fd) = Some (Inr st))}"

definition ready_count :: "readiness \<Rightarrow> usize list \<times> usize list \<times> usize list \<Rightarrow> nat \<Rightarrow> nat" where
  "ready_count q u n =
     (case u of (rs, ws, es) \<Rightarrow>
        card (ready_read q rs n) + card (ready_write q ws n) + card (ready_except q es n))"

text \<open>A list of words that represents a set of descriptors.\<close>

definition set_repr :: "usize list \<Rightarrow> nat set \<Rightarrow> bool" where
  "set_repr ws X \<longleftrightarrow> length ws = 16 \<and> (\<forall>fd < 1024. fd_isset ws fd \<longleftrightarrow> fd \<in> X)"

lemma ready_Suc:
  "ready_read q rs (Suc n) =
     (if fd_isset rs n \<and> (\<exists>st. q (word_of_nat n) = Some (Inr st) \<and> ps_readable st)
      then insert n (ready_read q rs n) else ready_read q rs n)"
  "ready_write q rs (Suc n) =
     (if fd_isset rs n \<and> (\<exists>st. q (word_of_nat n) = Some (Inr st) \<and> ps_writable st)
      then insert n (ready_write q rs n) else ready_write q rs n)"
  "ready_except q rs (Suc n) =
     (if fd_isset rs n \<and> (\<nexists>st. q (word_of_nat n) = Some (Inr st))
      then insert n (ready_except q rs n) else ready_except q rs n)"
  by (auto simp: ready_read_def ready_write_def ready_except_def less_Suc_eq)

lemma ready_fresh [simp]:
  "n \<notin> ready_read q rs n" "n \<notin> ready_write q rs n" "n \<notin> ready_except q rs n"
  "finite (ready_read q rs n)" "finite (ready_write q rs n)" "finite (ready_except q rs n)"
  by (simp_all add: ready_read_def ready_write_def ready_except_def)

lemma set_repr_set_fd:
  assumes "set_repr ws X" "n < 1024"
  shows "set_repr (set_fd n ws) (insert n X)"
  unfolding set_repr_def
proof (intro conjI allI impI)
  show "length (set_fd n ws) = 16" using assms(1) by (simp add: set_repr_def set_fd_def)
  fix fd :: nat assume "fd < 1024"
  have l: "n div 64 < length ws" using assms by (simp add: set_repr_def)
  have eq: "fd = n \<longleftrightarrow> fd div 64 = n div 64 \<and> fd mod 64 = n mod 64" by (metis div_mult_mod_eq)
  have "fd_isset (set_fd n ws) fd \<longleftrightarrow> fd = n \<or> fd_isset ws fd"
  proof (cases "fd div 64 = n div 64")
    case True
    then show ?thesis using l eq
      by (auto simp: fd_isset_def set_fd_def BITS_PER_USIZE_def bit_or_iff bit_exp_iff)
  next
    case False
    then show ?thesis by (auto simp: fd_isset_def set_fd_def BITS_PER_USIZE_def)
  qed
  then show "fd_isset (set_fd n ws) fd \<longleftrightarrow> fd \<in> insert n X"
    using assms(1) \<open>fd < 1024\<close> by (auto simp: set_repr_def)
qed

lemma set_repr_empty: "set_repr (replicate FD_SETSIZE_USIZES 0) {}"
  by (auto simp: set_repr_def fd_isset_def FD_SETSIZE_USIZES_def)

definition acc_ok :: "readiness \<Rightarrow> usize list \<times> usize list \<times> usize list \<Rightarrow> nat \<Rightarrow> sel_acc \<Rightarrow> bool" where
  "acc_ok q u n acc \<longleftrightarrow>
     (case u of (rs, ws, es) \<Rightarrow>
        set_repr (result_read acc) (ready_read q rs n)
        \<and> set_repr (result_write acc) (ready_write q ws n)
        \<and> set_repr (result_except acc) (ready_except q es n)
        \<and> res_num acc = ready_count q u n)"

lemma select_step_ok:
  assumes "acc_ok q (rs, ws, es) n acc" "n < 1024" "length rs = 16" "length ws = 16"
  shows "acc_ok q (rs, ws, es) (Suc n) (select_step q (rs @ ws @ es) n acc)"
proof -
  have n: "n div 64 < 16" using assms(2) by simp
  have b: "(rs @ ws @ es) ! (n div 64) = rs ! (n div 64)"
    "(rs @ ws @ es) ! (16 + n div 64) = ws ! (n div 64)"
    "(rs @ ws @ es) ! (32 + n div 64) = es ! (n div 64)"
    using n assms(3,4) by (simp_all add: nth_append)
  have i: "xs ! (n div 64) AND 2 ^ (n mod 64) = 0 \<longleftrightarrow> \<not> fd_isset xs n" for xs
    using and_bit [of "xs ! (n div 64)" "n mod 64"] by (auto simp: fd_isset_def)
  note s = assms(1) [unfolded acc_ok_def prod.case]
  note R = set_repr_set_fd [OF conjunct1 [OF s] assms(2)]
  note W = set_repr_set_fd [OF conjunct1 [OF conjunct2 [OF s]] assms(2)]
  note X = set_repr_set_fd [OF conjunct1 [OF conjunct2 [OF conjunct2 [OF s]]] assms(2)]
  show ?thesis
  proof (cases "\<exists>st. q (word_of_nat n) = Some (Inr st)")
    case True
    then obtain st where st: "q (word_of_nat n) = Some (Inr st)" by blast
    show ?thesis
      using s R W st
      by (cases "fd_isset rs n \<and> ps_readable st"; cases "fd_isset ws n \<and> ps_writable st")
        (auto simp: select_step_def select_fd_def b i acc_ok_def ready_Suc ready_count_def Let_def)
  next
    case False
    then have "select_step q (rs @ ws @ es) n acc =
        (if fd_isset es n then acc\<lparr>result_except := set_fd n (result_except acc), res_num := res_num acc + 1\<rparr>
         else acc)"
      by (auto simp: select_step_def select_fd_def b i split: option.split sum.split)
    then show ?thesis using s X False by (auto simp: acc_ok_def ready_Suc ready_count_def)
  qed
qed

lemma select_scan_ok:
  assumes "length rs = 16" "length ws = 16" "n \<le> 1024"
  shows "acc_ok q (rs, ws, es) n (select_outer q n (rs @ ws @ es) 0 0 acc_empty)"
proof -
  have "acc_ok q (rs, ws, es) m (fold (select_step q (rs @ ws @ es)) [0 ..< m] acc_empty)" if "m \<le> 1024" for m
    using that
  proof (induction m)
    case 0
    have "ready_read q rs 0 = {}" "ready_write q ws 0 = {}" "ready_except q es 0 = {}"
      by (simp_all add: ready_read_def ready_write_def ready_except_def)
    then show ?case by (simp add: acc_ok_def acc_empty_def ready_count_def set_repr_empty)
  next
    case (Suc m)
    then show ?case using select_step_ok [of q rs ws es m] assms by simp
  qed
  from this [OF assms(3)] show ?thesis by (simp add: select_outer_fold [of 0 0])
qed

text \<open>Copying keeps the bits below the number of descriptors and clears the words beyond.\<close>

lemma copied_isset:
  assumes "length ws = 16" "n \<le> 1024" "fd < n"
  shows "fd_isset (take (div_ceil n 64) ws @ replicate (16 - div_ceil n 64) 0) fd = fd_isset ws fd"
proof -
  have "fd div 64 < div_ceil n 64" using assms(3) by (simp add: div_ceil_def less_eq_div_iff_mult_less_eq)
  moreover have "fd div 64 < 16" using assms(2,3) by (simp add: div_less_iff_less_mult)
  ultimately show ?thesis using assms(1) by (simp add: fd_isset_def nth_append)
qed

lemma copied_ready:
  assumes "length ws = 16" "n \<le> 1024"
  defines "c \<equiv> take (div_ceil n 64) ws @ replicate (16 - div_ceil n 64) 0"
  shows "ready_read q c n = ready_read q ws n" "ready_write q c n = ready_write q ws n"
    "ready_except q c n = ready_except q ws n" "length c = 16"
proof -
  show "ready_read q c n = ready_read q ws n" "ready_write q c n = ready_write q ws n"
    "ready_except q c n = ready_except q ws n"
    using copied_isset [OF assms(1,2)]
    by (auto simp: c_def ready_read_def ready_write_def ready_except_def)
  have "div_ceil n 64 \<le> 16" using assms(2) by (simp add: div_ceil_def)
  then show "length c = 16" using assms(1) by (simp add: c_def)
qed

text \<open>One round on three accessible sets.\<close>

lemma select_round:
  assumes "fd_sets_from n (Some (Inr rs)) (Some (Inr ws)) (Some (Inr es)) = Inr s"
    and "length rs = 16" "length ws = 16" "length es = 16" "n \<le> 1024"
  shows "\<exists>rs' ws' es'. select_poll_all s q (Some (Inr a), Some (Inr b), Some (Inr c)) =
           (Inr (if ready_count q (rs, ws, es) n > 0 then Some (ready_count q (rs, ws, es) n) else None),
            (Some (Inr rs'), Some (Inr ws'), Some (Inr es')))
         \<and> set_repr rs' (ready_read q rs n) \<and> set_repr ws' (ready_write q ws n)
         \<and> set_repr es' (ready_except q es n)"
proof -
  let ?c = "\<lambda>xs. take (div_ceil n 64) xs @ replicate (16 - div_ceil n 64) (0 :: usize)"
  have s: "s = \<lparr>sel_nfds = n, sel_bits = ?c rs @ ?c ws @ ?c es\<rparr>"
    using assms(1,5)
    by (auto simp: fd_sets_from_def copy_from_fd_set_def FD_SETSIZE_def FD_SETSIZE_USIZES_def
        BITS_PER_USIZE_def Let_def)
  note r = copied_ready [OF assms(2,5)] and w = copied_ready [OF assms(3,5)] and e = copied_ready [OF assms(4,5)]
  have "acc_ok q (?c rs, ?c ws, ?c es) n (select_outer q n (?c rs @ ?c ws @ ?c es) 0 0 acc_empty)"
    by (rule select_scan_ok [OF r(4) w(4) assms(5)])
  then show ?thesis
    by (simp add: acc_ok_def ready_count_def r w e s select_poll_all_def Let_def write_fd_sets_def
        write_fd_set_def)
qed

lemma ready_count_sets: "ready_count q (rs, ws, es) n = 0 \<longleftrightarrow>
    ready_read q rs n = {} \<and> ready_write q ws n = {} \<and> ready_except q es n = {}"
  by (auto simp: ready_count_def)

text \<open>C10. \<open>sys_select\<close> on three accessible sets of 1024 bits, up to 1024 descriptors and no deadline
  or one that does not overflow. It waits through every round in which no requested descriptor is
  ready and the deadline has not passed. In the first other round its answer is the number of
  reports, 0 at the deadline, and the three sets then hold exactly the requested descriptors below
  \<open>nfds\<close> that are readable, that are writable, and that cannot be polled; the word by word scan
  misses none and counts each once.\<close>

theorem sys_select_spec:
  assumes "0 \<le> sint nfds" "sint nfds \<le> 1024" "length rs = 16" "length ws = 16" "length es = 16"
    and tm: "(case timeout of None \<Rightarrow> Inr None
              | Some x \<Rightarrow> rbind x (\<lambda>tv. rbind (timeval_deadline wall tv) (\<lambda>d. Inr (Some d)))) = Inr deadline"
    and quiet: "\<forall>(q, now) \<in> set pre. ready_count q (rs, ws, es) (nat (sint nfds)) = 0
                  \<and> (\<forall>d. deadline = Some d \<longrightarrow> now < d)"
  shows "sys_select wall nfds (Some (Inr rs)) (Some (Inr ws)) (Some (Inr es)) timeout pre = None
       \<and> (ready_count q (rs, ws, es) (nat (sint nfds)) > 0 \<or> (\<exists>d. deadline = Some d \<and> d \<le> now) \<longrightarrow>
          (\<exists>rs' ws' es'.
             sys_select wall nfds (Some (Inr rs)) (Some (Inr ws)) (Some (Inr es)) timeout (pre @ (q, now) # post) =
               Some (Inr (word_of_nat (card (ready_read q rs (nat (sint nfds)))
                            + card (ready_write q ws (nat (sint nfds)))
                            + card (ready_except q es (nat (sint nfds))))),
                     (Some (Inr rs'), Some (Inr ws'), Some (Inr es')))
             \<and> (\<forall>fd < 1024. (fd_isset rs' fd \<longleftrightarrow> fd \<in> ready_read q rs (nat (sint nfds)))
                           \<and> (fd_isset ws' fd \<longleftrightarrow> fd \<in> ready_write q ws (nat (sint nfds)))
                           \<and> (fd_isset es' fd \<longleftrightarrow> fd \<in> ready_except q es (nat (sint nfds))))))"
proof -
  define n where "n = nat (sint nfds)"
  define U :: "(user_set \<times> user_set \<times> user_set) set"
    where "U = {u. \<exists>a b c. u = (Some (Inr a), Some (Inr b), Some (Inr c))}"
  have n: "n \<le> 1024" "unat (scast nfds :: usize) = n"
  proof -
    show "n \<le> 1024" using assms(2) by (simp add: n_def)
    have "sint (scast nfds :: usize) = sint nfds" by (simp add: sint_up_scast is_up)
    then show "unat (scast nfds :: usize) = n" using assms(1) unat_sint_nonneg [of "scast nfds :: usize"] by (simp add: n_def)
  qed
  obtain s where s: "fd_sets_from n (Some (Inr rs)) (Some (Inr ws)) (Some (Inr es)) = Inr s"
    by (auto simp: fd_sets_from_def copy_from_fd_set_def Let_def)
  note round = select_round [OF s assms(3-5) n(1)]
  let ?z = "replicate FD_SETSIZE_USIZES (0 :: usize)"
  let ?u = "(Some (Inr ?z), Some (Inr ?z), Some (Inr ?z)) :: user_set \<times> user_set \<times> user_set"
  have sys: "sys_select wall nfds (Some (Inr rs)) (Some (Inr ws)) (Some (Inr es)) timeout rounds =
      poll_result (poll_with_timeout deadline (select_poll_all s) rounds ?u)" for rounds
    using assms(1) n s tm
    by (simp add: sys_select_def select_with_def FD_SETSIZE_def clear_fd_sets_def write_fd_sets_def
        write_fd_set_def Let_def)
  have stay: "\<exists>u' \<in> U. select_poll_all s q u = (Inr None, u')"
    if "ready_count q (rs, ws, es) n = 0" "u \<in> U" for q u
    using that round [of q] unfolding U_def by fastforce
  have uz: "?u \<in> U" by (auto simp: U_def)
  have skip: "\<exists>u \<in> U. poll_with_timeout deadline (select_poll_all s) (pre @ rounds) ?u =
      poll_with_timeout deadline (select_poll_all s) rounds u" for rounds
    by (rule poll_with_timeout_skip) (use quiet stay uz in \<open>auto simp: n_def\<close>)
  have "sys_select wall nfds (Some (Inr rs)) (Some (Inr ws)) (Some (Inr es)) timeout pre = None"
    using skip [of "[]"] by (auto simp: sys poll_result_def)
  moreover have "\<exists>rs' ws' es'.
      sys_select wall nfds (Some (Inr rs)) (Some (Inr ws)) (Some (Inr es)) timeout (pre @ (q, now) # post) =
        Some (Inr (word_of_nat (ready_count q (rs, ws, es) n)), (Some (Inr rs'), Some (Inr ws'), Some (Inr es')))
      \<and> set_repr rs' (ready_read q rs n) \<and> set_repr ws' (ready_write q ws n) \<and> set_repr es' (ready_except q es n)"
    if c: "ready_count q (rs, ws, es) n > 0 \<or> (\<exists>d. deadline = Some d \<and> d \<le> now)"
  proof -
    from skip [of "(q, now) # post"] obtain a b c where
      e: "poll_with_timeout deadline (select_poll_all s) (pre @ (q, now) # post) ?u =
        poll_with_timeout deadline (select_poll_all s) ((q, now) # post) (Some (Inr a), Some (Inr b), Some (Inr c))"
      unfolding U_def by auto
    from round [of q a b c] c show ?thesis
      unfolding sys e by (fastforce simp: poll_result_def split: option.splits)
  qed
  ultimately show ?thesis
    unfolding n_def [symmetric] ready_count_def set_repr_def prod.case by blast
qed

theorem sys_select_spec_witness:
  "let q = (\<lambda>_. Some (Inr \<lparr>ps_readable = True, ps_writable = False\<rparr>)) in
   \<exists>rs' ws' es'. sys_select 0 2 (Some (Inr (replicate 16 3))) (Some (Inr (replicate 16 1)))
       (Some (Inr (replicate 16 0))) None [(q, 0)] =
     Some (Inr (word_of_nat (card (ready_read q (replicate 16 3) 2) + card (ready_write q (replicate 16 1) 2)
             + card (ready_except q (replicate 16 0) 2))),
           (Some (Inr rs'), Some (Inr ws'), Some (Inr es')))
     \<and> fd_isset rs' 0 \<and> fd_isset rs' 1 \<and> \<not> fd_isset rs' 2 \<and> \<not> fd_isset ws' 0"
proof -
  let ?q = "\<lambda>_ :: i32. Some (Inr \<lparr>ps_readable = True, ps_writable = False\<rparr>) :: poll_state res option"
  have r: "0 \<in> ready_read ?q (replicate 16 3) 2" "1 \<in> ready_read ?q (replicate 16 3) 2"
    "2 \<notin> ready_read ?q (replicate 16 3) 2" "0 \<notin> ready_write ?q (replicate 16 1) 2"
    by (simp_all add: ready_read_def ready_write_def fd_isset_def bit_numeral_rec)
  have c: "0 < ready_count ?q (replicate 16 3, replicate 16 1, replicate 16 0) 2"
    using r(1) by (simp add: ready_count_def card_gt_0_iff) blast
  show ?thesis
    using sys_select_spec [where nfds = 2 and rs = "replicate 16 3" and ws = "replicate 16 1" and
        es = "replicate 16 0" and timeout = None and deadline = None and pre = "[]" and q = ?q and now = 0 and
        post = "[]" and wall = 0] r c
    by (fastforce simp: Let_def)
qed

text \<open>A negative number of seconds in the timeout of \<open>sys_select\<close>, as far back as the clock has
  come, is read as an unsigned number and overflows the addition to the clock: the call panics
  instead of failing with an error, whatever the sets are.\<close>

theorem sys_select_negative_timeout_panics:
  assumes "0 \<le> sint nfds" "sint (tv_sec tv) < 0" "nat (- sint (tv_sec tv)) * 10 ^ 9 \<le> wall"
  shows "sys_select wall nfds r w e (Some (Inr tv)) rounds = Some (Inl Panic, (r, w, e))"
proof -
  have ge: "- (2 ^ 63) \<le> sint (tv_sec tv)" using sint_ge [of "tv_sec tv"] by simp
  then have u: "uint (tv_sec tv) = sint (tv_sec tv) + 2 ^ 64"
    using assms(2) mod_pos_pos_trivial [of "sint (tv_sec tv) + 2 ^ 64" "2 ^ 64"]
    by (simp add: uint_sint take_bit_eq_mod)
  then have "unat (tv_sec tv) + nat (- sint (tv_sec tv)) = 2 ^ 64"
    using assms(2) ge unfolding unat_eq_nat_uint u by simp
  then have "2 ^ 64 * 10 ^ 9 = unat (tv_sec tv) * 10 ^ 9 + nat (- sint (tv_sec tv)) * 10 ^ 9"
    by (metis add_mult_distrib)
  with assms(3) have "\<not> wall + unat (tv_sec tv) * 10 ^ 9 < 2 ^ 64 * 10 ^ 9" by linarith
  then show ?thesis
    using assms(1) by (simp add: sys_select_def select_with_def timeval_deadline_def dur_add_def)
qed

theorem sys_select_negative_timeout_panics_witness:
  "sys_select (10 ^ 9) 0 None None None (Some (Inr \<lparr>tv_sec = - 1, tv_usec = 0\<rparr>)) [] =
     Some (Inl Panic, (None, None, None))"
  by (rule sys_select_negative_timeout_panics) simp_all

end
