(* ===== verification/Bytes.thy ===== *)
theory Bytes
  imports Kernel_Prelude
begin

text \<open>Numbers as bytes in memory, and overwriting part of a buffer.\<close>

text \<open>The little-endian and the big-endian bytes of a number, and their values.\<close>

fun le_bytes :: "nat \<Rightarrow> nat \<Rightarrow> u8 list" where
  "le_bytes 0 x = []"
| "le_bytes (Suc n) x = word_of_nat x # le_bytes n (x div 256)"

fun le_val :: "u8 list \<Rightarrow> nat" where
  "le_val [] = 0"
| "le_val (b # bs) = unat b + 256 * le_val bs"

definition be_bytes :: "nat \<Rightarrow> nat \<Rightarrow> u8 list" where
  "be_bytes n x = rev (le_bytes n x)"

definition be_val :: "u8 list \<Rightarrow> nat" where
  "be_val bs = le_val (rev bs)"

definition blit :: "nat \<Rightarrow> 'a list \<Rightarrow> 'a list \<Rightarrow> 'a list" where
  "blit off xs ys = take off ys @ xs @ drop (off + length xs) ys"

lemma length_le_bytes [simp]: "length (le_bytes n x) = n"
  by (induction n arbitrary: x) auto

lemma length_be_bytes [simp]: "length (be_bytes n x) = n"
  by (simp add: be_bytes_def)

lemma length_blit: "off + length xs \<le> length ys \<Longrightarrow> length (blit off xs ys) = length ys"
  by (simp add: blit_def)

lemma le_val_le_bytes: "le_val (le_bytes n x) = x mod 256 ^ n"
proof (induction n arbitrary: x)
  case (Suc n)
  have "unat (word_of_nat x :: u8) = x mod 256" by (simp add: unat_of_nat)
  with Suc show ?case by (simp add: mod_mult2_eq)
qed simp

lemma be_val_be_bytes: "be_val (be_bytes n x) = x mod 256 ^ n"
  by (simp add: be_val_def be_bytes_def le_val_le_bytes)

lemma word_of_be_bytes:
  "word_of_nat (be_val (be_bytes 2 (unat p))) = (p :: u16)"
  "word_of_nat (be_val (be_bytes 4 (unat q))) = (q :: u32)"
  "word_of_nat (le_val (le_bytes 4 (unat q))) = (q :: u32)"
proof -
  have "unat p < 65536" "unat q < 4294967296"
    using unsigned_less [of p, where 'a = nat] unsigned_less [of q, where 'a = nat] by simp_all
  then show "word_of_nat (be_val (be_bytes 2 (unat p))) = p"
    "word_of_nat (be_val (be_bytes 4 (unat q))) = q" "word_of_nat (le_val (le_bytes 4 (unat q))) = q"
    by (simp_all add: be_val_be_bytes le_val_le_bytes)
qed

end
