(* ===== verification/Dirents.thy ===== *)
theory Dirents
  imports File_Like Bytes
begin

text \<open>
  Listing directories: \<open>DirBuffer\<close> and \<open>sys_getdents64\<close> of \<open>api/src/imp/fs/ctl.rs\<close>. The open directory
  of \<open>axfs\<close> is an abstract state \<open>'d\<close> with the operation \<open>rd\<close> that reads one entry, none at the end.
  Records are laid out as \<open>linux_dirent64\<close> in little-endian order: the name starts at offset 19 and
  records are aligned to 8 bytes. The bytes between the end of a name and the end of its record are
  left as they are in the buffer.
\<close>

record dir_buffer =
  buf :: "u8 list"
  offset :: nat

definition dir_buffer_new :: "u8 list \<Rightarrow> dir_buffer" where
  "dir_buffer_new b = \<lparr>buf = b, offset = 0\<rparr>"

definition remaining_space :: "dir_buffer \<Rightarrow> nat" where
  "remaining_space b = length (buf b) - offset b"

definition next_multiple_of :: "nat \<Rightarrow> nat \<Rightarrow> nat" where
  "next_multiple_of n a = (n + a - 1) div a * a"

definition NAME_OFFSET :: nat where
  "NAME_OFFSET = 19"

fun kind_code :: "file_kind \<Rightarrow> u8" where
  "kind_code KUnknown = 0" | "kind_code KFifo = 1" | "kind_code KChr = 2" | "kind_code KDir = 4"
| "kind_code KBlk = 6" | "kind_code KReg = 8" | "kind_code KLnk = 10" | "kind_code KSocket = 12"

definition dirent_header :: "nat \<Rightarrow> file_kind \<Rightarrow> u8 list" where
  "dirent_header reclen k = le_bytes 8 1 @ le_bytes 8 0 @ le_bytes 2 reclen @ [kind_code k]"

definition dirent_len :: "u8 list \<Rightarrow> nat" where
  "dirent_len name = next_multiple_of (NAME_OFFSET + length name + 1) 8"

definition write_entry :: "file_kind \<Rightarrow> u8 list \<Rightarrow> dir_buffer \<Rightarrow> bool \<times> dir_buffer" where
  "write_entry d_type name b =
     (let len = dirent_len name in
      if remaining_space b < len then (False, b)
      else (True, \<lparr>buf = blit (offset b) (dirent_header len d_type @ name @ [0]) (buf b),
                   offset = offset b + len\<rparr>))"

lemma dirent_len_bounds: "20 + length name \<le> dirent_len name" "0 < dirent_len name"
proof -
  have "(n :: nat) \<le> (n + 7) div 8 * 8" for n by linarith
  from this [of "20 + length name"] show "20 + length name \<le> dirent_len name"
    by (simp add: dirent_len_def next_multiple_of_def NAME_OFFSET_def)
  then show "0 < dirent_len name" by simp
qed

lemma length_dirent_header [simp]: "length (dirent_header n k) = 19"
  by (simp add: dirent_header_def)

lemma write_entry_space:
  assumes "write_entry k name b = (True, b')"
  shows "length (buf b') = length (buf b)" "offset b' = offset b + dirent_len name"
    "offset b' \<le> length (buf b)" "remaining_space b' < remaining_space b"
proof -
  have r: "dirent_len name \<le> remaining_space b"
    and b': "b' = \<lparr>buf = blit (offset b) (dirent_header (dirent_len name) k @ name @ [0]) (buf b),
                  offset = offset b + dirent_len name\<rparr>"
    using assms by (auto simp: write_entry_def Let_def split: if_splits)
  show "length (buf b') = length (buf b)"
    using r b' dirent_len_bounds(1) [of name] by (simp add: length_blit remaining_space_def)
  then show "offset b' = offset b + dirent_len name" "offset b' \<le> length (buf b)"
    "remaining_space b' < remaining_space b"
    using r b' dirent_len_bounds [of name] by (auto simp: remaining_space_def)
qed

section \<open>Listing\<close>

type_synonym 'd read_dir = "'d \<Rightarrow> (ax_error + dir_entry option) \<times> 'd"

text \<open>The loop: it ends because every entry takes room in the buffer.\<close>

function getdents_loop ::
  "'d read_dir \<Rightarrow> 'd \<Rightarrow> dir_buffer \<Rightarrow> dir_entry option res \<times> 'd \<times> dir_buffer" where
  "getdents_loop rd d b =
     (case rd d of
        (Inl e, d) \<Rightarrow> (Inl (FromAx e), d, b)
      | (Inr None, d) \<Rightarrow> (Inr None, d, b)
      | (Inr (Some ent), d) \<Rightarrow>
          (case write_entry (file_type_from (entry_type ent)) (entry_name ent) b of
             (False, b) \<Rightarrow> (Inr (Some ent), d, b)
           | (True, b) \<Rightarrow> getdents_loop rd d b))"
  by pat_completeness auto
termination
  by (relation "measure (\<lambda>(rd, d, b). remaining_space b)") (auto dest: write_entry_space(4) [OF sym])

declare getdents_loop.simps [simp del]

text \<open>\<open>sys_getdents64\<close>: the heap holds the directory with the entry kept from the last call. \<open>ubuf\<close> is
  the user's buffer; the result carries it as it is left.\<close>

definition sys_getdents64 ::
  "'d read_dir \<Rightarrow> ('t, arc) flatten_ops \<Rightarrow> 't \<Rightarrow> i32 \<Rightarrow> u8 list res \<Rightarrow> ('f, 'd, 's) heap
   \<Rightarrow> (isize \<times> u8 list) res \<times> ('f, 'd, 's) heap" where
  "sys_getdents64 rd F t fd ubuf h =
     (case ubuf of
        Inl e \<Rightarrow> (Inl e, h)
      | Inr b0 \<Rightarrow>
          (case directory_from_fd F h t fd of
             Inl e \<Rightarrow> (Inl e, h)
           | Inr (a, d, path, last_dirent) \<Rightarrow>
               (case (case last_dirent of
                        None \<Rightarrow> (True, dir_buffer_new b0)
                      | Some ent \<Rightarrow>
                          write_entry (file_type_from (entry_type ent)) (entry_name ent) (dir_buffer_new b0)) of
                  (False, b) \<Rightarrow> (Inl (Errno EINVAL), h)
                | (True, b) \<Rightarrow>
                    (case getdents_loop rd d b of
                       (Inl e, d, b) \<Rightarrow> (Inl e, h(a \<mapsto> FDirectory d path None))
                     | (Inr kept, d, b) \<Rightarrow>
                         let h = h(a \<mapsto> FDirectory d path kept) in
                         if kept \<noteq> None \<and> offset b = 0 then (Inl (Errno EINVAL), h)
                         else (Inr (word_of_nat (offset b), buf b), h)))))"

section \<open>Nothing is lost\<close>

text \<open>\<open>rd\<close> reads the entries \<open>es d\<close> of an open directory one by one.\<close>

definition reads_entries :: "'d read_dir \<Rightarrow> ('d \<Rightarrow> dir_entry list) \<Rightarrow> bool" where
  "reads_entries rd es \<longleftrightarrow>
     (\<forall>d. case es d of
            [] \<Rightarrow> \<exists>d'. rd d = (Inr None, d') \<and> es d' = []
          | e # rest \<Rightarrow> \<exists>d'. rd d = (Inr (Some e), d') \<and> es d' = rest)"

text \<open>A record of the buffer that represents an entry.\<close>

definition dirent_repr :: "u8 list \<Rightarrow> dir_entry \<Rightarrow> bool" where
  "dirent_repr c e \<longleftrightarrow>
     length c = dirent_len (entry_name e) \<and>
     take (20 + length (entry_name e)) c =
       dirent_header (dirent_len (entry_name e)) (file_type_from (entry_type e)) @ entry_name e @ [0]"

definition records :: "dir_buffer \<Rightarrow> dir_entry list \<Rightarrow> bool" where
  "records b es \<longleftrightarrow> offset b \<le> length (buf b) \<and>
     (\<exists>cs. take (offset b) (buf b) = concat cs \<and> list_all2 dirent_repr cs es)"

lemma records_new: "records (dir_buffer_new b) []"
  by (simp add: records_def dir_buffer_new_def)

lemma write_entry_records:
  assumes "records b es" "write_entry (file_type_from (entry_type e)) (entry_name e) b = (True, b')"
  shows "records b' (es @ [e])"
proof -
  let ?L = "dirent_len (entry_name e)"
  let ?x = "dirent_header ?L (file_type_from (entry_type e)) @ entry_name e @ [0]"
  obtain cs where cs: "take (offset b) (buf b) = concat cs" "list_all2 dirent_repr cs es"
    using assms(1) by (auto simp: records_def)
  note w = write_entry_space [OF assms(2)]
  have b': "buf b' = blit (offset b) ?x (buf b)"
    using assms(2) by (auto simp: write_entry_def Let_def split: if_splits)
  have l: "length ?x = 20 + length (entry_name e)" "length ?x \<le> ?L" "offset b \<le> length (buf b)"
    using dirent_len_bounds(1) [of "entry_name e"] assms(1) by (simp_all add: records_def)
  define c where "c = take ?L (drop (offset b) (buf b'))"
  have "take (length ?x) c = ?x"
    using l by (simp add: c_def b' blit_def take_drop min_def)
  moreover have "length c = ?L" using w(1-3) by (simp add: c_def)
  ultimately have "dirent_repr c e" using l(1) by (simp add: dirent_repr_def)
  moreover have "take (offset b') (buf b') = concat (cs @ [c])"
  proof -
    have "take (offset b) (blit (offset b) x ys) = take (offset b) ys" if "offset b \<le> length ys" for x ys :: "u8 list"
      using that by (simp add: blit_def)
    then have "take (offset b) (buf b') = concat cs" using l(3) cs(1) by (simp add: b')
    then show ?thesis unfolding w(2) take_add by (simp add: c_def)
  qed
  moreover have "list_all2 dirent_repr (cs @ [c]) (es @ [e])"
    using cs(2) \<open>dirent_repr c e\<close> by (intro list_all2_appendI) simp_all
  ultimately show ?thesis
    unfolding records_def using w(1,3) by (intro conjI exI [of _ "cs @ [c]"]) simp_all
qed

lemma getdents_loop_spec:
  assumes "reads_entries rd es" "records b out"
  shows "\<exists>kept d' b' new. getdents_loop rd d b = (Inr kept, d', b') \<and> records b' (out @ new)
           \<and> length (buf b') = length (buf b) \<and> offset b \<le> offset b'
           \<and> es d = new @ (case kept of None \<Rightarrow> [] | Some e \<Rightarrow> [e]) @ es d'
           \<and> (kept = None \<longrightarrow> es d' = []) \<and> (new \<noteq> [] \<longrightarrow> offset b < offset b')"
  using assms(2)
proof (induction "remaining_space b" arbitrary: b d out rule: less_induct)
  case less
  note rd = assms(1) [unfolded reads_entries_def, rule_format, of d]
  show ?case
  proof (cases "es d")
    case Nil
    with rd obtain d' where "rd d = (Inr None, d')" "es d' = []" by auto
    with Nil less.prems show ?thesis
      by (intro exI [of _ None] exI [of _ d'] exI [of _ b] exI [of _ "[]"]) (simp add: getdents_loop.simps)
  next
    case (Cons e rest)
    with rd obtain d' where d': "rd d = (Inr (Some e), d')" "es d' = rest" by auto
    obtain ok b1 where w: "write_entry (file_type_from (entry_type e)) (entry_name e) b = (ok, b1)" by fastforce
    show ?thesis
    proof (cases ok)
      case False
      then have "b1 = b" using w by (auto simp: write_entry_def Let_def split: if_splits)
      with False w d' Cons less.prems show ?thesis
        by (intro exI [of _ "Some e"] exI [of _ d'] exI [of _ b] exI [of _ "[]"]) (simp add: getdents_loop.simps)
    next
      case True
      have w1: "write_entry (file_type_from (entry_type e)) (entry_name e) b = (True, b1)" using w True by simp
      note sp = write_entry_space [OF w1]
      have "records b1 (out @ [e])" by (rule write_entry_records [OF less.prems w1])
      from less.hyps [OF sp(4) this, of d'] obtain kept d2 b2 new where
        r: "getdents_loop rd d' b1 = (Inr kept, d2, b2)" "records b2 ((out @ [e]) @ new)"
          "length (buf b2) = length (buf b1)" "offset b1 \<le> offset b2"
          "es d' = new @ (case kept of None \<Rightarrow> [] | Some e \<Rightarrow> [e]) @ es d2" "kept = None \<longrightarrow> es d2 = []"
        by blast
      have "offset b < offset b1" using sp(2) dirent_len_bounds(2) by simp
      with r sp(1) w True d' Cons show ?thesis
        by (intro exI [of _ kept] exI [of _ d2] exI [of _ b2] exI [of _ "e # new"])
          (simp add: getdents_loop.simps [of rd d])
    qed
  qed
qed

text \<open>The entry kept from the last call comes first.\<close>

lemma pending_written:
  assumes "(case pending of None \<Rightarrow> (True, dir_buffer_new b)
      | Some ent \<Rightarrow> write_entry (file_type_from (entry_type ent)) (entry_name ent) (dir_buffer_new b)) = (True, b1)"
  shows "records b1 (case pending of None \<Rightarrow> [] | Some e \<Rightarrow> [e])" "length (buf b1) = length b"
    "(case pending of None \<Rightarrow> [] | Some e \<Rightarrow> [e]) \<noteq> [] \<longrightarrow> 0 < offset b1"
proof -
  let ?o = "case pending of None \<Rightarrow> [] | Some e \<Rightarrow> [e]"
  have "records b1 ?o \<and> length (buf b1) = length b \<and> (?o \<noteq> [] \<longrightarrow> 0 < offset b1)"
  proof (cases pending)
    case None
    then show ?thesis using assms records_new [of b] by (auto simp: dir_buffer_new_def)
  next
    case (Some e)
    then have we: "write_entry (file_type_from (entry_type e)) (entry_name e) (dir_buffer_new b) = (True, b1)"
      using assms by simp
    show ?thesis
      using write_entry_records [OF records_new we] write_entry_space(1,2) [OF we] Some
        dirent_len_bounds(2) [of "entry_name e"]
      by (simp add: dir_buffer_new_def)
  qed
  then show "records b1 ?o" "length (buf b1) = length b" "?o \<noteq> [] \<longrightarrow> 0 < offset b1" by auto
qed

text \<open>C11. Reading a directory whose stream delivers its entries one by one. A call that succeeds
  returns the number of bytes it filled, at most the size of the buffer: these bytes are the records
  of the next entries of the directory, in order, beginning with the entry kept from the last call,
  and what it did not deliver is still to come; it returns 0 only when nothing is left. A call that
  fails because the next entry does not fit has lost nothing. So repeated calls list every entry
  exactly once.\<close>

theorem sys_getdents64_complete:
  assumes "reads_entries rd es" "directory_from_fd F h t fd = Inr (a, d, path, pending)"
    and "h a = Some (FDirectory d path pending)" "length b < 2 ^ 63"
  shows "case sys_getdents64 rd F t fd (Inr b) h of (r, h') \<Rightarrow>
           \<exists>d' pending' out. h' = h(a \<mapsto> FDirectory d' path pending')
             \<and> (case pending of None \<Rightarrow> [] | Some e \<Rightarrow> [e]) @ es d =
                 out @ (case pending' of None \<Rightarrow> [] | Some e \<Rightarrow> [e]) @ es d'
             \<and> (case r of
                   Inl e \<Rightarrow> e = Errno EINVAL \<and> out = []
                 | Inr (n, b') \<Rightarrow> unat n \<le> length b \<and> length b' = length b
                     \<and> (\<exists>cs. take (unat n) b' = concat cs \<and> list_all2 dirent_repr cs out)
                     \<and> (n = 0 \<longrightarrow> out = [] \<and> pending' = None \<and> es d' = []))"
proof -
  obtain ok b1 where w: "(case pending of None \<Rightarrow> (True, dir_buffer_new b)
      | Some ent \<Rightarrow> write_entry (file_type_from (entry_type ent)) (entry_name ent) (dir_buffer_new b)) = (ok, b1)"
    by fastforce
  show ?thesis
  proof (cases ok)
    case False
    have "h(a \<mapsto> FDirectory d path pending) = h" using assms(3) by (rule fun_upd_idem)
    then have r: "sys_getdents64 rd F t fd (Inr b) h = (Inl (Errno EINVAL), h(a \<mapsto> FDirectory d path pending))"
      using w False assms(2) by (simp add: sys_getdents64_def)
    show ?thesis
      unfolding r prod.case sum.case
    proof (intro exI conjI)
      show "h(a \<mapsto> FDirectory d path pending) = h(a \<mapsto> FDirectory d path pending)" by (rule refl)
      show "(case pending of None \<Rightarrow> [] | Some e \<Rightarrow> [e]) @ es d =
          [] @ (case pending of None \<Rightarrow> [] | Some e \<Rightarrow> [e]) @ es d" by simp
    qed (rule refl)+
  next
    case True
    define out0 where "out0 = (case pending of None \<Rightarrow> [] | Some e \<Rightarrow> [e])"
    note b1 = pending_written [OF w [unfolded eqTrueI [OF True]], folded out0_def]
    from getdents_loop_spec [OF assms(1) b1(1), of d] obtain kept d' b2 new where
      l: "getdents_loop rd d b1 = (Inr kept, d', b2)" "records b2 (out0 @ new)"
        "length (buf b2) = length (buf b1)" "offset b1 \<le> offset b2"
        "es d = new @ (case kept of None \<Rightarrow> [] | Some e \<Rightarrow> [e]) @ es d'" "kept = None \<longrightarrow> es d' = []"
        "new \<noteq> [] \<longrightarrow> offset b1 < offset b2"
      by blast
    let ?h = "h(a \<mapsto> FDirectory d' path kept)"
    have sys: "sys_getdents64 rd F t fd (Inr b) h =
        (if kept \<noteq> None \<and> offset b2 = 0 then (Inl (Errno EINVAL), ?h)
         else (Inr (word_of_nat (offset b2), buf b2), ?h))"
      using w True assms(2) l(1) by (simp add: sys_getdents64_def Let_def)
    have z: "offset b2 = 0 \<Longrightarrow> out0 @ new = []" using b1(3) l(4,7) by auto
    have o: "offset b2 \<le> length b" using l(2,3) b1(2) by (simp add: records_def)
    then have u: "unat (word_of_nat (offset b2) :: isize) = offset b2"
      using assms(4) by (simp add: unat_of_nat)
    have e: "(case pending of None \<Rightarrow> [] | Some e \<Rightarrow> [e]) @ es d =
        (out0 @ new) @ (case kept of None \<Rightarrow> [] | Some e \<Rightarrow> [e]) @ es d'"
      unfolding l(5) out0_def by simp
    show ?thesis
    proof (cases "kept \<noteq> None \<and> offset b2 = 0")
      case True
      then have r: "sys_getdents64 rd F t fd (Inr b) h = (Inl (Errno EINVAL), ?h)" using sys by simp
      show ?thesis
        unfolding r prod.case sum.case
      proof (intro exI conjI)
        show "?h = h(a \<mapsto> FDirectory d' path kept)" by (rule refl)
        show "(case pending of None \<Rightarrow> [] | Some e \<Rightarrow> [e]) @ es d =
            (out0 @ new) @ (case kept of None \<Rightarrow> [] | Some e \<Rightarrow> [e]) @ es d'" by (rule e)
        show "out0 @ new = []" using True z by blast
      qed (rule refl)
    next
      case False
      have n0: "(word_of_nat (offset b2) :: isize) = 0 \<longleftrightarrow> offset b2 = 0" unfolding word_unat_eq_iff u by simp
      have r: "sys_getdents64 rd F t fd (Inr b) h = (Inr (word_of_nat (offset b2), buf b2), ?h)"
        using sys False by simp
      obtain cs where cs: "take (offset b2) (buf b2) = concat cs" "list_all2 dirent_repr cs (out0 @ new)"
        using l(2) by (auto simp: records_def)
      have fin: "offset b2 = 0 \<Longrightarrow> kept = None \<and> es d' = []" using False l(6) by blast
      show ?thesis
        unfolding r prod.case sum.case u n0
      proof (intro exI conjI impI)
        show "?h = h(a \<mapsto> FDirectory d' path kept)" by (rule refl)
        show "(case pending of None \<Rightarrow> [] | Some e \<Rightarrow> [e]) @ es d =
            (out0 @ new) @ (case kept of None \<Rightarrow> [] | Some e \<Rightarrow> [e]) @ es d'" by (rule e)
        show "offset b2 \<le> length b" by (rule o)
        show "length (buf b2) = length b" using l(3) b1(2) by simp
        show "take (offset b2) (buf b2) = concat cs" "list_all2 dirent_repr cs (out0 @ new)" by (fact cs)+
        assume "offset b2 = 0"
        then show "out0 @ new = []" "kept = None" "es d' = []" using z fin by blast+
      qed
    qed
  qed
qed

theorem sys_getdents64_complete_witness:
  "\<exists>d' pending' out.
     snd (sys_getdents64 (\<lambda>d. case d of [] \<Rightarrow> (Inr None, []) | x # xs \<Rightarrow> (Inr (Some x), xs)) map_objects [3 \<mapsto> 0] 3
        (Inr (replicate 30 0)) ([0 \<mapsto> FDirectory [] ''/'' None] :: (unit, dir_entry list, unit) heap)) =
       [0 \<mapsto> FDirectory d' ''/'' pending']
     \<and> [] = out @ (case pending' of None \<Rightarrow> [] | Some e \<Rightarrow> [e]) @ d'"
proof -
  let ?rd = "\<lambda>d :: dir_entry list. case d of [] \<Rightarrow> (Inr None, []) | x # xs \<Rightarrow> (Inr (Some x), xs)"
  let ?h = "[0 \<mapsto> FDirectory [] ''/'' None] :: (unit, dir_entry list, unit) heap"
  have r: "reads_entries ?rd (\<lambda>d. d)" by (simp add: reads_entries_def split: list.split)
  have f: "directory_from_fd map_objects ?h [3 \<mapsto> 0] 3 = Inr (0, [], ''/'', None)"
    by (simp add: directory_from_fd_def obj_of_fd_def get_file_like_def fd_index_def)
  show ?thesis
    using sys_getdents64_complete [OF r f, of "replicate 30 0"]
    by (auto split: prod.splits)
qed

end
