(* ===== verification/Futex.thy ===== *)
theory Futex
  imports Btree_Map Time_Stat
begin

text \<open>
  Futexes: the table of \<open>core/src/futex.rs\<close> and the system call of \<open>api/src/imp/futex.rs\<close>. The wait
  queue of \<open>axtask\<close> is the parameter \<open>W\<close>. An \<open>Arc<WaitQueue>\<close> is an index into \<open>ft_queues\<close>; its strong
  count is the number of table entries and live guards that hold it. A call that blocks ends in
  \<open>Sleep\<close>; the task's guard then lives on until \<open>futex_resume\<close>.
\<close>

section \<open>Wait queues\<close>

record 'q waitq_ops =
  wq_new :: 'q
  wq_is_empty :: "'q \<Rightarrow> bool"
  wq_push :: "nat \<Rightarrow> 'q \<Rightarrow> 'q"
  wq_cancel :: "nat \<Rightarrow> 'q \<Rightarrow> 'q"
  wq_notify_one :: "'q \<Rightarrow> bool \<times> 'q"
  wq_requeue :: "nat \<Rightarrow> 'q \<Rightarrow> 'q \<Rightarrow> nat \<times> 'q \<times> 'q"
  wq_requeue_self :: "nat \<Rightarrow> 'q \<Rightarrow> nat \<times> 'q"

text \<open>What \<open>axtask\<close> documents: a queue holds waiting tasks in the order of arrival; notifying takes the
  oldest, requeueing moves up to a number of the oldest to another queue and counts them.\<close>

definition waitq_spec :: "'q waitq_ops \<Rightarrow> ('q \<Rightarrow> nat list) \<Rightarrow> bool" where
  "waitq_spec W ws \<longleftrightarrow>
     ws (wq_new W) = [] \<and>
     (\<forall>q. wq_is_empty W q \<longleftrightarrow> ws q = []) \<and>
     (\<forall>t q. ws (wq_push W t q) = ws q @ [t]) \<and>
     (\<forall>q. fst (wq_notify_one W q) \<longleftrightarrow> ws q \<noteq> []) \<and>
     (\<forall>q. ws (snd (wq_notify_one W q)) = tl (ws q)) \<and>
     (\<forall>n q q2. fst (wq_requeue W n q q2) = min n (length (ws q))
        \<and> ws (fst (snd (wq_requeue W n q q2))) = drop n (ws q)
        \<and> ws (snd (snd (wq_requeue W n q q2))) = ws q2 @ take n (ws q))"

section \<open>The futex table\<close>

record wait_queue_guard =
  guard_key :: usize
  guard_inner :: arc

record 'q futex_state =
  ft_table :: "(usize \<times> arc) list"
  ft_queues :: "'q list"
  ft_guards :: "wait_queue_guard list"

definition futex_table_new :: "'q futex_state" where
  "futex_table_new = \<lparr>ft_table = [], ft_queues = [], ft_guards = []\<rparr>"

definition futex_get :: "usize \<Rightarrow> 'q futex_state \<Rightarrow> wait_queue_guard option \<times> 'q futex_state" where
  "futex_get addr S =
     (case map_of (ft_table S) addr of
        None \<Rightarrow> (None, S)
      | Some wq \<Rightarrow>
          let g = \<lparr>guard_key = addr, guard_inner = wq\<rparr>
          in (Some g, S\<lparr>ft_guards := g # ft_guards S\<rparr>))"

definition get_or_insert :: "'q waitq_ops \<Rightarrow> usize \<Rightarrow> 'q futex_state \<Rightarrow> wait_queue_guard \<times> 'q futex_state" where
  "get_or_insert W addr S =
     (let (wq, S) =
        (case map_of (ft_table S) addr of
           Some wq \<Rightarrow> (wq, S)
         | None \<Rightarrow>
             (length (ft_queues S),
              S\<lparr>ft_table := bt_insert addr (length (ft_queues S)) (ft_table S),
                ft_queues := ft_queues S @ [wq_new W]\<rparr>));
        g = \<lparr>guard_key = addr, guard_inner = wq\<rparr>
      in (g, S\<lparr>ft_guards := g # ft_guards S\<rparr>))"

definition strong_count :: "'q futex_state \<Rightarrow> arc \<Rightarrow> nat" where
  "strong_count S a = count_list (map snd (ft_table S)) a + count_list (map guard_inner (ft_guards S)) a"

text \<open>\<open>WaitQueueGuard::drop\<close>: the guard's own reference still counts while the destructor runs.\<close>

definition drop_guard :: "'q waitq_ops \<Rightarrow> wait_queue_guard \<Rightarrow> 'q futex_state \<Rightarrow> 'q futex_state" where
  "drop_guard W g S =
     (let S = (if strong_count S (guard_inner g) = 1 \<and> wq_is_empty W (ft_queues S ! guard_inner g)
               then S\<lparr>ft_table := bt_remove (guard_key g) (ft_table S)\<rparr> else S)
      in S\<lparr>ft_guards := remove1 g (ft_guards S)\<rparr>)"

section \<open>The system call\<close>

datatype futex_out = Done "isize res" | Sleep wait_queue_guard "time_value option"

definition FUTEX_WAIT :: u32 where "FUTEX_WAIT = 0"
definition FUTEX_WAKE :: u32 where "FUTEX_WAKE = 1"
definition FUTEX_REQUEUE :: u32 where "FUTEX_REQUEUE = 3"
definition FUTEX_CMP_REQUEUE :: u32 where "FUTEX_CMP_REQUEUE = 4"
definition FUTEX_CMD_MASK :: u32 where "FUTEX_CMD_MASK = 0xFFFFFE7F"

text \<open>The comparison of FUTEX_WAIT and what follows it are two steps: nothing the caller holds keeps
  other tasks of the process away in between.\<close>

definition futex_wait_check :: "u32 \<Rightarrow> u32 res \<Rightarrow> unit res" where
  "futex_wait_check val uval = rbind uval (\<lambda>v. if v \<noteq> val then Inl (Errno EAGAIN) else Inr ())"

definition futex_wait_enqueue ::
  "'q waitq_ops \<Rightarrow> nat \<Rightarrow> usize \<Rightarrow> timespec res option \<Rightarrow> 'q futex_state \<Rightarrow> futex_out \<times> 'q futex_state" where
  "futex_wait_enqueue W tid addr timeout S =
     (let (wq, S) = get_or_insert W addr S in
      case (case timeout of
              None \<Rightarrow> Inr None
            | Some t \<Rightarrow> rbind t (\<lambda>t. rbind (timespec_to_time_value t) (\<lambda>d. Inr (Some d)))) of
        Inl e \<Rightarrow> (Done (Inl e), drop_guard W wq S)
      | Inr d \<Rightarrow>
          (Sleep wq d,
           S\<lparr>ft_queues := (ft_queues S)[guard_inner wq := wq_push W tid (ft_queues S ! guard_inner wq)]\<rparr>))"

text \<open>The end of a sleep: a task whose time ran out leaves the queue it slept on; the guard is dropped
  and the call returns 0.\<close>

definition futex_resume ::
  "'q waitq_ops \<Rightarrow> nat \<Rightarrow> bool \<Rightarrow> wait_queue_guard \<Rightarrow> 'q futex_state \<Rightarrow> isize res \<times> 'q futex_state" where
  "futex_resume W tid timed_out wq S =
     (let a = guard_inner wq;
          S = (if timed_out then S\<lparr>ft_queues := (ft_queues S)[a := wq_cancel W tid (ft_queues S ! a)]\<rparr> else S)
      in (Inr 0, drop_guard W wq S))"

text \<open>\<open>for _ in 0..value { if !wq.notify_one(false) { break } count += 1 }\<close>.\<close>

primrec notify_loop :: "'q waitq_ops \<Rightarrow> nat \<Rightarrow> 'q \<Rightarrow> nat \<times> 'q" where
  "notify_loop W 0 q = (0, q)"
| "notify_loop W (Suc n) q =
     (case wq_notify_one W q of
        (False, q) \<Rightarrow> (0, q)
      | (True, q) \<Rightarrow> (case notify_loop W n q of (c, q) \<Rightarrow> (Suc c, q)))"

definition futex_notify :: "'q waitq_ops \<Rightarrow> u32 \<Rightarrow> wait_queue_guard \<Rightarrow> 'q futex_state \<Rightarrow> nat \<times> 'q futex_state" where
  "futex_notify W val wq S =
     (case notify_loop W (unat val) (ft_queues S ! guard_inner wq) of
        (c, q) \<Rightarrow> (c, S\<lparr>ft_queues := (ft_queues S)[guard_inner wq := q]\<rparr>))"

definition futex_requeue ::
  "'q waitq_ops \<Rightarrow> nat \<Rightarrow> wait_queue_guard \<Rightarrow> wait_queue_guard \<Rightarrow> 'q futex_state \<Rightarrow> nat \<times> 'q futex_state" where
  "futex_requeue W n wq wq2 S =
     (let a = guard_inner wq; b = guard_inner wq2; qs = ft_queues S in
      if a = b then
        (case wq_requeue_self W n (qs ! a) of (c, q) \<Rightarrow> (c, S\<lparr>ft_queues := qs[a := q]\<rparr>))
      else
        (case wq_requeue W n (qs ! a) (qs ! b) of (c, q, q2) \<Rightarrow> (c, S\<lparr>ft_queues := qs[a := q, b := q2]\<rparr>)))"

definition futex_wake :: "'q waitq_ops \<Rightarrow> usize \<Rightarrow> u32 \<Rightarrow> 'q futex_state \<Rightarrow> futex_out \<times> 'q futex_state" where
  "futex_wake W addr val S =
     (case futex_get addr S of
        (None, S) \<Rightarrow> (Done (Inr 0), S)
      | (Some wq, S) \<Rightarrow>
          (case futex_notify W val wq S of
             (c, S) \<Rightarrow> (Done (Inr (word_of_nat c)), drop_guard W wq S)))"

definition futex_wake_requeue ::
  "'q waitq_ops \<Rightarrow> usize \<Rightarrow> u32 \<Rightarrow> u32 \<Rightarrow> usize \<Rightarrow> 'q futex_state \<Rightarrow> futex_out \<times> 'q futex_state" where
  "futex_wake_requeue W addr val value2 addr2 S =
     (let (wq, S) = futex_get addr S;
          (wq2, S) = get_or_insert W addr2 S
      in case wq of
           None \<Rightarrow> (Done (Inr 0), drop_guard W wq2 S)
         | Some wq \<Rightarrow>
             let (c, S) = futex_notify W val wq S;
                 (m, S) = (if c = unat val then futex_requeue W (unat value2) wq wq2 S else (0, S))
             in (Done (Inr (word_of_nat (c + m))), drop_guard W wq2 (drop_guard W wq S)))"

text \<open>\<open>uval\<close> is what reading the futex word gives, \<open>timeout_addr\<close> the fourth argument as a number and
  \<open>timeout\<close> what it points to (\<open>None\<close> for a null pointer).\<close>

definition sys_futex ::
  "'q waitq_ops \<Rightarrow> nat \<Rightarrow> usize \<Rightarrow> u32 res \<Rightarrow> u32 \<Rightarrow> u32 \<Rightarrow> usize \<Rightarrow> timespec res option \<Rightarrow> usize \<Rightarrow> u32
   \<Rightarrow> 'q futex_state \<Rightarrow> futex_out \<times> 'q futex_state" where
  "sys_futex W tid addr uval futex_op val timeout_addr timeout addr2 value3 S =
     (let command = futex_op AND FUTEX_CMD_MASK in
      if command = FUTEX_WAIT then
        (case futex_wait_check val uval of
           Inl e \<Rightarrow> (Done (Inl e), S)
         | Inr _ \<Rightarrow> futex_wait_enqueue W tid addr timeout S)
      else if command = FUTEX_WAKE then futex_wake W addr val S
      else if command = FUTEX_REQUEUE \<or> command = FUTEX_CMP_REQUEUE then
        (case (if command = FUTEX_CMP_REQUEUE then futex_wait_check value3 uval else Inr ()) of
           Inl e \<Rightarrow> (Done (Inl e), S)
         | Inr _ \<Rightarrow> futex_wake_requeue W addr val (ucast timeout_addr) addr2 S)
      else (Done (Inl (Errno ENOSYS)), S))"

section \<open>Runs\<close>

text \<open>A step is a call of any task, either half of a FUTEX_WAIT, or the end of a sleep.\<close>

inductive futex_step :: "'q waitq_ops \<Rightarrow> 'q futex_state \<Rightarrow> 'q futex_state \<Rightarrow> bool" for W where
  call: "sys_futex W tid addr uval fop val ta tm addr2 value3 S = (r, T) \<Longrightarrow> futex_step W S T"
| enqueue: "futex_wait_enqueue W tid addr tm S = (r, T) \<Longrightarrow> futex_step W S T"
| resume: "g \<in> set (ft_guards S) \<Longrightarrow> futex_resume W tid b g S = (r, T) \<Longrightarrow> futex_step W S T"

definition futex_reachable :: "'q waitq_ops \<Rightarrow> 'q futex_state \<Rightarrow> bool" where
  "futex_reachable W = (futex_step W)\<^sup>*\<^sup>* futex_table_new"

definition futex_ok :: "'q futex_state \<Rightarrow> bool" where
  "futex_ok S \<longleftrightarrow>
     bt_ok (ft_table S) \<and> distinct (map snd (ft_table S)) \<and>
     (\<forall>(k, a) \<in> set (ft_table S). a < length (ft_queues S)) \<and>
     (\<forall>g \<in> set (ft_guards S). map_of (ft_table S) (guard_key g) = Some (guard_inner g))"

text \<open>\<open>futex_ext S T\<close>: every entry of \<open>S\<close> is an entry of \<open>T\<close>.\<close>

definition futex_ext :: "'q futex_state \<Rightarrow> 'q futex_state \<Rightarrow> bool" where
  "futex_ext S T \<longleftrightarrow> futex_ok T \<and> map_of (ft_table S) \<subseteq>\<^sub>m map_of (ft_table T)"

definition waiters :: "('q \<Rightarrow> nat list) \<Rightarrow> 'q futex_state \<Rightarrow> usize \<Rightarrow> nat list" where
  "waiters ws S addr = (case map_of (ft_table S) addr of None \<Rightarrow> [] | Some a \<Rightarrow> ws (ft_queues S ! a))"

section \<open>Lemmas\<close>

lemma futex_ext_trans: "futex_ext S T \<Longrightarrow> futex_ext T U \<Longrightarrow> futex_ext S U"
  by (auto simp: futex_ext_def intro: map_le_trans)

lemma map_of_in_snd: "map_of m k = Some a \<Longrightarrow> a \<in> snd ` set m"
  by (drule map_of_SomeD) force

lemma bt_insert_distinct_snd:
  "distinct (map snd m) \<Longrightarrow> v \<notin> snd ` set m \<Longrightarrow> distinct (map snd (bt_insert k v m))"
proof (induction k v m rule: bt_insert.induct)
  case (2 k v k' v' m)
  have "snd ` set (bt_insert k v m) \<subseteq> insert v (snd ` set m)"
    by (induction k v m rule: bt_insert.induct) auto
  with 2 show ?case by auto
qed simp

lemma strong_count_guard:
  assumes "futex_ok S" "g \<in> set (ft_guards S)"
  shows "strong_count S (guard_inner g) \<ge> 2"
proof -
  have "guard_inner g \<in> snd ` set (ft_table S)"
    using assms by (auto simp: futex_ok_def intro: map_of_in_snd)
  then have "count_list (map snd (ft_table S)) (guard_inner g) \<noteq> 0" by (simp add: count_list_0_iff)
  moreover have "count_list (map guard_inner (ft_guards S)) (guard_inner g) \<noteq> 0"
    using assms(2) by (auto simp: count_list_0_iff)
  ultimately show ?thesis by (simp add: strong_count_def)
qed

lemma drop_guard_eq:
  assumes "futex_ok S" "g \<in> set (ft_guards S)"
  shows "drop_guard W g S = S\<lparr>ft_guards := remove1 g (ft_guards S)\<rparr>"
  using strong_count_guard [OF assms] by (simp add: drop_guard_def)

lemma futex_ext_drop:
  assumes "futex_ok S" "g \<in> set (ft_guards S)"
  shows "futex_ext S (drop_guard W g S)"
  using assms unfolding drop_guard_eq [OF assms]
  by (auto simp: futex_ext_def futex_ok_def dest: notin_set_remove1 [THEN contrapos_nn, rotated] intro: map_le_refl)

lemma futex_ext_queues:
  "futex_ok S \<Longrightarrow> length qs = length (ft_queues S) \<Longrightarrow> futex_ext S (S\<lparr>ft_queues := qs\<rparr>)"
  by (auto simp: futex_ext_def futex_ok_def)

lemma futex_get_ext:
  assumes "futex_ok S" "futex_get addr S = (g, T)"
  shows "futex_ext S T" "set (ft_guards S) \<subseteq> set (ft_guards T)" "g = Some g' \<Longrightarrow> g' \<in> set (ft_guards T)"
  using assms by (auto simp: futex_get_def futex_ext_def futex_ok_def Let_def split: option.splits)

lemma get_or_insert_ext:
  assumes ok: "futex_ok S" and eq: "get_or_insert W addr S = (g, T)"
  shows "futex_ext S T" "ft_guards T = g # ft_guards S"
    "map_of (ft_table T) addr = Some (guard_inner g)" "guard_key g = addr"
proof -
  have "futex_ext S T \<and> ft_guards T = g # ft_guards S \<and> map_of (ft_table T) addr = Some (guard_inner g)
      \<and> guard_key g = addr"
  proof (cases "map_of (ft_table S) addr")
    case (Some a)
    then show ?thesis using ok eq by (auto simp: get_or_insert_def futex_ext_def futex_ok_def Let_def)
  next
    case None
    let ?n = "length (ft_queues S)" and ?t = "bt_insert addr (length (ft_queues S)) (ft_table S)"
    have bt: "bt_ok (ft_table S)" using ok by (simp add: futex_ok_def)
    have look: "map_of ?t k = (if k = addr then Some ?n else map_of (ft_table S) k)" for k
      by (rule bt.lookup_insert [OF bt])
    have fresh: "?n \<notin> snd ` set (ft_table S)" using ok by (auto simp: futex_ok_def)
    have ins: "\<forall>(k, a) \<in> set ?t. a < Suc ?n"
      using bt.entries_insert [OF bt, of addr ?n] ok by (auto simp: futex_ok_def less_Suc_eq)
    have "distinct (map snd ?t)"
      using ok fresh by (auto simp: futex_ok_def intro: bt_insert_distinct_snd)
    then show ?thesis
      using eq ok None ins look bt.ok_insert [OF bt]
      by (auto simp: get_or_insert_def futex_ext_def futex_ok_def Let_def map_le_def)
  qed
  then show "futex_ext S T" "ft_guards T = g # ft_guards S"
    "map_of (ft_table T) addr = Some (guard_inner g)" "guard_key g = addr" by auto
qed

lemma futex_notify_ext:
  assumes "futex_ok S" "futex_notify W val g S = (c, T)"
  shows "futex_ext S T" "ft_guards T = ft_guards S"
  using assms by (auto simp: futex_notify_def intro!: futex_ext_queues split: prod.splits)

lemma futex_requeue_ext:
  assumes "futex_ok S" "futex_requeue W n g g2 S = (c, T)"
  shows "futex_ext S T" "ft_guards T = ft_guards S"
  using assms by (auto simp: futex_requeue_def Let_def intro!: futex_ext_queues split: prod.splits if_splits)

lemma futex_ok_of_ext: "futex_ext S T \<Longrightarrow> futex_ok T"
  by (simp add: futex_ext_def)

lemma futex_wait_enqueue_ext:
  assumes ok: "futex_ok S" and eq: "futex_wait_enqueue W tid addr tm S = (r, T)"
  shows "futex_ext S T"
proof -
  obtain g S1 where g: "get_or_insert W addr S = (g, S1)" by fastforce
  note e = get_or_insert_ext [OF ok g]
  then have ok1: "futex_ok S1" and "g \<in> set (ft_guards S1)" by (auto intro: futex_ok_of_ext)
  then have "futex_ext S1 T"
    using eq g by (auto simp: futex_wait_enqueue_def intro!: futex_ext_drop futex_ext_queues split: sum.splits)
  with e(1) show ?thesis by (rule futex_ext_trans)
qed

lemma futex_wake_ext:
  assumes ok: "futex_ok S" and eq: "futex_wake W addr val S = (r, T)"
  shows "futex_ext S T"
proof -
  obtain g S1 where g: "futex_get addr S = (g, S1)" by fastforce
  note e = futex_get_ext [OF ok g]
  show ?thesis
  proof (cases g)
    case None
    then show ?thesis using e g eq by (simp add: futex_wake_def)
  next
    case (Some g1)
    obtain c S2 where n: "futex_notify W val g1 S1 = (c, S2)" by fastforce
    note e2 = futex_notify_ext [OF futex_ok_of_ext [OF e(1)] n]
    have "futex_ext S2 T"
      using eq g Some n e(3) e2 by (auto simp: futex_wake_def intro!: futex_ext_drop futex_ok_of_ext [OF e2(1)])
    then show ?thesis using e(1) e2(1) futex_ext_trans by blast
  qed
qed

lemma drop_guard_guards [simp]: "ft_guards (drop_guard W g S) = remove1 g (ft_guards S)"
  by (simp add: drop_guard_def)

lemma futex_wake_requeue_ext:
  assumes ok: "futex_ok S" and eq: "futex_wake_requeue W addr val value2 addr2 S = (r, T)"
  shows "futex_ext S T"
proof -
  obtain g S1 where g: "futex_get addr S = (g, S1)" by fastforce
  note e = futex_get_ext [OF ok g]
  obtain g2 S2 where g2: "get_or_insert W addr2 S1 = (g2, S2)" by fastforce
  note e2 = get_or_insert_ext [OF futex_ok_of_ext [OF e(1)] g2]
  have S2: "futex_ext S S2" "futex_ok S2"
    using e(1) e2(1) futex_ext_trans futex_ok_of_ext by blast+
  show ?thesis
  proof (cases g)
    case None
    then have "T = drop_guard W g2 S2" using eq g g2 by (simp add: futex_wake_requeue_def)
    then show ?thesis using S2 e2(2) futex_ext_drop [of S2 g2] futex_ext_trans by auto
  next
    case (Some g1)
    obtain c S3 where n: "futex_notify W val g1 S2 = (c, S3)" by fastforce
    note e3 = futex_notify_ext [OF S2(2) n]
    define mS where "mS = (if c = unat val then futex_requeue W (unat value2) g1 g2 S3 else (0, S3))"
    obtain m S4 where m: "mS = (m, S4)" by fastforce
    have e4: "futex_ext S3 S4" "ft_guards S4 = ft_guards S3"
      using m futex_requeue_ext [OF futex_ok_of_ext [OF e3(1)]] futex_ok_of_ext [OF e3(1)]
      by (auto simp: mS_def futex_ext_def split: if_splits)
    have T: "T = drop_guard W g2 (drop_guard W g1 S4)"
      using eq g g2 Some n m by (simp add: futex_wake_requeue_def mS_def split: prod.splits)
    have gs: "ft_guards S4 = g2 # ft_guards S1" "g1 \<in> set (ft_guards S1)"
      using e(3) [OF Some] e2(2) e3(2) e4(2) by simp_all
    have e5: "futex_ext S4 (drop_guard W g1 S4)"
      using futex_ext_drop gs e4(1) futex_ok_of_ext by (metis list.set_intros(2))
    have "g2 \<in> set (remove1 g1 (ft_guards S4))" using gs by auto
    then have "futex_ext (drop_guard W g1 S4) T"
      unfolding T by (intro futex_ext_drop futex_ok_of_ext [OF e5]) simp
    then show ?thesis using S2(1) e3(1) e4(1) e5 futex_ext_trans by blast
  qed
qed

lemma futex_step_ext:
  assumes "futex_step W S T" "futex_ok S"
  shows "futex_ext S T"
  using assms
proof cases
  case (call tid addr uval fop val ta tm addr2 value3 r)
  have "futex_ext S S" using assms(2) by (simp add: futex_ext_def)
  with call assms(2) show ?thesis
    by (auto simp: sys_futex_def Let_def intro: futex_wait_enqueue_ext futex_wake_ext futex_wake_requeue_ext
        split: if_splits sum.splits)
next
  case (enqueue tid addr tm r)
  then show ?thesis using futex_wait_enqueue_ext assms(2) by blast
next
  case (resume g tid b r)
  define S1 where "S1 = (if b then S\<lparr>ft_queues := (ft_queues S)
    [guard_inner g := wq_cancel W tid (ft_queues S ! guard_inner g)]\<rparr> else S)"
  have e: "futex_ext S S1"
    using assms(2) by (cases b) (auto simp: S1_def futex_ext_def [of S S] intro: futex_ext_queues)
  have "ft_guards S1 = ft_guards S" by (simp add: S1_def)
  then have "futex_ext S1 (drop_guard W g S1)"
    using resume(1) e by (intro futex_ext_drop futex_ok_of_ext) auto
  moreover have "T = drop_guard W g S1" using resume by (simp add: futex_resume_def S1_def Let_def)
  ultimately show ?thesis using e futex_ext_trans by blast
qed

lemma futex_ok_new: "futex_ok futex_table_new"
  by (simp add: futex_table_new_def futex_ok_def bt_ok_def)

lemma futex_reachable_ok: "futex_reachable W S \<Longrightarrow> futex_ok S"
  unfolding futex_reachable_def
  by (induction rule: rtranclp_induct)
    (auto intro: futex_ok_new futex_ok_of_ext futex_step_ext)

section \<open>Waiting tasks\<close>

lemma notify_loop_spec:
  assumes "waitq_spec W ws"
  shows "fst (notify_loop W n q) = min n (length (ws q)) \<and> ws (snd (notify_loop W n q)) = drop n (ws q)"
proof (induction n arbitrary: q)
  case (Suc n)
  obtain b q' where q': "wq_notify_one W q = (b, q')" by fastforce
  then have "b \<longleftrightarrow> ws q \<noteq> []" "ws q' = tl (ws q)"
    using assms by (auto simp: waitq_spec_def dest!: spec [of _ q])
  then show ?case
    using Suc [of q'] q' by (cases b; cases "ws q") (auto split: prod.splits)
qed simp

lemma waitq_requeue:
  assumes "waitq_spec W ws"
  shows "fst (wq_requeue W n q q2) = min n (length (ws q))
    \<and> ws (fst (snd (wq_requeue W n q q2))) = drop n (ws q)
    \<and> ws (snd (snd (wq_requeue W n q q2))) = ws q2 @ take n (ws q)"
  using assms unfolding waitq_spec_def by blast

lemma map_of_distinct_snd:
  "distinct (map snd m) \<Longrightarrow> map_of m k = Some a \<Longrightarrow> map_of m k' = Some a \<Longrightarrow> k = k'"
  by (induction m) (auto split: if_splits dest!: map_of_in_snd)

lemma futex_ok_lt:
  assumes "futex_ok S" "map_of (ft_table S) k = Some a"
  shows "a < length (ft_queues S)"
  using assms(1) map_of_SomeD [OF assms(2)] by (auto simp: futex_ok_def)

lemma waiters_update:
  assumes "futex_ok S" "map_of (ft_table S) addr = Some a"
  shows "waiters ws (S\<lparr>ft_queues := (ft_queues S)[a := q]\<rparr>) k = (if k = addr then ws q else waiters ws S k)"
proof -
  have lt: "a < length (ft_queues S)" by (rule futex_ok_lt [OF assms])
  have d: "distinct (map snd (ft_table S))" using assms(1) by (simp add: futex_ok_def)
  have k: "k = addr" if "map_of (ft_table S) k = Some a" by (rule map_of_distinct_snd [OF d that assms(2)])
  show ?thesis
  proof (cases "k = addr")
    case True
    then show ?thesis using assms(2) lt by (simp add: waiters_def)
  next
    case False
    then have "map_of (ft_table S) k \<noteq> Some a" using k by blast
    then show ?thesis
      using False by (cases "map_of (ft_table S) k") (auto simp: waiters_def)
  qed
qed

lemma waiters_guards [simp]: "waiters ws (S\<lparr>ft_guards := gs\<rparr>) = waiters ws S"
  by (rule ext) (simp add: waiters_def split: option.split)

lemma waiters_drop:
  "futex_ok S \<Longrightarrow> g \<in> set (ft_guards S) \<Longrightarrow> waiters ws (drop_guard W g S) = waiters ws S"
  by (simp add: drop_guard_eq)

lemma waiters_get_or_insert:
  assumes "waitq_spec W ws" "futex_ok S" "get_or_insert W addr S = (g, T)"
  shows "waiters ws T = waiters ws S"
proof (rule ext)
  fix k
  have bt: "bt_ok (ft_table S)" and new: "ws (wq_new W) = []"
    using assms(1,2) by (simp_all add: futex_ok_def waitq_spec_def)
  have lt: "a < length (ft_queues S)" if "map_of (ft_table S) k = Some a" for a
    by (rule futex_ok_lt [OF assms(2) that])
  show "waiters ws T k = waiters ws S k"
  proof (cases "map_of (ft_table S) addr")
    case (Some a)
    then have "T = S\<lparr>ft_guards := g # ft_guards S\<rparr>" using assms(3) by (auto simp: get_or_insert_def Let_def)
    then show ?thesis by simp
  next
    case None
    then have "T = S\<lparr>ft_table := bt_insert addr (length (ft_queues S)) (ft_table S),
        ft_queues := ft_queues S @ [wq_new W], ft_guards := g # ft_guards S\<rparr>"
      using assms(3) by (auto simp: get_or_insert_def Let_def)
    then show ?thesis
      using None lt new by (auto simp: waiters_def bt.lookup_insert [OF bt] nth_append split: option.split)
  qed
qed

lemma waiters_get:
  "futex_get addr S = (g, T) \<Longrightarrow> waiters ws T = waiters ws S"
  by (auto simp: futex_get_def Let_def split: option.splits)

lemma futex_notify_spec:
  assumes "waitq_spec W ws" "futex_ok S" "map_of (ft_table S) addr = Some (guard_inner g)"
    "futex_notify W val g S = (c, T)"
  shows "c = min (unat val) (length (waiters ws S addr))"
    "waiters ws T = (waiters ws S)(addr := drop (unat val) (waiters ws S addr))"
  using assms notify_loop_spec [OF assms(1), of "unat val" "ft_queues S ! guard_inner g"]
    waiters_update [OF assms(2,3)]
  by (auto simp: futex_notify_def waiters_def [of ws S addr] fun_eq_iff split: prod.splits)

lemma futex_requeue_spec:
  assumes W: "waitq_spec W ws" and ok: "futex_ok S" and a: "map_of (ft_table S) addr = Some (guard_inner g)"
    and b: "map_of (ft_table S) addr2 = Some (guard_inner g2)" and ne: "addr \<noteq> addr2"
    and eq: "futex_requeue W n g g2 S = (c, T)"
  shows "c = min n (length (waiters ws S addr))"
    "waiters ws T = (waiters ws S)
       (addr := drop n (waiters ws S addr), addr2 := waiters ws S addr2 @ take n (waiters ws S addr))"
proof -
  let ?a = "guard_inner g" and ?b = "guard_inner g2"
  have ab: "?a \<noteq> ?b" using ok a b ne map_of_distinct_snd [of "ft_table S" addr "guard_inner g" addr2]
    by (auto simp: futex_ok_def)
  obtain q q2 where r: "wq_requeue W n (ft_queues S ! ?a) (ft_queues S ! ?b) = (c, q, q2)"
    and T: "T = S\<lparr>ft_queues := (ft_queues S)[?a := q, ?b := q2]\<rparr>"
    using eq ab by (auto simp: futex_requeue_def Let_def split: prod.splits)
  let ?S = "S\<lparr>ft_queues := (ft_queues S)[?a := q]\<rparr>"
  have spec: "c = min n (length (ws (ft_queues S ! ?a)))" "ws q = drop n (ws (ft_queues S ! ?a))"
    "ws q2 = ws (ft_queues S ! ?b) @ take n (ws (ft_queues S ! ?a))"
    using waitq_requeue [OF W, of n "ft_queues S ! ?a" "ft_queues S ! ?b"] unfolding r by simp_all
  have ok': "futex_ok ?S" by (rule futex_ok_of_ext [OF futex_ext_queues [OF ok]]) simp
  have T': "T = ?S\<lparr>ft_queues := (ft_queues ?S)[?b := q2]\<rparr>" by (simp add: T)
  show "c = min n (length (waiters ws S addr))" using spec a by (simp add: waiters_def)
  show "waiters ws T = (waiters ws S)
      (addr := drop n (waiters ws S addr), addr2 := waiters ws S addr2 @ take n (waiters ws S addr))"
    unfolding T' fun_eq_iff
    using waiters_update [OF ok', of addr2 ?b ws q2] waiters_update [OF ok a, of ws q] b a ne spec
    by (auto simp: waiters_def [of ws S addr] waiters_def [of ws S addr2])
qed

lemma futex_wake_spec:
  assumes W: "waitq_spec W ws" and ok: "futex_ok S" and eq: "futex_wake W addr val S = (r, T)"
  shows "r = Done (Inr (word_of_nat (min (unat val) (length (waiters ws S addr)))))"
    "waiters ws T = (waiters ws S)(addr := drop (unat val) (waiters ws S addr))"
proof -
  have "r = Done (Inr (word_of_nat (min (unat val) (length (waiters ws S addr))))) \<and>
    waiters ws T = (waiters ws S)(addr := drop (unat val) (waiters ws S addr))"
  proof (cases "map_of (ft_table S) addr")
    case None
    then show ?thesis using eq by (auto simp: futex_wake_def futex_get_def waiters_def)
  next
    case (Some a)
    define g where "g = \<lparr>guard_key = addr, guard_inner = a\<rparr>"
    obtain S1 where g: "futex_get addr S = (Some g, S1)" using Some by (simp add: futex_get_def g_def Let_def)
    note e = futex_get_ext [OF ok g]
    have m: "map_of (ft_table S1) addr = Some (guard_inner g)"
      using e(1) Some by (auto simp: futex_ext_def g_def map_le_def dom_def)
    obtain c S2 where n: "futex_notify W val g S1 = (c, S2)" by fastforce
    note e2 = futex_notify_ext [OF futex_ok_of_ext [OF e(1)] n]
    note s = futex_notify_spec [OF W futex_ok_of_ext [OF e(1)] m n]
    have "waiters ws (drop_guard W g S2) = waiters ws S2"
      using e(3) e2 by (intro waiters_drop futex_ok_of_ext) auto
    then show ?thesis using eq g n s waiters_get [OF g, of ws] by (auto simp: futex_wake_def)
  qed
  then show "r = Done (Inr (word_of_nat (min (unat val) (length (waiters ws S addr)))))"
    "waiters ws T = (waiters ws S)(addr := drop (unat val) (waiters ws S addr))" by auto
qed

lemma futex_wake_requeue_spec:
  assumes W: "waitq_spec W ws" and ok: "futex_ok S" and ne: "addr \<noteq> addr2"
    and eq: "futex_wake_requeue W addr val value2 addr2 S = (r, T)"
  defines "q \<equiv> waiters ws S addr"
  shows "r = Done (Inr (word_of_nat (min (unat val) (length q) + min (unat value2) (length q - unat val)))) \<and>
    waiters ws T = (waiters ws S)(addr := drop (unat value2) (drop (unat val) q),
       addr2 := waiters ws S addr2 @ take (unat value2) (drop (unat val) q))"
proof -
  obtain g S1 where g: "futex_get addr S = (g, S1)" by fastforce
  note e = futex_get_ext [OF ok g]
  obtain g2 S2 where g2: "get_or_insert W addr2 S1 = (g2, S2)" by fastforce
  note e2 = get_or_insert_ext [OF futex_ok_of_ext [OF e(1)] g2]
  have ok2: "futex_ok S2" by (rule futex_ok_of_ext [OF e2(1)])
  have w2: "waiters ws S2 = waiters ws S"
    using waiters_get_or_insert [OF W futex_ok_of_ext [OF e(1)] g2] waiters_get [OF g] by simp
  show ?thesis
  proof (cases g)
    case None
    then have "q = []" using g by (auto simp: q_def waiters_def futex_get_def Let_def split: option.splits)
    moreover have "T = drop_guard W g2 S2 \<and> r = Done (Inr 0)" using eq g g2 None by (simp add: futex_wake_requeue_def)
    ultimately show ?thesis using waiters_drop [OF ok2, of g2 ws W] e2(2) w2 by (auto simp: q_def fun_eq_iff)
  next
    case (Some g1)
    have m1: "map_of (ft_table S2) addr = Some (guard_inner g1)"
      using g Some e2(1) by (auto simp: futex_get_def Let_def futex_ext_def map_le_def dom_def split: option.splits)
    obtain c S3 where n: "futex_notify W val g1 S2 = (c, S3)" by fastforce
    note e3 = futex_notify_ext [OF ok2 n] and s3 = futex_notify_spec [OF W ok2 m1 n]
    have ok3: "futex_ok S3" by (rule futex_ok_of_ext [OF e3(1)])
    have t3: "ft_table S3 = ft_table S2" using n by (auto simp: futex_notify_def split: prod.splits)
    obtain m S4 where m: "(if c = unat val then futex_requeue W (unat value2) g1 g2 S3 else (0, S3)) = (m, S4)"
      by fastforce
    have rs: "m = min (unat value2) (length q - unat val) \<and> waiters ws S4 = (waiters ws S)
        (addr := drop (unat value2) (drop (unat val) q),
         addr2 := waiters ws S addr2 @ take (unat value2) (drop (unat val) q))"
    proof (cases "c = unat val")
      case True
      then have "futex_requeue W (unat value2) g1 g2 S3 = (m, S4)" using m by simp
      then show ?thesis
        using futex_requeue_spec [OF W ok3, of addr g1 addr2 g2] m1 e2(3) t3 ne s3 w2 by (simp add: q_def)
    next
      case False
      then have "m = 0" "S4 = S3" using m by simp_all
      moreover have "length q < unat val" using False s3(1) w2 by (simp add: q_def)
      ultimately show ?thesis using s3(2) w2 ne by (auto simp: q_def fun_eq_iff)
    qed
    have e4: "futex_ok S4" "ft_guards S4 = g2 # ft_guards S1"
      using m futex_requeue_ext [OF ok3] ok3 e3(2) e2(2)
      by (auto split: if_splits intro: futex_ok_of_ext [OF futex_requeue_ext(1) [OF ok3]])
    have g14: "g1 \<in> set (ft_guards S4)" using e(3) [OF Some] e4 by simp
    have "waiters ws (drop_guard W g2 (drop_guard W g1 S4)) = waiters ws (drop_guard W g1 S4)"
      using e4 e(3) [OF Some] by (intro waiters_drop futex_ok_of_ext [OF futex_ext_drop [OF e4(1) g14]]) auto
    then have "waiters ws T = waiters ws S4"
      using eq g g2 Some n m waiters_drop [OF e4(1) g14, of ws W]
      by (simp add: futex_wake_requeue_def split: prod.splits)
    moreover have "r = Done (Inr (word_of_nat (c + m)))"
      using eq g g2 Some n m by (simp add: futex_wake_requeue_def split: prod.splits)
    ultimately show ?thesis using rs s3(1) w2 by (simp add: q_def)
  qed
qed

section \<open>Properties\<close>

text \<open>C15. FUTEX_WAKE wakes the oldest waiters of the address, at most \<open>value\<close> of them, and returns how
  many; the other waiters and the other addresses are untouched. FUTEX_REQUEUE moves, after that, the
  next waiters, at most as many as the fourth argument read as a number, to the end of the queue of
  the second address and counts them too; FUTEX_CMP_REQUEUE does so when the word has the expected value.\<close>

theorem sys_futex_wake_requeue:
  assumes "waitq_spec W ws" and "futex_reachable W S" and "addr \<noteq> addr2"
    and "command = fop AND FUTEX_CMD_MASK" and "q = waiters ws S addr"
    and "command = FUTEX_WAKE \<or> command = FUTEX_REQUEUE \<or> command = FUTEX_CMP_REQUEUE \<and> uval = Inr value3"
    and "moved = (if command = FUTEX_WAKE then 0 else unat (ucast timeout_addr :: u32))"
  shows "case sys_futex W tid addr uval fop val timeout_addr timeout addr2 value3 S of (r, T) \<Rightarrow>
      r = Done (Inr (word_of_nat (min (unat val) (length q) + min moved (length q - unat val)))) \<and>
      waiters ws T = (waiters ws S)(addr := drop moved (drop (unat val) q),
         addr2 := waiters ws S addr2 @ take moved (drop (unat val) q))"
proof -
  have ok: "futex_ok S" by (rule futex_reachable_ok [OF assms(2)])
  show ?thesis
    using assms(3-) futex_wake_spec [OF assms(1) ok] futex_wake_requeue_spec [OF assms(1) ok assms(3)]
    by (auto simp: sys_futex_def Let_def FUTEX_WAKE_def FUTEX_WAIT_def FUTEX_REQUEUE_def FUTEX_CMP_REQUEUE_def
        futex_wait_check_def fun_eq_iff split: prod.splits)
qed

text \<open>An instance of the wait queue: the list of the waiting tasks.\<close>

definition list_waitq :: "nat list waitq_ops" where
  "list_waitq =
     \<lparr>wq_new = [], wq_is_empty = (\<lambda>q. q = []), wq_push = (\<lambda>t q. q @ [t]), wq_cancel = remove1,
      wq_notify_one = (\<lambda>q. (q \<noteq> [], tl q)),
      wq_requeue = (\<lambda>n q q2. (min n (length q), drop n q, q2 @ take n q)),
      wq_requeue_self = (\<lambda>n q. (min n (length q), drop n q @ take n q))\<rparr>"

lemma list_waitq_spec: "waitq_spec list_waitq (\<lambda>q. q)"
  by (simp add: waitq_spec_def list_waitq_def)

text \<open>Three tasks asleep on one address.\<close>

definition three_asleep :: "nat list futex_state" where
  "three_asleep =
     (let sleep = (\<lambda>tid S. snd (futex_wait_enqueue list_waitq tid 0x100 None S))
      in sleep 3 (sleep 2 (sleep 1 futex_table_new)))"

lemma futex_enqueue_reachable:
  "futex_reachable W S \<Longrightarrow> futex_reachable W (snd (futex_wait_enqueue W tid addr tm S))"
  unfolding futex_reachable_def
  by (erule rtranclp.rtrancl_into_rtrancl) (rule futex_step.enqueue, rule prod.collapse [symmetric])

lemma futex_new_reachable: "futex_reachable W futex_table_new"
  by (simp add: futex_reachable_def)

lemma three_asleep_reachable: "futex_reachable list_waitq three_asleep"
  unfolding three_asleep_def Let_def by (intro futex_enqueue_reachable futex_new_reachable)

lemma three_asleep_waiters:
  "waiters (\<lambda>q. q) three_asleep 0x100 = [1, 2, 3]" "waiters (\<lambda>q. q) three_asleep 0x200 = []"
  by (simp_all add: three_asleep_def futex_wait_enqueue_def get_or_insert_def futex_table_new_def waiters_def
      list_waitq_def Let_def)

theorem sys_futex_wake_requeue_witness:
  "waitq_spec list_waitq (\<lambda>q. q) \<and> futex_reachable list_waitq three_asleep \<and>
   (case sys_futex list_waitq 9 0x100 (Inr 0) FUTEX_REQUEUE 1 1 None 0x200 0 three_asleep of (r, T) \<Rightarrow>
      r = Done (Inr 2) \<and> waiters (\<lambda>q. q) T 0x100 = [3] \<and> waiters (\<lambda>q. q) T 0x200 = [2])"
  using sys_futex_wake_requeue [OF list_waitq_spec three_asleep_reachable, where addr = "0x100" and ?addr2.0 = "0x200"
      and command = FUTEX_REQUEUE and fop = FUTEX_REQUEUE and q = "[1, 2, 3]" and uval = "Inr 0" and ?value3.0 = 0
      and moved = 1 and timeout_addr = 1 and tid = 9 and val = 1 and timeout = None]
    three_asleep_waiters list_waitq_spec three_asleep_reachable
  by (auto simp: FUTEX_REQUEUE_def FUTEX_CMD_MASK_def FUTEX_WAKE_def split: prod.splits)



text \<open>A wake-up between the comparison of FUTEX_WAIT and the enqueueing of the caller is lost: the
  waker finds nobody and returns 0, and the caller, whose comparison succeeded before the word
  changed, goes to sleep without a time limit.\<close>

theorem futex_wait_lost_wakeup:
  assumes "waitq_spec W ws" and "futex_reachable W S" and "waiters ws S addr = []"
    and "futex_wait_check val (Inr v) = Inr ()" and "fop AND FUTEX_CMD_MASK = FUTEX_WAKE"
    and "sys_futex W waker addr uval fop n ta tm addr2 value3 S = (r, T)"
    and "futex_wait_enqueue W tid addr None T = (r', U)"
  shows "r = Done (Inr 0) \<and> (\<exists>g. r' = Sleep g None) \<and> waiters ws U addr = [tid]"
proof -
  have ok: "futex_ok S" by (rule futex_reachable_ok [OF assms(2)])
  have wk: "futex_wake W addr n S = (r, T)"
    using assms(5,6) by (simp add: sys_futex_def FUTEX_WAKE_def FUTEX_WAIT_def)
  note s = futex_wake_spec [OF assms(1) ok wk]
  have okT: "futex_ok T" by (rule futex_ok_of_ext [OF futex_wake_ext [OF ok wk]])
  obtain g T1 where g: "get_or_insert W addr T = (g, T1)" by fastforce
  note e = get_or_insert_ext [OF okT g]
  have wT: "waiters ws T1 addr = []" using waiters_get_or_insert [OF assms(1) okT g] s(2) assms(3) by simp
  have U: "U = T1\<lparr>ft_queues := (ft_queues T1)[guard_inner g := wq_push W tid (ft_queues T1 ! guard_inner g)]\<rparr>"
    "r' = Sleep g None"
    using assms(7) g by (auto simp: futex_wait_enqueue_def)
  have "waiters ws U addr = ws (wq_push W tid (ft_queues T1 ! guard_inner g))"
    unfolding U using waiters_update [OF futex_ok_of_ext [OF e(1)] e(3)] by simp
  also have "... = [tid]" using assms(1) wT e(3) by (simp add: waitq_spec_def waiters_def)
  finally show ?thesis using s(1) assms(3) U(2) by simp
qed

theorem futex_wait_lost_wakeup_witness:
  "waiters (\<lambda>q. q) (futex_table_new :: nat list futex_state) 0x100 = [] \<and>
   futex_wait_check 5 (Inr 5) = Inr () \<and>
   (case sys_futex list_waitq 9 0x100 (Inr 6) FUTEX_WAKE 1 0 None 0 0 futex_table_new of (r, T) \<Rightarrow>
      case futex_wait_enqueue list_waitq 1 0x100 None T of (r', U) \<Rightarrow>
        r = Done (Inr 0) \<and> (\<exists>g. r' = Sleep g None) \<and> waiters (\<lambda>q. q) U 0x100 = [1])"
proof -
  obtain r T where c: "sys_futex list_waitq 9 0x100 (Inr 6) FUTEX_WAKE 1 0 None 0 0 futex_table_new = (r, T)"
    by fastforce
  obtain r' U where d: "futex_wait_enqueue list_waitq 1 0x100 None T = (r', U)" by fastforce
  have e: "waiters (\<lambda>q. q) (futex_table_new :: nat list futex_state) 0x100 = []"
    by (simp add: waiters_def futex_table_new_def)
  have k: "futex_wait_check 5 (Inr 5) = Inr ()" by (simp add: futex_wait_check_def)
  have m: "FUTEX_WAKE AND FUTEX_CMD_MASK = FUTEX_WAKE" by (simp add: FUTEX_WAKE_def FUTEX_CMD_MASK_def)
  show ?thesis
    using futex_wait_lost_wakeup [OF list_waitq_spec futex_new_reachable e k m c d] e k c d by simp
qed

end
