(* ===== verification/Rust_Str.thy ===== *)
theory Rust_Str
  imports Kernel_Prelude "HOL-Library.Sublist"
begin

text \<open>
  The string methods of Rust's standard library that the sources use, on strings as lists of
  bytes; \<open>trim\<close> removes the ASCII white space characters.
\<close>

definition ends_with_char :: "char \<Rightarrow> string \<Rightarrow> bool" where
  "ends_with_char c s \<longleftrightarrow> s \<noteq> [] \<and> last s = c"

definition starts_with_char :: "char \<Rightarrow> string \<Rightarrow> bool" where
  "starts_with_char c s \<longleftrightarrow> s \<noteq> [] \<and> hd s = c"

definition strip_suffix_char :: "char \<Rightarrow> string \<Rightarrow> string option" where
  "strip_suffix_char c s = (if ends_with_char c s then Some (butlast s) else None)"

fun rfind :: "char \<Rightarrow> string \<Rightarrow> nat option" where
  "rfind c [] = None"
| "rfind c (x # xs) =
     (case rfind c xs of
        Some i \<Rightarrow> Some (Suc i)
      | None \<Rightarrow> if x = c then Some 0 else None)"

definition is_whitespace :: "char \<Rightarrow> bool" where
  "is_whitespace c \<longleftrightarrow> c = CHR '' '' \<or> (CHR 0x09 = c \<or> CHR 0x0A = c \<or> CHR 0x0B = c \<or> CHR 0x0C = c \<or> CHR 0x0D = c)"

definition trim_start :: "string \<Rightarrow> string" where
  "trim_start s = dropWhile is_whitespace s"

definition trim_end :: "string \<Rightarrow> string" where
  "trim_end s = rev (dropWhile is_whitespace (rev s))"

definition trim :: "string \<Rightarrow> string" where
  "trim s = trim_end (trim_start s)"

definition trim_matches :: "char \<Rightarrow> string \<Rightarrow> string" where
  "trim_matches c s = rev (dropWhile (\<lambda>x. x = c) (rev (dropWhile (\<lambda>x. x = c) s)))"

fun split_char :: "char \<Rightarrow> string \<Rightarrow> string list" where
  "split_char c [] = [[]]"
| "split_char c (x # xs) =
     (if x = c then [] # split_char c xs
      else case split_char c xs of [] \<Rightarrow> [[x]] | w # ws \<Rightarrow> (x # w) # ws)"

text \<open>\<open>rsplit_once\<close>: what precedes and what follows the last occurrence.\<close>

definition rsplit_once :: "char \<Rightarrow> string \<Rightarrow> (string \<times> string) option" where
  "rsplit_once c s = map_option (\<lambda>i. (take i s, drop (Suc i) s)) (rfind c s)"

lemma rfind_None [simp]: "rfind c s = None \<longleftrightarrow> c \<notin> set s"
  by (induction s) (auto split: option.splits)

lemma rfind_Some:
  "rfind c s = Some i \<Longrightarrow> i < length s \<and> s ! i = c \<and> c \<notin> set (drop (Suc i) s)"
  by (induction s arbitrary: i) (auto split: option.splits if_splits)

lemma rfind_split: "rfind c s = Some i \<Longrightarrow> s = take i s @ c # drop (Suc i) s"
  using rfind_Some [of c s i] by (metis id_take_nth_drop)

lemma rfind_append: "c \<notin> set v \<Longrightarrow> rfind c (u @ c # v) = Some (length u)"
  by (induction u) (auto split: option.splits)

lemma ends_with_char_snoc [simp]: "ends_with_char c (s @ [d]) \<longleftrightarrow> c = d"
  by (auto simp: ends_with_char_def)

lemma ends_with_charE: "ends_with_char c s \<Longrightarrow> s = butlast s @ [c]"
  by (auto simp: ends_with_char_def)

lemma split_char_not_Nil [simp]: "split_char c s \<noteq> []"
  by (induction s) (auto split: list.splits)

lemma split_char_no_sep: "\<forall>w \<in> set (split_char c s). c \<notin> set w"
  by (induction s) (auto split: list.splits)

end
