(* ===== verification/User_Ptr.thy ===== *)
theory User_Ptr
  imports Aspace Rust_Str
begin

text \<open>
  Pointers into user memory (\<open>api/src/ptr.rs\<close>). The address space is the parameter of \<open>Aspace\<close>; the
  constructor of address ranges \<open>VirtAddrRange::from_start_size\<close>, of the crate \<open>memory_addr\<close>, is the
  parameter \<open>R\<close>, which yields the range or panics. A type \<open>T\<close> is given by its size and alignment.
\<close>

section \<open>Layouts\<close>

record layout =
  lsize :: nat
  lalign :: nat

definition ISIZE_MAX :: nat where
  "ISIZE_MAX = 2 ^ 63 - 1"

text \<open>\<open>Layout::array::<T>(len).unwrap()\<close>: a total size above \<open>isize::MAX\<close>, rounded down to the alignment,
  is an error.\<close>

definition slice_bytes :: "layout \<Rightarrow> usize \<Rightarrow> nat" where
  "slice_bytes T len = lsize T * unat len"

definition layout_array :: "layout \<Rightarrow> usize \<Rightarrow> layout res" where
  "layout_array T len =
     (if slice_bytes T len \<le> ISIZE_MAX - (lalign T - 1)
      then Inr \<lparr>lsize = slice_bytes T len, lalign = lalign T\<rparr> else Inl Panic)"

section \<open>Checking a region\<close>

type_synonym range_new = "usize \<Rightarrow> usize \<Rightarrow> (usize \<times> usize) res"

text \<open>What \<open>memory_addr\<close> documents: a range from a start and a size, and a panic when the end
  overflows.\<close>

definition range_spec :: "range_new \<Rightarrow> bool" where
  "range_spec R \<longleftrightarrow>
     (\<forall>s n. R s n = (if unat s + unat n < 2 ^ 64 then Inr (s, s + n) else Inl Panic))"

definition check_region ::
  "'as aspace_ops \<Rightarrow> align_ops \<Rightarrow> range_new \<Rightarrow> usize \<Rightarrow> layout \<Rightarrow> mapping_flag set \<Rightarrow> 'as
   \<Rightarrow> unit res \<times> 'as" where
  "check_region As M R start l access_flags as =
     (if start AND (word_of_nat (lalign l) - 1) \<noteq> 0 then (Inl (Errno EFAULT), as)
      else case R start (word_of_nat (lsize l)) of
        Inl e \<Rightarrow> (Inl e, as)
      | Inr (lo, hi) \<Rightarrow>
          if \<not> check_region_access As as lo hi access_flags then (Inl (Errno EFAULT), as)
          else
            let page_start = align_down_4k M start;
                page_end = align_up_4k M (start + word_of_nat (lsize l));
                (r, as) = populate_area As as page_start (page_end - page_start) access_flags
            in (from_ax r, as))"

text \<open>\<open>UserPtr\<close> asks for reading and writing, \<open>UserConstPtr\<close> for reading.\<close>

definition USER_PTR_FLAGS :: "mapping_flag set" where
  "USER_PTR_FLAGS = {MF_READ, MF_WRITE}"

definition USER_CONST_PTR_FLAGS :: "mapping_flag set" where
  "USER_CONST_PTR_FLAGS = {MF_READ}"

definition is_null :: "usize \<Rightarrow> bool" where
  "is_null p \<longleftrightarrow> p = 0"

definition get_as_mut ::
  "'as aspace_ops \<Rightarrow> align_ops \<Rightarrow> range_new \<Rightarrow> layout \<Rightarrow> usize \<Rightarrow> 'as \<Rightarrow> unit res \<times> 'as" where
  "get_as_mut As M R T p as = check_region As M R p T USER_PTR_FLAGS as"

definition get_as_ref ::
  "'as aspace_ops \<Rightarrow> align_ops \<Rightarrow> range_new \<Rightarrow> layout \<Rightarrow> usize \<Rightarrow> 'as \<Rightarrow> unit res \<times> 'as" where
  "get_as_ref As M R T p as = check_region As M R p T USER_CONST_PTR_FLAGS as"

definition get_as_mut_slice ::
  "'as aspace_ops \<Rightarrow> align_ops \<Rightarrow> range_new \<Rightarrow> layout \<Rightarrow> usize \<Rightarrow> usize \<Rightarrow> 'as \<Rightarrow> unit res \<times> 'as" where
  "get_as_mut_slice As M R T p len as =
     (case layout_array T len of
        Inl e \<Rightarrow> (Inl e, as)
      | Inr l \<Rightarrow> check_region As M R p l USER_PTR_FLAGS as)"

definition get_as_slice ::
  "'as aspace_ops \<Rightarrow> align_ops \<Rightarrow> range_new \<Rightarrow> layout \<Rightarrow> usize \<Rightarrow> usize \<Rightarrow> 'as \<Rightarrow> unit res \<times> 'as" where
  "get_as_slice As M R T p len as =
     (case layout_array T len of
        Inl e \<Rightarrow> (Inl e, as)
      | Inr l \<Rightarrow> check_region As M R p l USER_CONST_PTR_FLAGS as)"

text \<open>The macro \<open>nullable!\<close>.\<close>

definition nullable :: "usize \<Rightarrow> ('as \<Rightarrow> 'a res \<times> 'as) \<Rightarrow> 'as \<Rightarrow> 'a option res \<times> 'as" where
  "nullable p f as =
     (if is_null p then (Inr None, as) else sbind (f as) (\<lambda>x as. (Inr (Some x), as)))"

section \<open>Null-terminated data\<close>

text \<open>Addresses are natural numbers here; \<open>acc a\<close> is the check of the page at \<open>a\<close>, \<open>rd a\<close> the value of
  type \<open>T\<close> at \<open>a\<close>. The inner loop checks the pages up to the one of \<open>ptr\<close> and returns the first page
  it has not checked.\<close>

function check_pages :: "(nat \<Rightarrow> bool) \<Rightarrow> nat \<Rightarrow> nat \<Rightarrow> nat res" where
  "check_pages acc ptr page =
     (if ptr \<ge> page then
        if \<not> acc page then Inl (Errno EFAULT) else check_pages acc ptr (page + 4096)
      else Inr page)"
  by pat_completeness auto
termination
  by (relation "measure (\<lambda>(acc, ptr, page). Suc ptr - page)") auto

declare check_pages.simps [simp del]

text \<open>The outer loop has no bound of its own: it ends at a zero or at a page that is refused.\<close>

partial_function (option) null_loop ::
  "(nat \<Rightarrow> bool) \<Rightarrow> (nat \<Rightarrow> 'v::zero) \<Rightarrow> nat \<Rightarrow> nat \<Rightarrow> nat \<Rightarrow> nat \<Rightarrow> nat res option" where
  "null_loop acc rd sz start page len =
     (case check_pages acc (start + len * sz) page of
        Inl e \<Rightarrow> Some (Inl e)
      | Inr page' \<Rightarrow>
          if rd (start + len * sz) = 0 then Some (Inr len)
          else null_loop acc rd sz start page' (len + 1))"

definition check_null_terminated ::
  "(nat \<Rightarrow> bool) \<Rightarrow> (nat \<Rightarrow> 'v::zero) \<Rightarrow> layout \<Rightarrow> nat \<Rightarrow> nat res option" where
  "check_null_terminated acc rd T start =
     (if start AND (lalign T - 1) \<noteq> 0 then Some (Inl (Errno EFAULT))
      else null_loop acc rd (lsize T) start (start div 4096 * 4096) 0)"

text \<open>\<open>get_as_null_terminated\<close>: the values before the terminator.\<close>

definition get_as_null_terminated ::
  "(nat \<Rightarrow> bool) \<Rightarrow> (nat \<Rightarrow> 'v::zero) \<Rightarrow> layout \<Rightarrow> nat \<Rightarrow> 'v list res option" where
  "get_as_null_terminated acc rd T start =
     map_option (\<lambda>r. rbind r (\<lambda>len. Inr (map (\<lambda>i. rd (start + i * lsize T)) [0 ..< len])))
       (check_null_terminated acc rd T start)"

text \<open>\<open>str::from_utf8\<close>: well-formed UTF-8 without surrogates and overlong forms.\<close>

definition cont_byte :: "u8 \<Rightarrow> bool" where
  "cont_byte b \<longleftrightarrow> 0x80 \<le> b \<and> b \<le> 0xBF"

fun utf8_ok :: "u8 list \<Rightarrow> bool" where
  "utf8_ok [] = True"
| "utf8_ok (b # bs) =
     (if b < 0x80 then utf8_ok bs
      else if 0xC2 \<le> b \<and> b \<le> 0xDF then
        (case bs of c # cs \<Rightarrow> cont_byte c \<and> utf8_ok cs | _ \<Rightarrow> False)
      else if 0xE0 \<le> b \<and> b \<le> 0xEF then
        (case bs of c # d # ds \<Rightarrow>
           (if b = 0xE0 then 0xA0 \<le> c \<and> c \<le> 0xBF
            else if b = 0xED then 0x80 \<le> c \<and> c \<le> 0x9F else cont_byte c)
           \<and> cont_byte d \<and> utf8_ok ds | _ \<Rightarrow> False)
      else if 0xF0 \<le> b \<and> b \<le> 0xF4 then
        (case bs of c # d # e # es \<Rightarrow>
           (if b = 0xF0 then 0x90 \<le> c \<and> c \<le> 0xBF
            else if b = 0xF4 then 0x80 \<le> c \<and> c \<le> 0x8F else cont_byte c)
           \<and> cont_byte d \<and> cont_byte e \<and> utf8_ok es | _ \<Rightarrow> False)
      else False)"

definition get_as_str :: "(nat \<Rightarrow> bool) \<Rightarrow> (nat \<Rightarrow> u8) \<Rightarrow> nat \<Rightarrow> string res option" where
  "get_as_str acc rd start =
     map_option (\<lambda>r. rbind r (\<lambda>bs. if utf8_ok bs then Inr (map (\<lambda>b. char_of (unat b)) bs) else Inl (Errno EILSEQ)))
       (get_as_null_terminated acc rd \<lparr>lsize = 1, lalign = 1\<rparr> start)"


section \<open>Lemmas\<close>

lemma check_pages_spec:
  "check_pages acc ptr (4096 * k) =
     (if \<forall>p. k \<le> p \<and> p \<le> ptr div 4096 \<longrightarrow> acc (4096 * p)
      then Inr (4096 * max k (ptr div 4096 + 1)) else Inl (Errno EFAULT))"
proof (induction "Suc (ptr div 4096) - k" arbitrary: k)
  case 0
  then have "ptr < 4096 * k" by (simp add: Suc_le_eq div_less_iff_less_mult mult.commute)
  then show ?case using 0 by (auto simp: check_pages.simps [of acc ptr] max_def)
next
  case (Suc d)
  then have le: "k \<le> ptr div 4096" by simp
  then have ge: "4096 * k \<le> ptr" by (simp add: less_eq_div_iff_mult_less_eq mult.commute)
  have IH: "check_pages acc ptr (4096 * k + 4096) =
     (if \<forall>p. Suc k \<le> p \<and> p \<le> ptr div 4096 \<longrightarrow> acc (4096 * p)
      then Inr (4096 * max (Suc k) (ptr div 4096 + 1)) else Inl (Errno EFAULT))"
    using Suc(1) [of "Suc k"] Suc(2) by (simp add: add.commute)
  have split: "(\<forall>p. k \<le> p \<and> p \<le> ptr div 4096 \<longrightarrow> acc (4096 * p)) \<longleftrightarrow>
      acc (4096 * k) \<and> (\<forall>p. Suc k \<le> p \<and> p \<le> ptr div 4096 \<longrightarrow> acc (4096 * p))"
    using le by (metis Suc_leD Suc_leI le_neq_implies_less order_refl)
  show ?case
    unfolding check_pages.simps [of acc ptr "4096 * k"] IH split using ge le by (auto simp: max_def)
qed

text \<open>What the result of the scan means: the index of the first zero, every page up to it checked; or
  a refused page at or before the first zero.\<close>

definition scan_ok :: "(nat \<Rightarrow> bool) \<Rightarrow> (nat \<Rightarrow> 'v::zero) \<Rightarrow> nat \<Rightarrow> nat \<Rightarrow> nat res \<Rightarrow> bool" where
  "scan_ok acc rd sz start r \<longleftrightarrow>
     (\<exists>n. (\<forall>i<n. rd (start + i * sz) \<noteq> 0) \<and>
        (let pages = {start div 4096 .. (start + n * sz) div 4096} in
         if \<forall>p\<in>pages. acc (4096 * p) then r = Inr n \<and> rd (start + n * sz) = 0
         else r = Inl (Errno EFAULT)))"

lemma null_loop_returns:
  assumes sz: "0 < sz" and q: "\<not> acc (4096 * q)" "start div 4096 \<le> q"
    and K: "start div 4096 \<le> K" "\<forall>p. start div 4096 \<le> p \<and> p < K \<longrightarrow> acc (4096 * p)"
    and nz: "\<forall>i<len. rd (start + i * sz) \<noteq> 0"
  shows "\<exists>r. null_loop acc rd sz start (4096 * K) len = Some r \<and> scan_ok acc rd sz start r"
  using K nz
proof (induction "4096 * q - (start + len * sz)" arbitrary: K len rule: less_induct)
  case less
  let ?ptr = "start + len * sz"
  let ?all = "\<forall>p. K \<le> p \<and> p \<le> ?ptr div 4096 \<longrightarrow> acc (4096 * p)"
  have all: "?all \<longleftrightarrow> (\<forall>p \<in> {start div 4096 .. ?ptr div 4096}. acc (4096 * p))"
    using less.prems(1,2) by (meson atLeastAtMost_iff linorder_not_le order_trans)
  note step = null_loop.simps [of acc rd sz start "4096 * K" len] check_pages_spec
  show ?case
  proof (cases "?all \<and> rd ?ptr \<noteq> 0")
    case False
    then show ?thesis
      using less.prems(3) all unfolding step scan_ok_def
      by (cases ?all) (auto simp: Let_def intro!: exI [of _ len])
  next
    case True
    then have "?ptr div 4096 < q" using q less.prems(1,2) all by (meson atLeastAtMost_iff linorder_not_le)
    then have "?ptr < 4096 * q" by (simp add: div_less_iff_less_mult mult.commute)
    then have m: "4096 * q - (start + (len + 1) * sz) < 4096 * q - ?ptr" using sz by simp
    have nz: "\<forall>i<len + 1. rd (start + i * sz) \<noteq> 0"
      using less.prems(3) True by (auto simp: less_Suc_eq)
    have "acc (4096 * p)" if "start div 4096 \<le> p" "p < max K (?ptr div 4096 + 1)" for p
      using that less.prems(2) True by (cases "p < K") (auto simp: less_Suc_eq_le)
    then have "\<exists>r. null_loop acc rd sz start (4096 * max K (?ptr div 4096 + 1)) (len + 1) = Some r
        \<and> scan_ok acc rd sz start r"
      using less.hyps [OF m _ _ nz] less.prems(1) by (simp add: max.coboundedI1)
    then show ?thesis unfolding step using True by simp
  qed
qed

lemma unat_layout_array:
  "layout_array T len = Inr l \<Longrightarrow> unat (word_of_nat (lsize l) :: usize) = slice_bytes T len"
  by (auto simp: layout_array_def ISIZE_MAX_def unat_of_nat split: if_splits)

section \<open>Properties\<close>



text \<open>C30. A slice of user memory is handed out only when it is aligned, does not wrap around the address
  space and was checked for reading and writing over exactly its extent. A length whose size in bytes
  exceeds \<open>isize::MAX\<close> panics the kernel, as does an extent that wraps around; no other argument does.\<close>

theorem get_as_mut_slice_spec:
  assumes R: "range_spec R"
  shows "case get_as_mut_slice As M R T p len as of (r, _) \<Rightarrow>
      (r = Inl Panic \<longleftrightarrow> slice_bytes T len > ISIZE_MAX - (lalign T - 1) \<or>
         p AND (word_of_nat (lalign T) - 1) = 0 \<and> unat p + slice_bytes T len \<ge> 2 ^ 64) \<and>
      (r = Inr () \<longrightarrow> p AND (word_of_nat (lalign T) - 1) = 0 \<and> unat p + slice_bytes T len < 2 ^ 64 \<and>
         check_region_access As as p (p + word_of_nat (slice_bytes T len)) {MF_READ, MF_WRITE})"
proof (cases "layout_array T len")
  case (Inl e)
  then show ?thesis by (auto simp: get_as_mut_slice_def layout_array_def split: if_splits)
next
  case (Inr l)
  then have l: "lsize l = slice_bytes T len" "lalign l = lalign T" "\<not> slice_bytes T len > ISIZE_MAX - (lalign T - 1)"
    by (auto simp: layout_array_def split: if_splits)
  have u: "unat (word_of_nat (slice_bytes T len) :: usize) = slice_bytes T len"
    using unat_layout_array [OF Inr] l(1) by simp
  show ?thesis
    using l R [unfolded range_spec_def, rule_format, of p "word_of_nat (slice_bytes T len)"] u
    by (auto simp: get_as_mut_slice_def Inr check_region_def USER_PTR_FLAGS_def from_ax_def Let_def
        split: prod.splits sum.splits)
qed

text \<open>An instance of the range constructor.\<close>

definition checked_range :: range_new where
  "checked_range s n = (if unat s + unat n < 2 ^ 64 then Inr (s, s + n) else Inl Panic)"

theorem get_as_mut_slice_spec_witness:
  "range_spec checked_range \<and>
   fst (get_as_mut_slice free_aspace div_align checked_range \<lparr>lsize = 1, lalign = 1\<rparr> 0x1000 0xFFFFFFFFFFFFFFFF ()) = Inl Panic \<and>
   fst (get_as_mut_slice free_aspace div_align checked_range \<lparr>lsize = 1, lalign = 1\<rparr> 0x1000 4 ()) = Inr ()"
proof (intro conjI)
  show r: "range_spec checked_range" by (simp add: range_spec_def checked_range_def)
  show "fst (get_as_mut_slice free_aspace div_align checked_range \<lparr>lsize = 1, lalign = 1\<rparr> 0x1000 0xFFFFFFFFFFFFFFFF ()) = Inl Panic"
    using get_as_mut_slice_spec [OF r, where As = free_aspace and M = div_align and p = "0x1000" and len = "0xFFFFFFFFFFFFFFFF"
      and T = "\<lparr>lsize = 1, lalign = 1\<rparr>" and as = "()"]
    by (auto simp: slice_bytes_def ISIZE_MAX_def split: prod.splits)
  show "fst (get_as_mut_slice free_aspace div_align checked_range \<lparr>lsize = 1, lalign = 1\<rparr> 0x1000 4 ()) = Inr ()"
    by (simp add: get_as_mut_slice_def layout_array_def slice_bytes_def ISIZE_MAX_def check_region_def checked_range_def
        free_aspace_def from_ax_def)
qed

end
