(* ===== verification/Loader.thy ===== *)
theory Loader
  imports User_Ptr
begin

text \<open>
  Loading programs: \<open>core/src/mm.rs\<close>, \<open>api/src/imp/task/execve.rs\<close> and the page-fault handler of
  \<open>src/src/mm.rs\<close>. The file system, the ELF crates (\<open>xmas_elf\<close>, \<open>kernel_elf_parser\<close>) and the address
  space are parameters; the addresses of the user layout (\<open>axconfig::plat\<close>) are the record \<open>plat\<close>.
\<close>

section \<open>Parameters\<close>

record plat =
  USER_SPACE_BASE :: usize
  USER_SPACE_SIZE :: usize
  USER_INTERP_BASE :: usize
  USER_STACK_TOP :: usize
  USER_STACK_SIZE :: usize
  USER_HEAP_BASE :: usize
  USER_HEAP_SIZE :: usize
  SIGNAL_TRAMPOLINE :: usize

text \<open>The values of \<open>configs/riscv64.toml\<close>.\<close>

definition riscv64 :: plat where
  "riscv64 =
     \<lparr>USER_SPACE_BASE = 0x1000, USER_SPACE_SIZE = 0x3ffffff000, USER_INTERP_BASE = 0x4000000,
      USER_STACK_TOP = 0x400000000, USER_STACK_SIZE = 0x10000, USER_HEAP_BASE = 0x40000000,
      USER_HEAP_SIZE = 0x10000, SIGNAL_TRAMPOLINE = 0x40010000\<rparr>"

record segment =
  seg_vaddr :: usize
  seg_memsz :: u64
  seg_filesz :: u64
  seg_offset :: usize
  seg_flags :: "mapping_flag set"

type_synonym auxv = "(usize \<times> usize) list"

record elf_image =
  ph_load :: "segment list"
  elf_entry :: usize
  auxv_vector :: auxv

text \<open>\<open>elf_interp\<close> is the data of the first \<open>Interp\<close> program header: \<open>None\<close> without such a header,
  \<open>Some None\<close> when its data is not plain bytes.\<close>

record 'elf loader_env =
  read_file :: "string \<Rightarrow> ax_error + u8 list"
  canonical :: "string \<Rightarrow> ax_error + string"
  elf_new :: "u8 list \<Rightarrow> 'elf option"
  elf_interp :: "'elf \<Rightarrow> u8 list option option"
  elf_parser_new :: "'elf \<Rightarrow> usize \<Rightarrow> usize \<Rightarrow> usize \<Rightarrow> elf_image option"
  app_stack_region :: "string list \<Rightarrow> string list \<Rightarrow> auxv \<Rightarrow> usize \<Rightarrow> usize \<Rightarrow> u8 list"

section \<open>Scripts and interpreters\<close>

definition is_ascii_whitespace :: "char \<Rightarrow> bool" where
  "is_ascii_whitespace c \<longleftrightarrow> c \<in> {CHR '' '', CHR 0x09, CHR 0x0A, CHR 0x0C, CHR 0x0D}"

definition trim_ascii :: "string \<Rightarrow> string" where
  "trim_ascii s = rev (dropWhile is_ascii_whitespace (rev (dropWhile is_ascii_whitespace s)))"

definition splitn2 :: "(char \<Rightarrow> bool) \<Rightarrow> string \<Rightarrow> string list" where
  "splitn2 p s =
     (case dropWhile (\<lambda>c. \<not> p c) s of
        [] \<Rightarrow> [s]
      | _ # rest \<Rightarrow> [takeWhile (\<lambda>c. \<not> p c) s, rest])"

definition chars_of :: "u8 list \<Rightarrow> string" where
  "chars_of bs = map (\<lambda>b. char_of (unat b)) bs"

definition has_shebang :: "u8 list \<Rightarrow> bool" where
  "has_shebang bs \<longleftrightarrow> take 2 bs = [0x23, 0x21]"

text \<open>The first line of a script: \<open>None\<close> when the file is not a script or its line is blank.\<close>

definition shebang_args :: "u8 list \<Rightarrow> string list \<Rightarrow> string list option res" where
  "shebang_args file_data args =
     (if has_shebang file_data then
        let head = drop 2 (take 256 file_data);
            line = takeWhile (\<lambda>c. c \<noteq> 0x0A) head
        in if \<not> utf8_ok line then Inl (FromAx InvalidData)
           else
             let trimmed_line = trim_start (chars_of line) in
             if trimmed_line = [] then Inr None
             else
               let new_args =
                 filter (\<lambda>s. s \<noteq> []) (map trim_ascii (splitn2 is_ascii_whitespace trimmed_line)) @ args
               in Inr (if new_args \<noteq> [] then Some new_args else None)
      else Inr None)"

text \<open>\<open>CStr::from_bytes_with_nul(..).to_str()\<close>.\<close>

definition c_str :: "u8 list \<Rightarrow> string res" where
  "c_str bs =
     (if bs \<noteq> [] \<and> last bs = 0 \<and> 0 \<notin> set (butlast bs) \<and> utf8_ok (butlast bs)
      then Inr (chars_of (butlast bs)) else Inl (FromAx InvalidData))"

definition known_interpreters :: "string list" where
  "known_interpreters =
     [''/lib/ld-linux-riscv64-lp64.so.1'', ''/lib/ld-linux-riscv64-lp64d.so.1'',
      ''/lib64/ld-linux-loongarch-lp64d.so.1'', ''/lib64/ld-linux-x86-64.so.2'',
      ''/lib/ld-linux-aarch64.so.1'']"

definition interp_args :: "'elf loader_env \<Rightarrow> 'elf \<Rightarrow> string list \<Rightarrow> string list option res" where
  "interp_args E elf args =
     (case elf_interp E elf of
        None \<Rightarrow> Inr None
      | Some None \<Rightarrow> Inl Panic
      | Some (Some data) \<Rightarrow>
          rbind (c_str data) (\<lambda>path.
            rbind (from_ax (canonical E path)) (\<lambda>interp_path.
              let interp_path = (if interp_path \<in> set known_interpreters then ''/musl/lib/libc.so'' else interp_path)
              in Inr (Some (interp_path # args)))))"

datatype 'elf image = Other "string list" | Elf 'elf

text \<open>What the contents of a file mean: another program to load with these arguments, or an image.\<close>

definition image_step :: "'elf loader_env \<Rightarrow> u8 list \<Rightarrow> string list \<Rightarrow> 'elf image res" where
  "image_step E file_data args =
     rbind (shebang_args file_data args) (\<lambda>sh. case sh of
       Some new_args \<Rightarrow> Inr (Other new_args)
     | None \<Rightarrow>
         (case elf_new E file_data of
            None \<Rightarrow> Inl (FromAx InvalidData)
          | Some elf \<Rightarrow>
              rbind (interp_args E elf args) (\<lambda>ip. case ip of
                Some new_args \<Rightarrow> Inr (Other new_args)
              | None \<Rightarrow> Inr (Elf elf))))"

section \<open>Mapping an image\<close>

definition seg_align_size :: "segment \<Rightarrow> usize" where
  "seg_align_size seg =
     (seg_memsz seg + (seg_vaddr seg mod PAGE_SIZE_4K) + PAGE_SIZE_4K - 1) AND NOT (PAGE_SIZE_4K - 1)"

text \<open>\<open>elf.input.get(a..b)\<close>.\<close>

definition slice_get :: "'a list \<Rightarrow> nat \<Rightarrow> nat \<Rightarrow> 'a list option" where
  "slice_get xs a b = (if a \<le> b \<and> b \<le> length xs then Some (take (b - a) (drop a xs)) else None)"

definition map_segment ::
  "'as aspace_ops \<Rightarrow> align_ops \<Rightarrow> u8 list \<Rightarrow> segment \<Rightarrow> 'as \<Rightarrow> unit res \<times> 'as" where
  "map_segment As M input seg as =
     (if seg_vaddr seg mod PAGE_SIZE_4K \<noteq> seg_offset seg mod PAGE_SIZE_4K then (Inl Panic, as)
      else
        let (r, as) = map_alloc As as (align_down_4k M (seg_vaddr seg)) (seg_align_size seg) (seg_flags seg) True Size4K
        in sbind (from_ax r, as) (\<lambda>_ as.
          case slice_get input (unat (seg_offset seg)) (unat (seg_offset seg + seg_filesz seg)) of
            None \<Rightarrow> (Inl (FromAx InvalidData), as)
          | Some seg_data \<Rightarrow>
              let (r, as) = as_write As as (seg_vaddr seg) Size4K seg_data in (from_ax r, as)))"

primrec map_segments ::
  "'as aspace_ops \<Rightarrow> align_ops \<Rightarrow> u8 list \<Rightarrow> segment list \<Rightarrow> 'as \<Rightarrow> unit res \<times> 'as" where
  "map_segments As M input [] as = (Inr (), as)"
| "map_segments As M input (seg # segs) as =
     sbind (map_segment As M input seg as) (\<lambda>_ as. map_segments As M input segs as)"

definition map_elf ::
  "'elf loader_env \<Rightarrow> plat \<Rightarrow> 'as aspace_ops \<Rightarrow> align_ops \<Rightarrow> 'elf \<Rightarrow> u8 list \<Rightarrow> 'as
   \<Rightarrow> (usize \<times> auxv) res \<times> 'as" where
  "map_elf E P As M elf input as =
     (case elf_parser_new E elf (USER_INTERP_BASE P) (as_base As as) (as_base As as) of
        None \<Rightarrow> (Inl (FromAx InvalidData), as)
      | Some img \<Rightarrow>
          sbind (map_segments As M input (ph_load img) as) (\<lambda>_ as. (Inr (elf_entry img, auxv_vector img), as)))"

definition USER_RW :: "mapping_flag set" where
  "USER_RW = {MF_READ, MF_WRITE, MF_USER}"

definition load_image ::
  "'elf loader_env \<Rightarrow> plat \<Rightarrow> 'as aspace_ops \<Rightarrow> align_ops \<Rightarrow> 'elf \<Rightarrow> u8 list \<Rightarrow> string list \<Rightarrow> string list \<Rightarrow> 'as
   \<Rightarrow> (usize \<times> usize) res \<times> 'as" where
  "load_image E P As M elf input args envs as =
     sbind (map_elf E P As M elf input as) (\<lambda>(entry, auxv) as.
       let ustack_end = USER_STACK_TOP P;
           ustack_size = USER_STACK_SIZE P;
           ustack_start = ustack_end - ustack_size;
           stack_data = app_stack_region E args envs auxv ustack_start ustack_size;
           (r, as) = map_alloc As as ustack_start ustack_size USER_RW True Size4K
       in sbind (from_ax r, as) (\<lambda>_ as.
         let (r, as) = map_alloc As as (USER_HEAP_BASE P) (USER_HEAP_SIZE P) USER_RW True Size4K
         in sbind (from_ax r, as) (\<lambda>_ as.
           let user_sp = ustack_end - word_of_nat (length stack_data);
               (r, as) = as_write As as user_sp Size4K stack_data
           in sbind (from_ax r, as) (\<lambda>_ as. (Inr (entry, user_sp), as)))))"

text \<open>\<open>load_user_app\<close> calls itself for the interpreter of a script or of an image; nothing bounds the
  number of calls, so it is a partial function: \<open>None\<close> when it does not return.\<close>

partial_function (option) load_user_app ::
  "'elf loader_env \<Rightarrow> plat \<Rightarrow> 'as aspace_ops \<Rightarrow> align_ops \<Rightarrow> string \<Rightarrow> string list \<Rightarrow> string list \<Rightarrow> 'as
   \<Rightarrow> ((usize \<times> usize) res \<times> 'as) option" where
  "load_user_app E pl As M path args envs as =
     (if args = [] then Some (Inl (FromAx InvalidInput), as)
      else case read_file E path of
        Inl e \<Rightarrow> Some (Inl (FromAx e), as)
      | Inr file_data \<Rightarrow>
          (case image_step E file_data args of
             Inl e \<Rightarrow> Some (Inl e, as)
           | Inr im \<Rightarrow>
               (case im of
                  Other new_args \<Rightarrow> load_user_app E pl As M (hd new_args) new_args envs as
                | Elf elf \<Rightarrow> Some (load_image E pl As M elf file_data args envs as))))"

section \<open>execve\<close>

record 'as exec_state =
  x_aspace :: 'as
  x_name :: string
  x_exe_path :: string
  x_ip :: usize
  x_sp :: usize

definition validate_executable :: "'elf loader_env \<Rightarrow> u8 list \<Rightarrow> unit res" where
  "validate_executable E bs =
     (if has_shebang bs \<or> elf_new E bs \<noteq> None then Inr () else Inl (Errno ENOEXEC))"

text \<open>\<open>tramp\<close> is the physical address of the signal trampoline.\<close>

definition map_trampoline :: "plat \<Rightarrow> 'as aspace_ops \<Rightarrow> usize \<Rightarrow> 'as \<Rightarrow> unit res \<times> 'as" where
  "map_trampoline P As tramp as =
     (let (r, as) = map_linear As as (SIGNAL_TRAMPOLINE P) tramp PAGE_SIZE_4K {MF_READ, MF_EXECUTE, MF_USER} Size4K
      in (from_ax r, as))"

definition base_name :: "string \<Rightarrow> string" where
  "base_name path = (case rsplit_once (CHR ''/'') path of None \<Rightarrow> path | Some (_, name) \<Rightarrow> name)"

text \<open>\<open>path\<close>, \<open>argv\<close> and \<open>envp\<close> are what reading the user's arguments gives, \<open>nthreads\<close> the number of
  threads of the process, \<open>unmap_all\<close> the operation \<open>unmap_user_areas\<close> of the address space.\<close>

definition sys_execve ::
  "'elf loader_env \<Rightarrow> plat \<Rightarrow> 'as aspace_ops \<Rightarrow> ('as \<Rightarrow> (ax_error + unit) \<times> 'as) \<Rightarrow> align_ops \<Rightarrow> usize
   \<Rightarrow> string res \<Rightarrow> string list res \<Rightarrow> string list res \<Rightarrow> nat \<Rightarrow> 'as exec_state
   \<Rightarrow> (isize res \<times> 'as exec_state) option" where
  "sys_execve E P As unmap_all M tramp path argv envp nthreads S =
     (case rbind path (\<lambda>path. rbind argv (\<lambda>args. rbind envp (\<lambda>envs.
         if nthreads > 1 then Inl (Errno EAGAIN)
         else case read_file E path of
           Inl _ \<Rightarrow> Inl (Errno ENOENT)
         | Inr file_data \<Rightarrow> rbind (validate_executable E file_data) (\<lambda>_. Inr (path, args, envs))))) of
        Inl e \<Rightarrow> Some (Inl e, S)
      | Inr (path, args, envs) \<Rightarrow>
          (case (let (r, as) = unmap_all (x_aspace S)
                 in sbind (from_ax r, as) (\<lambda>_ as. map_trampoline P As tramp as)) of
             (Inl e, as) \<Rightarrow> Some (Inl e, S\<lparr>x_aspace := as\<rparr>)
           | (Inr _, as) \<Rightarrow>
               (case load_user_app E P As M path args envs as of
                  None \<Rightarrow> None
                | Some (Inl e, as) \<Rightarrow>
                    Some (Inl (if e = Panic then Panic else Errno ENOENT), S\<lparr>x_aspace := as\<rparr>)
                | Some (Inr (entry_point, user_stack_base), as) \<Rightarrow>
                    Some (Inr 0, S\<lparr>x_aspace := as, x_name := base_name path, x_exe_path := path,
                                   x_ip := entry_point, x_sp := user_stack_base\<rparr>))))"

section \<open>Access to user memory and page faults\<close>

text \<open>The per-CPU flag that lets page faults in the kernel be served.\<close>

definition access_user_memory :: "(bool \<times> 's \<Rightarrow> 'r \<times> bool \<times> 's) \<Rightarrow> bool \<times> 's \<Rightarrow> 'r \<times> bool \<times> 's" where
  "access_user_memory f v = (case f (True, snd v) of (r, _, s) \<Rightarrow> (r, False, s))"

datatype fault_result = NotHandled | Handled | Exited

text \<open>\<open>serve\<close> is \<open>AddrSpace::handle_page_fault\<close>; a fault it cannot serve ends the process with SIGSEGV.\<close>

definition handle_page_fault ::
  "('as \<Rightarrow> usize \<Rightarrow> mapping_flag set \<Rightarrow> bool \<times> 'as) \<Rightarrow> usize \<Rightarrow> mapping_flag set \<Rightarrow> bool \<Rightarrow> bool \<Rightarrow> 'as
   \<Rightarrow> fault_result \<times> 'as" where
  "handle_page_fault serve vaddr access_flags is_user accessing as =
     (if \<not> is_user \<and> \<not> accessing then (NotHandled, as)
      else case serve as vaddr access_flags of
        (True, as) \<Rightarrow> (Handled, as)
      | (False, as) \<Rightarrow> (Exited, as))"

section \<open>Chains of interpreters\<close>

definition exec_next :: "'elf loader_env \<Rightarrow> string \<times> string list \<Rightarrow> (string \<times> string list) option" where
  "exec_next E x = (case x of (path, args) \<Rightarrow>
     if args = [] then None
     else case read_file E path of
       Inl _ \<Rightarrow> None
     | Inr file_data \<Rightarrow>
         (case image_step E file_data args of Inr (Other new_args) \<Rightarrow> Some (hd new_args, new_args) | _ \<Rightarrow> None))"

primrec exec_iter :: "'elf loader_env \<Rightarrow> nat \<Rightarrow> string \<times> string list \<Rightarrow> (string \<times> string list) option" where
  "exec_iter E 0 x = Some x"
| "exec_iter E (Suc n) x = (case exec_next E x of None \<Rightarrow> None | Some y \<Rightarrow> exec_iter E n y)"

lemma load_user_app_step:
  "load_user_app E P As M path args envs as =
     (case exec_next E (path, args) of
        Some (path', args') \<Rightarrow> load_user_app E P As M path' args' envs as
      | None \<Rightarrow>
          Some (if args = [] then (Inl (FromAx InvalidInput), as)
            else case read_file E path of
              Inl e \<Rightarrow> (Inl (FromAx e), as)
            | Inr file_data \<Rightarrow>
                (case image_step E file_data args of
                   Inr (Elf elf) \<Rightarrow> load_image E P As M elf file_data args envs as
                 | Inl e \<Rightarrow> (Inl e, as)
                 | _ \<Rightarrow> (Inl Panic, as))))"
  by (subst load_user_app.simps) (auto simp: exec_next_def split: sum.splits image.splits)

lemma load_user_app_returns:
  "exec_iter E n (path, args) = None \<Longrightarrow> \<exists>r. load_user_app E P As M path args envs as = Some r"
proof (induction n arbitrary: path args)
  case (Suc n)
  then show ?case
    by (subst load_user_app_step) (auto split: option.splits)
qed simp


lemma load_user_app_chain_ends:
  fixes E :: "'elf loader_env" and As :: "'as aspace_ops"
  assumes "load_user_app E P As M path args envs as = Some r"
  shows "\<exists>n. exec_iter E n (path, args) = None"
proof -
  have next_None: "\<exists>n. exec_iter E n x = None" if "exec_next E x = None"
    for E :: "'elf loader_env" and x using that by (intro exI [of _ 1]) simp
  have next_Some: "\<exists>n. exec_iter E n x = None" if "exec_next E x = Some y" "\<exists>n. exec_iter E n y = None"
    for E :: "'elf loader_env" and x y
  proof -
    from that(2) obtain n where "exec_iter E n y = None" by blast
    with that(1) show ?thesis by (intro exI [of _ "Suc n"]) simp
  qed
  let ?Q = "\<lambda>E _ _ _ path args _ _ _. \<exists>n. exec_iter E n (path, args) = None"
  show ?thesis
  proof (rule load_user_app.raw_induct [where P = ?Q, OF _ assms])
    fix load and E :: "'elf loader_env" and P and As :: "'as aspace_ops" and M path args envs as r
    assume IH: "\<And>E P As M path args envs as y. load E P As M path args envs as = Some y
        \<Longrightarrow> \<exists>n. exec_iter (E :: 'elf loader_env) n (path, args) = None"
      and eq: "(if args = [] then Some (Inl (FromAx InvalidInput), as)
      else case read_file E path of
        Inl e \<Rightarrow> Some (Inl (FromAx e), as)
      | Inr file_data \<Rightarrow>
          (case image_step E file_data args of
             Inl e \<Rightarrow> Some (Inl e, as)
           | Inr im \<Rightarrow>
               (case im of
                  Other new_args \<Rightarrow> load E P As M (hd new_args) new_args envs as
                | Elf elf \<Rightarrow> Some (load_image E P As M elf file_data args envs as)))) = Some r"
    show "\<exists>n. exec_iter E n (path, args) = None"
    proof (cases "exec_next E (path, args)")
      case None
      then show ?thesis by (rule next_None)
    next
      case (Some y)
      then have "\<exists>n. exec_iter E n y = None"
        using eq by (auto simp: exec_next_def intro: IH split: if_splits sum.splits image.splits)
      with Some show ?thesis by (rule next_Some)
    qed
  qed
qed

text \<open>A program that is its own interpreter is never loaded.\<close>

lemma self_interpreter_loops:
  assumes "\<And>args. args \<noteq> [] \<Longrightarrow> \<exists>args'. args' \<noteq> [] \<and> exec_next E (path, args) = Some (path, args')" "args \<noteq> []"
  shows "load_user_app E P As M path args envs as = None"
proof -
  have iter: "exec_iter E n (path, args) \<noteq> None" if "args \<noteq> []" for n args
    using that
  proof (induction n arbitrary: args)
    case (Suc n)
    from assms(1) [OF Suc.prems] obtain args' where "args' \<noteq> []" "exec_next E (path, args) = Some (path, args')" by blast
    then show ?case using Suc.IH [of args'] by simp
  qed simp
  show ?thesis
  proof (rule ccontr)
    assume "load_user_app E P As M path args envs as \<noteq> None"
    then obtain r where "load_user_app E P As M path args envs as = Some r" by (auto simp: not_None_eq)
    from load_user_app_chain_ends [OF this] obtain n where "exec_iter E n (path, args) = None" by blast
    then show False using iter [OF assms(2), of n] by simp
  qed
qed

text \<open>A file system with one image and the script \<open>#!/s\<close> at \<open>/s\<close>.\<close>

definition demo_env :: "unit loader_env" where
  "demo_env =
     \<lparr>read_file = (\<lambda>p. if p = ''/bin/a'' then Inr [0x7F] else if p = ''/s'' then Inr [0x23, 0x21, 0x2F, 0x73, 0x0A]
        else Inl NotFound),
      canonical = Inr, elf_new = (\<lambda>bs. if has_shebang bs then None else Some ()), elf_interp = (\<lambda>_. None),
      elf_parser_new = (\<lambda>_ _ _ _. Some \<lparr>ph_load = [], elf_entry = 0x1000, auxv_vector = []\<rparr>),
      app_stack_region = (\<lambda>_ _ _ _ _. [0, 0])\<rparr>"

lemma demo_script_loops: "args \<noteq> [] \<Longrightarrow> load_user_app demo_env P As M ''/s'' args envs as = None"
proof (rule self_interpreter_loops)
  fix args :: "string list" assume ne: "args \<noteq> []"
  have "shebang_args [0x23, 0x21, 0x2F, 0x73, 0x0A] args = Inr (Some (''/s'' # args))"
    by (simp add: shebang_args_def has_shebang_def chars_of_def trim_start_def is_whitespace_def splitn2_def
        is_ascii_whitespace_def trim_ascii_def char_of_def bit_0)
  then have "exec_next demo_env (''/s'', args) = Some (''/s'', ''/s'' # args)"
    using ne by (simp add: exec_next_def demo_env_def image_step_def)
  then show "\<exists>args'. args' \<noteq> [] \<and> exec_next demo_env (''/s'', args) = Some (''/s'', args')" by blast
qed

section \<open>Properties\<close>


text \<open>C26. When execve fails, the registers, the name and the path of the process are untouched; the
  address space is untouched too unless all arguments were readable, the process has one thread and
  the file can be read and looks executable. When it succeeds, there was at least one argument, the
  program was loaded into the emptied address space, and the registers, the name and the path are
  those of the program.\<close>

theorem sys_execve_spec:
  assumes "sys_execve E P As un M tramp path argv envp nthreads S = Some (r, T)"
  shows "case r of
      Inl e \<Rightarrow> T = S\<lparr>x_aspace := x_aspace T\<rparr> \<and>
        (T \<noteq> S \<longrightarrow> nthreads \<le> 1 \<and> (\<exists>p args envs d. path = Inr p \<and> argv = Inr args \<and> envp = Inr envs \<and>
           read_file E p = Inr d \<and> validate_executable E d = Inr ()))
    | Inr v \<Rightarrow> v = 0 \<and> (\<exists>p a args envs as. path = Inr p \<and> argv = Inr (a # args) \<and> envp = Inr envs \<and>
        load_user_app E P As M p (a # args) envs as = Some (Inr (x_ip T, x_sp T), x_aspace T) \<and>
        x_exe_path T = p \<and> x_name T = base_name p)"
proof -
  define pre where "pre = rbind path (\<lambda>path. rbind argv (\<lambda>args. rbind envp (\<lambda>envs.
         if nthreads > 1 then Inl (Errno EAGAIN)
         else case read_file E path of
           Inl _ \<Rightarrow> Inl (Errno ENOENT)
         | Inr file_data \<Rightarrow> rbind (validate_executable E file_data) (\<lambda>_. Inr (path, args, envs)))))"
  note eq = assms [unfolded sys_execve_def, folded pre_def]
  show ?thesis
  proof (cases pre)
    case (Inl e)
    then show ?thesis using eq by auto
  next
    case (Inr x)
    then obtain p args envs d where x: "x = (p, args, envs)" and arg: "path = Inr p" "argv = Inr args" "envp = Inr envs"
      "nthreads \<le> 1" "read_file E p = Inr d" "validate_executable E d = Inr ()"
      by (auto simp: pre_def res_simps split: if_splits sum.splits)
    obtain c as where c: "(let (r, as) = un (x_aspace S) in sbind (from_ax r, as) (\<lambda>_ as. map_trampoline P As tramp as)) = (c, as)"
      by fastforce
    have ne: "args \<noteq> []" if "load_user_app E P As M p args envs as = Some (Inr y, as')" for y as'
      using that by (subst (asm) load_user_app.simps) (auto split: if_splits)
    show ?thesis
      using eq arg ne unfolding Inr x sum.case prod.case c
      by (auto split: sum.splits option.splits prod.splits simp: neq_Nil_conv)
  qed
qed

theorem sys_execve_spec_witness:
  "\<exists>T. sys_execve demo_env riscv64 free_aspace (\<lambda>as. (Inr (), as)) div_align 0 (Inr ''/bin/a'') (Inr [''a'']) (Inr []) 1
     \<lparr>x_aspace = (), x_name = [], x_exe_path = [], x_ip = 0, x_sp = 0\<rparr> = Some (Inr 0, T) \<and>
     x_exe_path T = ''/bin/a'' \<and> x_ip T = 0x1000 \<and> x_sp T = 0x3FFFFFFFE"
proof -
  have load: "load_user_app demo_env riscv64 free_aspace div_align ''/bin/a'' [''a''] [] () =
      Some (Inr (0x1000, 0x3FFFFFFFE), ())"
    by (subst load_user_app.simps)
      (simp add: demo_env_def image_step_def shebang_args_def has_shebang_def interp_args_def load_image_def
        map_elf_def riscv64_def free_aspace_def)
  obtain T where T: "sys_execve demo_env riscv64 free_aspace (\<lambda>as. (Inr (), as)) div_align 0 (Inr ''/bin/a'') (Inr [''a''])
      (Inr []) 1 \<lparr>x_aspace = (), x_name = [], x_exe_path = [], x_ip = 0, x_sp = 0\<rparr> = Some (Inr 0, T)"
    "x_ip T = 0x1000 \<and> x_sp T = 0x3FFFFFFFE"
    using load by (simp add: sys_execve_def demo_env_def validate_executable_def has_shebang_def map_trampoline_def
        free_aspace_def riscv64_def)
  show ?thesis using sys_execve_spec [OF T(1)] T by auto
qed

text \<open>Calling execve with an empty argument vector fails with ENOENT, but only after the address
  space of the caller has been emptied: the process returns to memory that is no longer mapped.\<close>

theorem sys_execve_empty_argv:
  assumes "nthreads \<le> 1" and "read_file E p = Inr d" and "validate_executable E d = Inr ()"
    and "un (x_aspace S) = (Inr (), as1)" and "map_trampoline P As tramp as1 = (Inr (), as2)"
  shows "sys_execve E P As un M tramp (Inr p) (Inr []) (Inr envs) nthreads S = Some (Inl (Errno ENOENT), S\<lparr>x_aspace := as2\<rparr>)"
  using assms by (simp add: sys_execve_def load_user_app.simps)

theorem sys_execve_empty_argv_witness:
  "sys_execve demo_env riscv64 free_aspace (\<lambda>as. (Inr (), as)) div_align 0 (Inr ''/bin/a'') (Inr []) (Inr []) 1
     \<lparr>x_aspace = (), x_name = [], x_exe_path = [], x_ip = 0, x_sp = 0\<rparr> =
   Some (Inl (Errno ENOENT), \<lparr>x_aspace = (), x_name = [], x_exe_path = [], x_ip = 0, x_sp = 0\<rparr>)"
  using sys_execve_empty_argv [of 1 demo_env "''/bin/a''" "[0x7F]" "\<lambda>as. (Inr (), as)"
      "\<lparr>x_aspace = (), x_name = [], x_exe_path = [], x_ip = 0, x_sp = 0\<rparr>" "()" riscv64 free_aspace 0 "()" div_align "[]"]
  by (simp add: demo_env_def validate_executable_def has_shebang_def map_trampoline_def free_aspace_def)

end
