(* ===== verification/Mmap.thy ===== *)
theory Mmap
  imports Loader File_Like
begin

text \<open>
  The memory calls \<open>api/src/imp/mm/mmap.rs\<close> and \<open>api/src/imp/mm/brk.rs\<close> with the heap bounds of
  \<open>ProcessData\<close> (\<open>core/src/task.rs\<close>). The address space and the open files of axfs are parameters.
\<close>

section \<open>The heap\<close>

record heap_bounds =
  heap_bottom :: usize
  heap_top :: usize

definition heap_new :: "plat \<Rightarrow> heap_bounds" where
  "heap_new P = \<lparr>heap_bottom = USER_HEAP_BASE P, heap_top = USER_HEAP_BASE P\<rparr>"

text \<open>The atomic fields are read and written one at a time.\<close>

definition get_heap_bottom :: "heap_bounds \<Rightarrow> usize" where
  [simp]: "get_heap_bottom h = heap_bottom h"

definition set_heap_bottom :: "usize \<Rightarrow> heap_bounds \<Rightarrow> heap_bounds" where
  [simp]: "set_heap_bottom a h = h\<lparr>heap_bottom := a\<rparr>"

definition get_heap_top :: "heap_bounds \<Rightarrow> usize" where
  [simp]: "get_heap_top h = heap_top h"

definition set_heap_top :: "usize \<Rightarrow> heap_bounds \<Rightarrow> heap_bounds" where
  [simp]: "set_heap_top a h = h\<lparr>heap_top := a\<rparr>"

definition sys_brk :: "plat \<Rightarrow> usize \<Rightarrow> heap_bounds \<Rightarrow> isize res \<times> heap_bounds" where
  "sys_brk P addr h =
     (if addr \<noteq> 0 \<and> addr \<ge> get_heap_bottom h \<and> addr \<le> get_heap_bottom h + USER_HEAP_SIZE P
      then (Inr addr, set_heap_top addr h) else (Inr (get_heap_top h), h))"

section \<open>Flags\<close>

definition PROT_READ :: u32 where "PROT_READ = 1"
definition PROT_WRITE :: u32 where "PROT_WRITE = 2"
definition PROT_EXEC :: u32 where "PROT_EXEC = 4"
definition PROT_GROWSDOWN :: u32 where "PROT_GROWSDOWN = 0x01000000"
definition PROT_GROWSUP :: u32 where "PROT_GROWSUP = 0x02000000"

definition MmapProt_all :: u32 where
  "MmapProt_all = PROT_READ OR PROT_WRITE OR PROT_EXEC OR PROT_GROWSDOWN OR PROT_GROWSUP"

definition MAP_SHARED :: u32 where "MAP_SHARED = 1"
definition MAP_PRIVATE :: u32 where "MAP_PRIVATE = 2"
definition MAP_FIXED :: u32 where "MAP_FIXED = 0x10"
definition MAP_ANONYMOUS :: u32 where "MAP_ANONYMOUS = 0x20"
definition MAP_NORESERVE :: u32 where "MAP_NORESERVE = 0x4000"
definition MAP_STACK :: u32 where "MAP_STACK = 0x20000"
definition MAP_HUGETLB :: u32 where "MAP_HUGETLB = 0x40000"
definition MAP_HUGE_1GB :: u32 where "MAP_HUGE_1GB = 0x78000000"

definition MmapFlags_all :: u32 where
  "MmapFlags_all = MAP_SHARED OR MAP_PRIVATE OR MAP_FIXED OR MAP_ANONYMOUS OR MAP_NORESERVE OR MAP_STACK
     OR MAP_HUGETLB OR MAP_HUGE_1GB"

text \<open>The methods of \<open>bitflags\<close>: \<open>contains\<close>, \<open>from_bits_truncate\<close> and \<open>from_bits\<close>.\<close>

definition contains_flag :: "u32 \<Rightarrow> u32 \<Rightarrow> bool" where
  "contains_flag f g \<longleftrightarrow> f AND g = g"

definition from_bits :: "u32 \<Rightarrow> u32 \<Rightarrow> u32 option" where
  "from_bits all b = (if b AND NOT all = 0 then Some b else None)"

definition mapping_flags_from :: "u32 \<Rightarrow> mapping_flag set" where
  "mapping_flags_from v =
     {MF_USER} \<union> (if contains_flag v PROT_READ then {MF_READ} else {})
     \<union> (if contains_flag v PROT_WRITE then {MF_WRITE} else {})
     \<union> (if contains_flag v PROT_EXEC then {MF_EXECUTE} else {})"

section \<open>System calls\<close>

definition page_bits :: "page_size \<Rightarrow> nat" where
  "page_bits ps = (case ps of Size4K \<Rightarrow> 12 | Size2M \<Rightarrow> 21 | Size1G \<Rightarrow> 30)"

definition mmap_page_size :: "u32 \<Rightarrow> page_size" where
  "mmap_page_size map_flags =
     (if contains_flag map_flags (MAP_HUGETLB OR MAP_HUGE_1GB) then Size1G
      else if contains_flag map_flags MAP_HUGETLB then Size2M else Size4K)"

text \<open>What the call asks of the open file: its size and a read at an offset.\<close>

record 'f mmap_file =
  mf_size :: "'f \<Rightarrow> ax_error + u64"
  mf_read_at :: "'f \<Rightarrow> u64 \<Rightarrow> nat \<Rightarrow> ax_error + u8 list"

definition mmap_start ::
  "'as aspace_ops \<Rightarrow> u32 \<Rightarrow> page_size \<Rightarrow> usize \<Rightarrow> usize \<Rightarrow> 'as \<Rightarrow> usize res \<times> 'as" where
  "mmap_start As map_flags ps start aligned_length as =
     (if contains_flag map_flags MAP_FIXED then
        if start = 0 then (Inl (Errno EINVAL), as)
        else let (r, as) = as_unmap As as start aligned_length
             in sbind (from_ax r, as) (\<lambda>_ as. (Inr start, as))
      else
        (ok_or (case find_free_area As as start aligned_length (as_base As as, as_end As as) ps of
                  Some a \<Rightarrow> Some a
                | None \<Rightarrow> find_free_area As as (as_base As as) aligned_length (as_base As as, as_end As as) ps)
           ENOMEM, as))"

definition mmap_populate ::
  "'as aspace_ops \<Rightarrow> 'f mmap_file \<Rightarrow> 'f res \<Rightarrow> usize \<Rightarrow> usize \<Rightarrow> page_size \<Rightarrow> isize \<Rightarrow> 'as \<Rightarrow> unit res \<times> 'as" where
  "mmap_populate As Fl file start_addr len ps offset as =
     (case rbind file (\<lambda>f.
         rbind (from_ax (mf_size Fl f)) (\<lambda>file_size.
           if offset <s 0 \<or> offset \<ge> file_size then Inl (Errno EINVAL)
           else
             let n = unat (min len (file_size - offset))
             in rbind (from_ax (mf_read_at Fl f offset n)) (\<lambda>bs.
                  Inr (take n bs @ replicate (n - length bs) 0)))) of
        Inl e \<Rightarrow> (Inl e, as)
      | Inr buf \<Rightarrow> let (r, as) = as_write As as start_addr ps buf in (from_ax r, as))"

text \<open>\<open>file\<close> is what \<open>File::from_fd(fd)\<close> gives.\<close>

definition sys_mmap ::
  "'as aspace_ops \<Rightarrow> align_ops \<Rightarrow> 'f mmap_file \<Rightarrow> 'f res \<Rightarrow> usize \<Rightarrow> usize \<Rightarrow> u32 \<Rightarrow> u32 \<Rightarrow> i32 \<Rightarrow> isize \<Rightarrow> 'as
   \<Rightarrow> isize res \<times> 'as" where
  "sys_mmap As M Fl file addr len prot flags fd offset as =
     (let permission_flags = prot AND MmapProt_all;
          map_flags = flags AND MmapFlags_all
      in if contains_flag map_flags (MAP_PRIVATE OR MAP_SHARED) then (Inl (Errno EINVAL), as)
      else
        let ps = mmap_page_size map_flags;
            start = align_down M addr (2 ^ page_bits ps);
            end_addr = align_up M (addr + len) (2 ^ page_bits ps);
            aligned_length = end_addr - start
        in sbind (mmap_start As map_flags ps start aligned_length as) (\<lambda>start_addr as.
          let populate = (if fd = - 1 then False else \<not> contains_flag map_flags MAP_ANONYMOUS);
              (r, as) = map_alloc As as start_addr aligned_length (mapping_flags_from permission_flags) populate ps
          in sbind (from_ax r, as) (\<lambda>_ as.
            if populate
            then sbind (mmap_populate As Fl file start_addr len ps offset as) (\<lambda>_ as. (Inr start_addr, as))
            else (Inr start_addr, as))))"

definition sys_munmap :: "'as aspace_ops \<Rightarrow> align_ops \<Rightarrow> usize \<Rightarrow> usize \<Rightarrow> 'as \<Rightarrow> isize res \<times> 'as" where
  "sys_munmap As M addr len as =
     (let (r, as) = as_unmap As as addr (align_up_4k M len)
      in sbind (from_ax r, as) (\<lambda>_ as. (Inr 0, as)))"

definition sys_mprotect :: "'as aspace_ops \<Rightarrow> align_ops \<Rightarrow> usize \<Rightarrow> usize \<Rightarrow> u32 \<Rightarrow> 'as \<Rightarrow> isize res \<times> 'as" where
  "sys_mprotect As M addr len prot as =
     (case from_bits MmapProt_all prot of
        None \<Rightarrow> (Inl (Errno EINVAL), as)
      | Some permission_flags \<Rightarrow>
          if contains_flag permission_flags (PROT_GROWSDOWN OR PROT_GROWSUP) then (Inl (Errno EINVAL), as)
          else
            let (r, as) = as_protect As as addr (align_up_4k M len) (mapping_flags_from permission_flags)
            in sbind (from_ax r, as) (\<lambda>_ as. (Inr 0, as)))"

section \<open>Lemmas\<close>

lemma brk_step:
  assumes "heap_bottom h = b" "b \<le> heap_top h \<and> heap_top h \<le> b + USER_HEAP_SIZE P"
  shows "heap_bottom (snd (sys_brk P a h)) = b"
    "b \<le> heap_top (snd (sys_brk P a h)) \<and> heap_top (snd (sys_brk P a h)) \<le> b + USER_HEAP_SIZE P"
  using assms by (auto simp: sys_brk_def)

lemma brk_fold:
  assumes "heap_bottom h = b" "b \<le> heap_top h \<and> heap_top h \<le> b + USER_HEAP_SIZE P"
  shows "heap_bottom (fold (\<lambda>a h. snd (sys_brk P a h)) as h) = b \<and>
    b \<le> heap_top (fold (\<lambda>a h. snd (sys_brk P a h)) as h) \<and>
    heap_top (fold (\<lambda>a h. snd (sys_brk P a h)) as h) \<le> b + USER_HEAP_SIZE P"
  using assms
proof (induction as arbitrary: h)
  case (Cons a as)
  show ?case unfolding fold_simps by (rule Cons.IH) (use brk_step [OF Cons.prems] in auto)
qed simp

lemma round_cover:
  fixes a l q :: nat
  assumes "0 < q"
  shows "q dvd (a + l + (q - 1)) div q * q - a div q * q"
    "a div q * q \<le> (a + l + (q - 1)) div q * q"
    "a + l \<le> (a + l + (q - 1)) div q * q"
    "(a + l + (q - 1)) div q * q - a div q * q < l + 2 * q"
    "l \<le> (a + l + (q - 1)) div q * q - a div q * q"
proof -
  show "q dvd (a + l + (q - 1)) div q * q - a div q * q" by (intro dvd_diff_nat) simp_all
  show 1: "a div q * q \<le> (a + l + (q - 1)) div q * q" by (intro mult_le_mono1 div_le_mono) simp
  have m: "(a + l + (q - 1)) mod q < q" "a mod q < q" using assms by simp_all
  have e: "(a + l + (q - 1)) div q * q + (a + l + (q - 1)) mod q = a + l + (q - 1)" "a div q * q + a mod q = a"
    by simp_all
  show "a + l \<le> (a + l + (q - 1)) div q * q" using m(1) e(1) by linarith
  show "(a + l + (q - 1)) div q * q - a div q * q < l + 2 * q" using m(2) e assms by linarith
  show "l \<le> (a + l + (q - 1)) div q * q - a div q * q" using m(1) e by linarith
qed

definition covers :: "nat \<Rightarrow> usize \<Rightarrow> usize \<Rightarrow> bool \<Rightarrow> usize \<Rightarrow> usize \<Rightarrow> bool" where
  "covers q addr len fixed r n \<longleftrightarrow>
     q dvd unat n \<and> unat len \<le> unat n \<and> unat n < unat len + 2 * q \<and>
     (fixed \<longrightarrow> q dvd unat r \<and> unat r \<le> unat addr \<and> unat addr + unat len \<le> unat r + unat n)"

lemma aligned_covers:
  assumes M: "align_spec M" and k: "k < 64" and b: "unat addr + unat len + (2 ^ k - 1) < 2 ^ 64"
    and r: "fixed \<Longrightarrow> r = align_down M addr (2 ^ k)"
  shows "covers (2 ^ k) addr len fixed r (align_up M (addr + len) (2 ^ k) - align_down M addr (2 ^ k))"
proof -
  have "unat addr + unat len < 2 ^ 64" using b by linarith
  then have s: "unat (addr + len) = unat addr + unat len" by (simp add: unat_word_ariths)
  have d: "unat (align_down M addr (2 ^ k)) = unat addr div 2 ^ k * 2 ^ k"
    and u: "unat (align_up M (addr + len) (2 ^ k)) = (unat addr + unat len + (2 ^ k - 1)) div 2 ^ k * 2 ^ k"
    using M [unfolded align_spec_def, rule_format, OF k] b s by auto
  note c = round_cover [where q = "2 ^ k" and a = "unat addr" and l = "unat len", simplified]
  have n: "unat (align_up M (addr + len) (2 ^ k) - align_down M addr (2 ^ k)) =
      (unat addr + unat len + (2 ^ k - 1)) div 2 ^ k * 2 ^ k - unat addr div 2 ^ k * 2 ^ k"
    using c(2) d u by (subst unat_sub) (simp_all add: word_le_nat_alt)
  show ?thesis
    unfolding covers_def n using c r d by auto
qed

section \<open>Properties\<close>



text \<open>When the file of a mapping cannot be used (a descriptor that is not open, or not a file), mmap
  returns the error but keeps what it did before: with MAP_FIXED the old mappings in the range are
  gone, and in every case the new pages stay mapped at an address the caller is not told.\<close>

theorem sys_mmap_failure_keeps_mapping:
  assumes "mf = flags AND MmapFlags_all" and "ps = mmap_page_size mf"
    and "start = align_down M addr (2 ^ page_bits ps)"
    and "n = align_up M (addr + len) (2 ^ page_bits ps) - start"
    and "\<not> contains_flag mf (MAP_PRIVATE OR MAP_SHARED)" and "\<not> contains_flag mf MAP_ANONYMOUS" and "fd \<noteq> - 1"
    and "mmap_start As mf ps start n as = (Inr a, as1)"
    and "map_alloc As as1 a n (mapping_flags_from (prot AND MmapProt_all)) True ps = (Inr (), as2)"
  shows "sys_mmap As M Fl (Inl e) addr len prot flags fd offset as = (Inl e, as2)"
  using assms by (simp add: sys_mmap_def Let_def mmap_populate_def)

theorem sys_mmap_failure_keeps_mapping_witness:
  "let As = \<lparr>as_base = (\<lambda>_. 0x1000), as_end = (\<lambda>_. 0x100000), contains_range = (\<lambda>_ _ _. False),
      find_free_area = (\<lambda>_ hint _ _ _. Some 0x8000),
      map_linear = (\<lambda>as _ _ _ _ _. (Inr (), as)), map_alloc = (\<lambda>as v n _ _ _. (Inr (), (v, n) # as)),
      as_unmap = (\<lambda>as _ _. (Inr (), as)), as_protect = (\<lambda>as _ _ _. (Inr (), as)),
      as_write = (\<lambda>as _ _ _. (Inr (), as)), check_region_access = (\<lambda>_ _ _ _. True),
      populate_area = (\<lambda>as _ _ _. (Inr (), as))\<rparr>
   in sys_mmap As div_align \<lparr>mf_size = (\<lambda>_. Inr 0), mf_read_at = (\<lambda>_ _ _. Inr [])\<rparr> (Inl (Errno EBADF) :: unit res)
        0 0x1000 1 2 77 0 ([] :: (usize \<times> usize) list) = (Inl (Errno EBADF), [(0x8000, 0x1000)])"
  unfolding Let_def
  by (rule sys_mmap_failure_keeps_mapping [OF refl refl refl refl])
    (simp_all add: contains_flag_def mmap_page_size_def page_bits_def mmap_start_def div_align_def
      MmapFlags_all_def MmapProt_all_def MAP_SHARED_def MAP_PRIVATE_def MAP_FIXED_def
      MAP_ANONYMOUS_def MAP_NORESERVE_def MAP_STACK_def MAP_HUGETLB_def MAP_HUGE_1GB_def)

text \<open>C32. Whatever a process asks of brk, and in any order, the top of its heap stays within the heap
  that \<open>load_user_app\<close> mapped for it; a request within those bounds is granted, any other leaves the top
  where it was, and the call returns the top.\<close>

theorem sys_brk_bounds:
  assumes "unat (USER_HEAP_BASE P) + unat (USER_HEAP_SIZE P) < 2 ^ 64"
    and "h = fold (\<lambda>a h. snd (sys_brk P a h)) requests (heap_new P)"
  shows "USER_HEAP_BASE P \<le> heap_top h \<and> heap_top h \<le> USER_HEAP_BASE P + USER_HEAP_SIZE P \<and>
    (case sys_brk P addr h of (r, h') \<Rightarrow> r = Inr (heap_top h') \<and>
       heap_top h' = (if addr \<noteq> 0 \<and> USER_HEAP_BASE P \<le> addr \<and> addr \<le> USER_HEAP_BASE P + USER_HEAP_SIZE P
                      then addr else heap_top h))"
proof -
  have "USER_HEAP_BASE P \<le> USER_HEAP_BASE P + USER_HEAP_SIZE P"
    using assms(1) by (simp add: word_le_nat_alt unat_word_ariths)
  then have "heap_bottom h = USER_HEAP_BASE P \<and> USER_HEAP_BASE P \<le> heap_top h
      \<and> heap_top h \<le> USER_HEAP_BASE P + USER_HEAP_SIZE P"
    unfolding assms(2) by (intro brk_fold) (simp_all add: heap_new_def)
  then show ?thesis by (simp add: sys_brk_def)
qed

theorem sys_brk_bounds_witness:
  "case sys_brk riscv64 0x40008000 (heap_new riscv64) of (r, h) \<Rightarrow> r = Inr (heap_top h) \<and> heap_top h = 0x40008000"
  using sys_brk_bounds [of riscv64 "heap_new riscv64" "[]" "0x40008000"] by (simp add: riscv64_def)

end
