(* ===== verification/Axfs.thy ===== *)
theory Axfs
  imports Kernel_Prelude
begin

text \<open>
  The file system interface \<open>axfs::api\<close> (an external crate) as a record of operations on an abstract
  state \<open>'fs\<close>. Only the shapes of the calls are given: the theories that use an operation say what
  they rely on.
\<close>

record 'fs axfs =
  canonicalize :: "'fs \<Rightarrow> string \<Rightarrow> ax_error + string"
  absolute_path_exists :: "'fs \<Rightarrow> string \<Rightarrow> bool"
  metadata_is_dir :: "'fs \<Rightarrow> string \<Rightarrow> ax_error + bool"
  current_dir :: "'fs \<Rightarrow> ax_error + string"
  read_link :: "'fs \<Rightarrow> string \<Rightarrow> nat \<Rightarrow> ax_error + u8 list"
  remove_file :: "'fs \<Rightarrow> string \<Rightarrow> (ax_error + unit) \<times> 'fs"
  remove_dir :: "'fs \<Rightarrow> string \<Rightarrow> (ax_error + unit) \<times> 'fs"
  create_dir :: "'fs \<Rightarrow> string \<Rightarrow> (ax_error + unit) \<times> 'fs"
  set_current_dir :: "'fs \<Rightarrow> string \<Rightarrow> (ax_error + unit) \<times> 'fs"
  create_symlink :: "'fs \<Rightarrow> string \<Rightarrow> string \<Rightarrow> (ax_error + unit) \<times> 'fs"

end
