(* ===== verification/Paths.thy ===== *)
theory Paths
  imports File_Like Axfs Rust_Str
begin

text \<open>
  Canonical paths and the table of hard links (\<open>api/src/path.rs\<close>), and the path system calls of
  \<open>api/src/imp/fs/ctl.rs\<close> that go through them. A \<open>FilePath\<close> is its string. The file system behind
  \<open>axfs::api\<close> is the parameter \<open>A\<close> with its state in \<open>disk\<close>; the string a user pointer gives is the
  result of reading it, an error when the pointer is refused.
\<close>

section \<open>The state\<close>

record link_manager =
  links :: "string \<rightharpoonup> string"
  ref_counts :: "string \<rightharpoonup> nat"

record 'fs path_st =
  lm :: link_manager
  disk :: 'fs

definition link_manager_new :: link_manager where
  "link_manager_new = \<lparr>links = Map.empty, ref_counts = Map.empty\<rparr>"

datatype link_error = LinkExists | InvalidPath | LinkNotFound | NotFile

fun ax_of_link_error :: "link_error \<Rightarrow> ax_error" where
  "ax_of_link_error LinkExists = AlreadyExists"
| "ax_of_link_error InvalidPath = InvalidInput"
| "ax_of_link_error LinkNotFound = NotFound"
| "ax_of_link_error NotFile = InvalidInput"

section \<open>Paths\<close>

definition real_path :: "link_manager \<Rightarrow> string \<Rightarrow> string" where
  "real_path m path = (case links m path of Some dst \<Rightarrow> dst | None \<Rightarrow> path)"

definition file_path_new :: "'fs axfs \<Rightarrow> 'fs path_st \<Rightarrow> string \<Rightarrow> string res" where
  "file_path_new A st path =
     (case canonicalize A (disk st) path of
        Inl _ \<Rightarrow> Inl (FromAx NotFound)
      | Inr canonical \<Rightarrow>
          let new_path = trim canonical;
              new_path = (if ends_with_char CHR ''/'' path \<and> \<not> ends_with_char CHR ''/'' new_path
                          then new_path @ ''/'' else new_path)
          in if starts_with_char CHR ''/'' new_path then Inr (real_path (lm st) new_path)
             else Inl Panic)"

definition is_root :: "string \<Rightarrow> bool" where
  "is_root p \<longleftrightarrow> p = ''/''"

definition is_dir :: "string \<Rightarrow> bool" where
  "is_dir p \<longleftrightarrow> ends_with_char CHR ''/'' p"

definition is_file :: "string \<Rightarrow> bool" where
  "is_file p \<longleftrightarrow> \<not> is_dir p"

definition path_exists :: "'fs axfs \<Rightarrow> 'fs path_st \<Rightarrow> string \<Rightarrow> bool" where
  "path_exists A st p = absolute_path_exists A (disk st) p"

text \<open>The path without one trailing slash, as \<open>parent\<close> and \<open>name\<close> use it.\<close>

definition strip_slash :: "string \<Rightarrow> string" where
  "strip_slash p =
     (if ends_with_char CHR ''/'' p then the (strip_suffix_char CHR ''/'' p) else p)"

definition file_path_parent :: "string \<Rightarrow> string res" where
  "file_path_parent p =
     (if is_root p then Inr ''/''
      else case rfind CHR ''/'' (strip_slash p) of
        None \<Rightarrow> Inl (FromAx NotFound)
      | Some pos \<Rightarrow> Inr (take (Suc pos) (strip_slash p)))"

text \<open>Slicing \<open>path[a..b]\<close> panics when \<open>a\<close> exceeds \<open>b\<close>.\<close>

definition file_path_name :: "string \<Rightarrow> string res" where
  "file_path_name p =
     (if is_root p then Inr ''/''
      else let path = strip_slash p in
        case rfind CHR ''/'' path of
          None \<Rightarrow> Inl (FromAx NotFound)
        | Some start_pos \<Rightarrow>
            let end_pos = (if ends_with_char CHR ''/'' path then length path - 1 else length path)
            in if start_pos + 1 \<le> end_pos
               then Inr (take (end_pos - (start_pos + 1)) (drop (start_pos + 1) path))
               else Inl Panic)"

definition path_starts_with :: "string \<Rightarrow> string \<Rightarrow> bool" where
  "path_starts_with p pre \<longleftrightarrow> prefix pre p"

definition path_ends_with :: "string \<Rightarrow> string \<Rightarrow> bool" where
  "path_ends_with p suf \<longleftrightarrow> suffix suf p"

definition path_join :: "'fs axfs \<Rightarrow> 'fs path_st \<Rightarrow> string \<Rightarrow> string \<Rightarrow> string res" where
  "path_join A st p path =
     file_path_new A st ((if ends_with_char CHR ''/'' p then p else p @ ''/'') @ path)"

definition components :: "string \<Rightarrow> string list" where
  "components p = split_char CHR ''/'' (trim_matches CHR ''/'' p)"

text \<open>\<open>AT_FDCWD\<close> is \<open>-100\<close> on every Linux architecture.\<close>

definition AT_FDCWD :: i32 where
  "AT_FDCWD = - 100"

definition handle_file_path ::
  "'fs axfs \<Rightarrow> ('t, arc) flatten_ops \<Rightarrow> ('f, 'd, 's) heap \<Rightarrow> 't \<Rightarrow> 'fs path_st \<Rightarrow> i32 \<Rightarrow> string
   \<Rightarrow> string res" where
  "handle_file_path A F h t st dirfd path =
     (if starts_with_char CHR ''/'' path then file_path_new A st path
      else if path = [] then
        rbind (file_from_fd F h t dirfd) (\<lambda>(a, f, p). file_path_new A st p)
      else
        rbind (if dirfd = AT_FDCWD then file_path_new A st []
               else rbind (directory_from_fd F h t dirfd) (\<lambda>(a, d, p, ent). file_path_new A st p))
          (\<lambda>base. path_join A st base path))"

section \<open>The table of hard links\<close>

text \<open>\<open>*count -= 1\<close> at zero is the overflow panic. The counters are bounded by the number of entries
  of \<open>links\<close>, so \<open>+= 1\<close> does not reach the width of \<open>usize\<close>.\<close>

definition decrease_ref_count ::
  "'fs axfs \<Rightarrow> 'fs path_st \<Rightarrow> string \<Rightarrow> unit option res \<times> 'fs path_st" where
  "decrease_ref_count A st path =
     (case ref_counts (lm st) path of
        None \<Rightarrow> (Inr None, st)
      | Some count \<Rightarrow>
          if count = 0 then (Inl Panic, st)
          else if count - 1 = 0 then
            let m = (lm st)\<lparr>ref_counts := (ref_counts (lm st))(path := None)\<rparr>;
                (r, d) = remove_file A (disk st) path
            in (Inr (case r of Inl _ \<Rightarrow> None | Inr _ \<Rightarrow> Some ()), \<lparr>lm = m, disk = d\<rparr>)
          else (Inr (Some ()),
                st\<lparr>lm := (lm st)\<lparr>ref_counts := (ref_counts (lm st))(path \<mapsto> count - 1)\<rparr>\<rparr>))"

definition insert_link :: "link_manager \<Rightarrow> string \<Rightarrow> string \<Rightarrow> link_manager" where
  "insert_link m src dst =
     \<lparr>links = (links m)(src \<mapsto> dst),
      ref_counts = (ref_counts m)
        (dst \<mapsto> (case ref_counts m dst of None \<Rightarrow> 0 | Some c \<Rightarrow> c) + 1)\<rparr>"

definition atomic_link_update ::
  "'fs axfs \<Rightarrow> 'fs path_st \<Rightarrow> string \<Rightarrow> string \<Rightarrow> unit res \<times> 'fs path_st" where
  "atomic_link_update A st src dst =
     (case links (lm st) src of
        Some old_dst \<Rightarrow>
          if old_dst = dst then (Inr (), st)
          else sbind (decrease_ref_count A st old_dst)
                 (\<lambda>_ st. (Inr (), st\<lparr>lm := insert_link (lm st) src dst\<rparr>))
      | None \<Rightarrow> (Inr (), st\<lparr>lm := insert_link (lm st) src dst\<rparr>))"

definition atomic_link_remove ::
  "'fs axfs \<Rightarrow> 'fs path_st \<Rightarrow> string \<Rightarrow> string option res \<times> 'fs path_st" where
  "atomic_link_remove A st src =
     (case links (lm st) src of
        None \<Rightarrow> (Inr None, st)
      | Some dst \<Rightarrow>
          sbind (decrease_ref_count A (st\<lparr>lm := (lm st)\<lparr>links := (links (lm st))(src := None)\<rparr>\<rparr>) dst)
            (\<lambda>_ st. (Inr (Some dst), st)))"

definition create_link ::
  "'fs axfs \<Rightarrow> 'fs path_st \<Rightarrow> string \<Rightarrow> string \<Rightarrow> (link_error + unit) res \<times> 'fs path_st" where
  "create_link A st src dst =
     (if \<not> path_exists A st dst then (Inr (Inl LinkNotFound), st)
      else if \<not> is_dir dst then (Inr (Inl NotFile), st)
      else sbind (atomic_link_update A st src dst) (\<lambda>_ st. (Inr (Inr ()), st)))"

definition remove_link ::
  "'fs axfs \<Rightarrow> 'fs path_st \<Rightarrow> string \<Rightarrow> string option res \<times> 'fs path_st" where
  "remove_link A st src =
     sbind (atomic_link_remove A st src) (\<lambda>r st.
       case r of
         Some dst \<Rightarrow> (Inr (Some dst), st)
       | None \<Rightarrow> let (q, d) = remove_file A (disk st) src
                 in (Inr (case q of Inl _ \<Rightarrow> None | Inr _ \<Rightarrow> Some src), st\<lparr>disk := d\<rparr>))"

definition link_count :: "'fs axfs \<Rightarrow> 'fs path_st \<Rightarrow> string \<Rightarrow> nat" where
  "link_count A st path =
     (case ref_counts (lm st) path of
        Some c \<Rightarrow> c
      | None \<Rightarrow> if path_exists A st path then 1 else 0)"

section \<open>System calls on paths\<close>

definition sys_chdir :: "'fs axfs \<Rightarrow> 'fs path_st \<Rightarrow> string res \<Rightarrow> isize res \<times> 'fs path_st" where
  "sys_chdir A st upath =
     (case upath of Inl e \<Rightarrow> (Inl e, st) | Inr path \<Rightarrow>
        let (r, d) = set_current_dir A (disk st) path
        in (rbind (from_ax r) (\<lambda>_. Inr 0), st\<lparr>disk := d\<rparr>))"

definition sys_mkdirat ::
  "'fs axfs \<Rightarrow> ('t, arc) flatten_ops \<Rightarrow> ('f, 'd, 's) heap \<Rightarrow> 't \<Rightarrow> 'fs path_st \<Rightarrow> i32 \<Rightarrow> string res
   \<Rightarrow> u32 \<Rightarrow> isize res \<times> 'fs path_st" where
  "sys_mkdirat A F h t st dirfd upath dir_mode =
     (case rbind upath (handle_file_path A F h t st dirfd) of Inl e \<Rightarrow> (Inl e, st) | Inr path \<Rightarrow>
        let (r, d) = create_dir A (disk st) path
        in (rbind (from_ax r) (\<lambda>_. Inr 0), st\<lparr>disk := d\<rparr>))"

definition sys_linkat ::
  "'fs axfs \<Rightarrow> ('t, arc) flatten_ops \<Rightarrow> ('f, 'd, 's) heap \<Rightarrow> 't \<Rightarrow> 'fs path_st
   \<Rightarrow> i32 \<Rightarrow> string res \<Rightarrow> i32 \<Rightarrow> string res \<Rightarrow> i32 \<Rightarrow> isize res \<times> 'fs path_st" where
  "sys_linkat A F h t st old_dirfd uold new_dirfd unew flags =
     (case rbind uold (\<lambda>old_path. rbind unew (\<lambda>new_path.
             rbind (handle_file_path A F h t st old_dirfd old_path) (\<lambda>old_path.
             rbind (handle_file_path A F h t st new_dirfd new_path) (\<lambda>new_path.
               Inr (old_path, new_path))))) of
        Inl e \<Rightarrow> (Inl e, st)
      | Inr (old_path, new_path) \<Rightarrow>
          sbind (create_link A st new_path old_path) (\<lambda>r st.
            case r of Inl e \<Rightarrow> (Inl (FromAx (ax_of_link_error e)), st) | Inr _ \<Rightarrow> (Inr 0, st)))"

definition sys_link ::
  "'fs axfs \<Rightarrow> ('t, arc) flatten_ops \<Rightarrow> ('f, 'd, 's) heap \<Rightarrow> 't \<Rightarrow> 'fs path_st
   \<Rightarrow> string res \<Rightarrow> string res \<Rightarrow> isize res \<times> 'fs path_st" where
  "sys_link A F h t st uold unew = sys_linkat A F h t st AT_FDCWD uold AT_FDCWD unew 0"

text \<open>\<open>AT_REMOVEDIR\<close> is \<open>0x200\<close>.\<close>

definition sys_unlinkat ::
  "'fs axfs \<Rightarrow> ('t, arc) flatten_ops \<Rightarrow> ('f, 'd, 's) heap \<Rightarrow> 't \<Rightarrow> 'fs path_st \<Rightarrow> i32 \<Rightarrow> string res
   \<Rightarrow> u32 \<Rightarrow> isize res \<times> 'fs path_st" where
  "sys_unlinkat A F h t st dirfd upath flags =
     (case rbind upath (handle_file_path A F h t st dirfd) of
        Inl e \<Rightarrow> (Inl e, st)
      | Inr path \<Rightarrow>
          if flags = 0x200 then
            let (r, d) = remove_dir A (disk st) path
            in (rbind (from_ax r) (\<lambda>_. Inr 0), st\<lparr>disk := d\<rparr>)
          else
            (case metadata_is_dir A (disk st) path of
               Inl e \<Rightarrow> (Inl (FromAx e), st)
             | Inr True \<Rightarrow> (Inl (Errno EISDIR), st)
             | Inr False \<Rightarrow>
                 sbind (remove_link A st path) (\<lambda>r st. (rbind (ok_or r ENOENT) (\<lambda>_. Inr 0), st))))"

definition sys_unlink ::
  "'fs axfs \<Rightarrow> ('t, arc) flatten_ops \<Rightarrow> ('f, 'd, 's) heap \<Rightarrow> 't \<Rightarrow> 'fs path_st \<Rightarrow> string res
   \<Rightarrow> isize res \<times> 'fs path_st" where
  "sys_unlink A F h t st upath = sys_unlinkat A F h t st AT_FDCWD upath 0"

text \<open>\<open>sys_getcwd\<close>: \<open>ubuf\<close> is the user's slice, none for a null pointer, and \<open>addr\<close> its address; the
  result carries the buffer as it is left.\<close>

definition sys_getcwd ::
  "'fs axfs \<Rightarrow> 'fs path_st \<Rightarrow> isize \<Rightarrow> u8 list option res \<Rightarrow> (isize \<times> u8 list) res" where
  "sys_getcwd A st addr ubuf =
     rbind ubuf (\<lambda>ob. case ob of None \<Rightarrow> Inr (0, []) | Some buf \<Rightarrow>
       rbind (from_ax (current_dir A (disk st))) (\<lambda>cwd.
         if CHR 0x00 \<in> set cwd then Inl (Errno EINVAL)
         else let cwd = map of_char cwd @ [0] in
           if length cwd \<le> length buf then Inr (addr, cwd @ drop (length cwd) buf)
           else Inl (Errno ERANGE)))"

definition sys_symlinkat ::
  "'fs axfs \<Rightarrow> ('t, arc) flatten_ops \<Rightarrow> ('f, 'd, 's) heap \<Rightarrow> 't \<Rightarrow> 'fs path_st
   \<Rightarrow> string res \<Rightarrow> i32 \<Rightarrow> string res \<Rightarrow> isize res \<times> 'fs path_st" where
  "sys_symlinkat A F h t st utarget new_dirfd unew =
     (case rbind utarget (\<lambda>target. rbind unew (\<lambda>new_path.
             rbind (handle_file_path A F h t st new_dirfd new_path) (\<lambda>new_path.
               Inr (target, new_path)))) of
        Inl e \<Rightarrow> (Inl e, st)
      | Inr (target, new_path) \<Rightarrow>
          let (r, d) = create_symlink A (disk st) target new_path
          in (rbind (from_ax r) (\<lambda>_. Inr 0), st\<lparr>disk := d\<rparr>))"

definition sys_symlink ::
  "'fs axfs \<Rightarrow> ('t, arc) flatten_ops \<Rightarrow> ('f, 'd, 's) heap \<Rightarrow> 't \<Rightarrow> 'fs path_st
   \<Rightarrow> string res \<Rightarrow> string res \<Rightarrow> isize res \<times> 'fs path_st" where
  "sys_symlink A F h t st utarget unew = sys_symlinkat A F h t st utarget AT_FDCWD unew"

text \<open>\<open>read_link\<close> fills a buffer of the given size and returns how much of it it used; the model
  carries the bytes themselves.\<close>

definition sys_readlinkat ::
  "'fs axfs \<Rightarrow> ('t, arc) flatten_ops \<Rightarrow> ('f, 'd, 's) heap \<Rightarrow> 't \<Rightarrow> 'fs path_st \<Rightarrow> i32 \<Rightarrow> string res
   \<Rightarrow> nat res \<Rightarrow> (isize \<times> u8 list) res" where
  "sys_readlinkat A F h t st dirfd upath ubuf =
     rbind upath (\<lambda>path. rbind ubuf (\<lambda>buf_size.
       rbind (handle_file_path A F h t st dirfd path) (\<lambda>path.
       rbind (from_ax (read_link A (disk st) path buf_size)) (\<lambda>bytes.
         Inr (word_of_nat (length bytes), bytes)))))"

definition sys_readlink ::
  "'fs axfs \<Rightarrow> ('t, arc) flatten_ops \<Rightarrow> ('f, 'd, 's) heap \<Rightarrow> 't \<Rightarrow> 'fs path_st \<Rightarrow> string res
   \<Rightarrow> nat res \<Rightarrow> (isize \<times> u8 list) res" where
  "sys_readlink A F h t st upath ubuf = sys_readlinkat A F h t st AT_FDCWD upath ubuf"

section \<open>Parents and names\<close>

lemma strip_slash_simps:
  "ends_with_char CHR ''/'' p \<Longrightarrow> strip_slash p = butlast p"
  "\<not> ends_with_char CHR ''/'' p \<Longrightarrow> strip_slash p = p"
  by (simp_all add: strip_slash_def strip_suffix_char_def)

text \<open>An absolute path, not the root, without a doubled slash at its end: it is its parent, which
  ends in a slash, followed by its name, which has none, and by the slash of a directory.\<close>

text \<open>For every absolute path other than the root that does not end in two slashes, \<open>parent\<close>
  and \<open>name\<close> both succeed and split the path: the parent ends in a slash, the name is a nonempty
  component without slashes, and the path is the parent, then the name, then a slash exactly when
  the path denotes a directory.\<close>

theorem parent_name_split:
  assumes "starts_with_char CHR ''/'' p" "p \<noteq> ''/''" "\<not> suffix ''//'' p"
  shows "\<exists>par nm. file_path_parent p = Inr par \<and> file_path_name p = Inr nm
           \<and> p = par @ nm @ (if is_dir p then ''/'' else [])
           \<and> is_dir par \<and> nm \<noteq> [] \<and> CHR ''/'' \<notin> set nm"
proof -
  let ?q = "strip_slash p"
  have p_eq: "p = ?q @ (if is_dir p then ''/'' else [])"
    using ends_with_charE by (auto simp: is_dir_def strip_slash_simps)
  have q_ne: "?q \<noteq> []"
    using assms(1,2) p_eq by (auto simp: starts_with_char_def split: if_splits)
  have q_end: "\<not> ends_with_char CHR ''/'' ?q"
  proof
    assume e: "ends_with_char CHR ''/'' ?q"
    have d: "is_dir p" using e by (metis is_dir_def strip_slash_simps(2))
    from ends_with_charE [OF e] p_eq d have "p = butlast ?q @ ''//''"
      by (metis append_Cons append_Nil append_assoc)
    with assms(3) show False by (metis suffixI)
  qed
  have "hd ?q = CHR ''/''"
    using assms(1) p_eq q_ne by (metis hd_append2 starts_with_char_def)
  then have "CHR ''/'' \<in> set ?q" using q_ne hd_in_set by metis
  then obtain i where i: "rfind CHR ''/'' ?q = Some i" using rfind_None by fastforce
  note s = rfind_Some [OF i]
  have lt: "Suc i < length ?q"
  proof (rule ccontr)
    assume "\<not> Suc i < length ?q"
    then have "i = length ?q - 1" using s by linarith
    with s q_ne q_end show False by (simp add: ends_with_char_def last_conv_nth)
  qed
  have par: "file_path_parent p = Inr (take (Suc i) ?q)"
    using assms(2) i by (simp add: file_path_parent_def is_root_def)
  have nm: "file_path_name p = Inr (drop (Suc i) ?q)"
    using assms(2) i q_end lt by (simp add: file_path_name_def is_root_def Let_def)
  have "is_dir (take (Suc i) ?q)"
    using s by (simp add: is_dir_def take_Suc_conv_app_nth)
  moreover have "p = take (Suc i) ?q @ drop (Suc i) ?q @ (if is_dir p then ''/'' else [])"
    using p_eq by (metis append.assoc append_take_drop_id)
  ultimately show ?thesis using par nm s lt by auto
qed

theorem parent_name_split_witness:
  "\<exists>par nm. file_path_parent ''/a/bc/'' = Inr par \<and> file_path_name ''/a/bc/'' = Inr nm
     \<and> ''/a/bc/'' = par @ nm @ (if is_dir ''/a/bc/'' then ''/'' else [])
     \<and> is_dir par \<and> nm \<noteq> [] \<and> CHR ''/'' \<notin> set nm"
  by (rule parent_name_split) (simp_all add: starts_with_char_def suffix_def append_eq_Cons_conv Cons_eq_append_conv)

section \<open>The link table implements names for files\<close>

text \<open>The counters that belong to a set of links.\<close>

definition counts_of :: "(string \<rightharpoonup> string) \<Rightarrow> string \<rightharpoonup> nat" where
  "counts_of L d = (let n = card {s. L s = Some d} in if n = 0 then None else Some n)"

definition link_inv :: "link_manager \<Rightarrow> bool" where
  "link_inv m \<longleftrightarrow> finite (dom (links m)) \<and> ref_counts m = counts_of (links m)"

text \<open>The specification: a set of names and a disk, on which a file disappears with the last name
  that stood for it.\<close>

datatype link_op = CreateLink string string | RemoveLink string

definition drop_name :: "'fs axfs \<Rightarrow> (string \<rightharpoonup> string) \<Rightarrow> string \<Rightarrow> string \<Rightarrow> 'fs \<Rightarrow> 'fs" where
  "drop_name A L src dst d =
     (if \<exists>s. s \<noteq> src \<and> L s = Some dst then d else snd (remove_file A d dst))"

fun link_spec :: "'fs axfs \<Rightarrow> (string \<rightharpoonup> string) \<times> 'fs \<Rightarrow> link_op \<Rightarrow> (string \<rightharpoonup> string) \<times> 'fs" where
  "link_spec A (L, d) (CreateLink src dst) =
     (if \<not> absolute_path_exists A d dst \<or> is_file dst then (L, d)
      else (L(src \<mapsto> dst),
            case L src of
              Some old \<Rightarrow> if old = dst then d else drop_name A L src old d
            | None \<Rightarrow> d))"
| "link_spec A (L, d) (RemoveLink src) =
     (case L src of
        Some dst \<Rightarrow> (L(src := None), drop_name A L src dst d)
      | None \<Rightarrow> (L, snd (remove_file A d src)))"

fun link_exec :: "'fs axfs \<Rightarrow> 'fs path_st \<Rightarrow> link_op \<Rightarrow> unit res \<times> 'fs path_st" where
  "link_exec A st (CreateLink src dst) = sbind (create_link A st src dst) (\<lambda>_ st. (Inr (), st))"
| "link_exec A st (RemoveLink src) = sbind (remove_link A st src) (\<lambda>_ st. (Inr (), st))"

fun link_run :: "'fs axfs \<Rightarrow> 'fs path_st \<Rightarrow> link_op list \<Rightarrow> unit res \<times> 'fs path_st" where
  "link_run A st [] = (Inr (), st)"
| "link_run A st (op # ops) = sbind (link_exec A st op) (\<lambda>_ st. link_run A st ops)"

lemma finite_links_to: "finite (dom L) \<Longrightarrow> finite {s. L s = Some d}"
  by (rule finite_subset [of _ "dom L"]) auto

lemma counts_of_remove:
  assumes "finite (dom L)" "L src = Some dst"
  shows "counts_of (L(src := None)) =
           (counts_of L)(dst := if card {s. L s = Some dst} - 1 = 0 then None
                                else Some (card {s. L s = Some dst} - 1))"
proof
  fix d
  have "{s. (L(src := None)) s = Some d} =
          (if d = dst then {s. L s = Some d} - {src} else {s. L s = Some d})"
    using assms(2) by auto
  then have "card {s. (L(src := None)) s = Some d} =
          (if d = dst then card {s. L s = Some dst} - 1 else card {s. L s = Some d})"
    using assms(2) by auto
  then show "counts_of (L(src := None)) d = ((counts_of L)(dst :=
      if card {s. L s = Some dst} - 1 = 0 then None else Some (card {s. L s = Some dst} - 1))) d"
    by (simp add: counts_of_def Let_def)
qed

lemma counts_of_insert:
  assumes "finite (dom L)" "L src = None"
  shows "counts_of (L(src \<mapsto> dst)) =
           (counts_of L)(dst \<mapsto> (case counts_of L dst of None \<Rightarrow> 0 | Some c \<Rightarrow> c) + 1)"
proof
  fix d
  have "{s. (L(src \<mapsto> dst)) s = Some d} =
          (if d = dst then insert src {s. L s = Some d} else {s. L s = Some d})"
    using assms(2) by auto
  moreover have "src \<notin> {s. L s = Some dst}" using assms(2) by simp
  ultimately have "card {s. (L(src \<mapsto> dst)) s = Some d} =
          (if d = dst then Suc (card {s. L s = Some dst}) else card {s. L s = Some d})"
    using finite_links_to [OF assms(1)] by auto
  then show "counts_of (L(src \<mapsto> dst)) d = ((counts_of L)
      (dst \<mapsto> (case counts_of L dst of None \<Rightarrow> 0 | Some c \<Rightarrow> c) + 1)) d"
    by (simp add: counts_of_def Let_def)
qed

lemma last_name_iff:
  assumes "finite (dom L)" "L src = Some dst"
  shows "card {s. L s = Some dst} - 1 = 0 \<longleftrightarrow> \<not> (\<exists>s. s \<noteq> src \<and> L s = Some dst)"
proof -
  have "card {s. L s = Some dst} - 1 = card ({s. L s = Some dst} - {src})"
    using assms(2) by simp
  also have "... = 0 \<longleftrightarrow> {s. L s = Some dst} - {src} = {}"
    using finite_links_to [OF assms(1)] by (simp add: card_eq_0_iff)
  finally show ?thesis by auto
qed

lemma decrease_ref_count_spec:
  assumes "finite (dom L)" "L src = Some dst" "ref_counts (lm st) = counts_of L"
  shows "\<exists>r. decrease_ref_count A st dst =
           (Inr r, \<lparr>lm = (lm st)\<lparr>ref_counts := counts_of (L(src := None))\<rparr>,
                    disk = drop_name A L src dst (disk st)\<rparr>)"
proof -
  have "card {s. L s = Some dst} \<noteq> 0"
    using assms(2) finite_links_to [OF assms(1)] by auto
  then have c: "counts_of L dst = Some (card {s. L s = Some dst})"
    and p: "card {s. L s = Some dst} > 0"
    by (simp_all add: counts_of_def)
  show ?thesis
    unfolding decrease_ref_count_def counts_of_remove [OF assms(1,2)] drop_name_def
    using last_name_iff [OF assms(1,2)] c p assms(3)
    by (auto simp: Let_def split: prod.splits)
qed

lemma link_exec_spec:
  assumes "link_inv (lm st)"
  shows "\<exists>st'. link_exec A st op = (Inr (), st') \<and> link_inv (lm st')
           \<and> (links (lm st'), disk st') = link_spec A (links (lm st), disk st) op"
proof (cases op)
  case (CreateLink src dst)
  note inv = assms [unfolded link_inv_def]
  show ?thesis
  proof (cases "links (lm st) src")
    case None
    with inv show ?thesis
      using counts_of_insert [of "links (lm st)" src dst]
      by (auto simp: CreateLink create_link_def path_exists_def is_file_def atomic_link_update_def
           insert_link_def link_inv_def)
  next
    case (Some old)
    let ?L = "links (lm st)"
    obtain r where r: "decrease_ref_count A st old =
        (Inr r, \<lparr>lm = (lm st)\<lparr>ref_counts := counts_of (?L(src := None))\<rparr>,
                 disk = drop_name A ?L src old (disk st)\<rparr>)"
      using decrease_ref_count_spec [OF conjunct1 [OF inv] Some conjunct2 [OF inv]] by blast
    have i: "counts_of (?L(src \<mapsto> dst)) = (counts_of (?L(src := None)))
        (dst \<mapsto> (case counts_of (?L(src := None)) dst of None \<Rightarrow> 0 | Some c \<Rightarrow> c) + 1)"
      using counts_of_insert [of "?L(src := None)" src dst] inv by simp
    show ?thesis
      using Some inv r i
      by (auto simp: CreateLink create_link_def path_exists_def is_file_def atomic_link_update_def
           insert_link_def link_inv_def)
  qed
next
  case (RemoveLink src)
  note inv = assms [unfolded link_inv_def]
  show ?thesis
  proof (cases "links (lm st) src")
    case None
    with inv show ?thesis
      by (auto simp: RemoveLink remove_link_def atomic_link_remove_def link_inv_def split: prod.splits)
  next
    case (Some dst)
    let ?st = "st\<lparr>lm := (lm st)\<lparr>links := (links (lm st))(src := None)\<rparr>\<rparr>"
    obtain r where "decrease_ref_count A ?st dst =
        (Inr r, \<lparr>lm = (lm ?st)\<lparr>ref_counts := counts_of ((links (lm st))(src := None))\<rparr>,
                 disk = drop_name A (links (lm st)) src dst (disk ?st)\<rparr>)"
      using decrease_ref_count_spec [of "links (lm st)" src dst ?st A] Some inv by auto
    with Some inv show ?thesis
      by (auto simp: RemoveLink remove_link_def atomic_link_remove_def link_inv_def)
  qed
qed

lemma link_run_spec:
  assumes "link_inv (lm st)"
  shows "\<exists>st'. link_run A st ops = (Inr (), st') \<and> link_inv (lm st')
           \<and> (links (lm st'), disk st') = foldl (link_spec A) (links (lm st), disk st) ops"
  using assms
proof (induction ops arbitrary: st)
  case (Cons op ops)
  obtain st1 where e: "link_exec A st op = (Inr (), st1)" and i: "link_inv (lm st1)"
    and l: "(links (lm st1), disk st1) = link_spec A (links (lm st), disk st) op"
    using link_exec_spec [OF Cons.prems] by blast
  from Cons.IH [OF i] e l show ?case by simp
qed simp


section \<open>Linking and unlinking\<close>

text \<open>A file system of flat names without directories, for concrete runs.\<close>

definition flat_fs :: "string list axfs" where
  "flat_fs =
     \<lparr>canonicalize = (\<lambda>d p. Inr p),
      absolute_path_exists = (\<lambda>d p. p \<in> set d),
      metadata_is_dir = (\<lambda>d p. if p \<in> set d then Inr False else Inl NotFound),
      current_dir = (\<lambda>d. Inr ''/''),
      read_link = (\<lambda>d p n. Inl InvalidInput),
      remove_file = (\<lambda>d p. if p \<in> set d then (Inr (), removeAll p d) else (Inl NotFound, d)),
      remove_dir = (\<lambda>d p. (Inl NotFound, d)),
      create_dir = (\<lambda>d p. (Inr (), List.insert p d)),
      set_current_dir = (\<lambda>d p. (Inr (), d)),
      create_symlink = (\<lambda>d t p. (Inr (), List.insert p d))\<rparr>"

text \<open>\<open>sys_linkat\<close> on two paths that resolve: a missing target is not found, a target whose path
  does not end in a slash, which is how the code marks a regular file, is refused as an invalid
  argument with nothing changed, and every other target gets the new name in the way the
  specification of the table says. So the call links directories and refuses regular files.\<close>

theorem sys_linkat_spec:
  assumes "handle_file_path A F h t st ofd po = Inr old" "handle_file_path A F h t st nfd pn = Inr new"
    and "link_inv (lm st)"
  shows "case sys_linkat A F h t st ofd (Inr po) nfd (Inr pn) flags of (r, st') \<Rightarrow>
           r = (if \<not> absolute_path_exists A (disk st) old then Inl (FromAx NotFound)
                else if is_file old then Inl (FromAx InvalidInput) else Inr 0)
           \<and> (links (lm st'), disk st') = link_spec A (links (lm st), disk st) (CreateLink new old)
           \<and> link_inv (lm st')"
proof -
  obtain st' where x: "link_exec A st (CreateLink new old) = (Inr (), st')"
      "link_inv (lm st')"
      "(links (lm st'), disk st') = link_spec A (links (lm st), disk st) (CreateLink new old)"
    using link_exec_spec [OF assms(3)] by blast
  have "sys_linkat A F h t st ofd (Inr po) nfd (Inr pn) flags =
      (if \<not> absolute_path_exists A (disk st) old then Inl (FromAx NotFound)
       else if is_file old then Inl (FromAx InvalidInput) else Inr 0, st')"
    using x(1) assms(1,2)
    by (auto simp: sys_linkat_def create_link_def path_exists_def is_file_def res_simps)
  then show ?thesis using x(2,3) by simp
qed

theorem sys_linkat_spec_witness:
  "case sys_linkat flat_fs map_objects (Map.empty :: (unit, unit, unit) heap) Map.empty
          \<lparr>lm = link_manager_new, disk = [''/a'']\<rparr> 0 (Inr ''/a'') 0 (Inr ''/b'') 0 of (r, st') \<Rightarrow>
     r = (if \<not> absolute_path_exists flat_fs [''/a''] ''/a'' then Inl (FromAx NotFound)
          else if is_file ''/a'' then Inl (FromAx InvalidInput) else Inr 0)
     \<and> (links (lm st'), disk st') = link_spec flat_fs (Map.empty, [''/a'']) (CreateLink ''/b'' ''/a'')
     \<and> link_inv (lm st')"
  using sys_linkat_spec [of flat_fs map_objects "Map.empty :: (unit, unit, unit) heap" Map.empty
      "\<lparr>lm = link_manager_new, disk = [''/a'']\<rparr>" 0 "''/a''" "''/a''" 0 "''/b''" "''/b''" 0]
  by (simp add: handle_file_path_def file_path_new_def flat_fs_def starts_with_char_def trim_def
      trim_start_def trim_end_def is_whitespace_def ends_with_char_def real_path_def
      link_manager_new_def link_inv_def counts_of_def [abs_def])



end
