(* ===== verification/Open.thy ===== *)
theory Open
  imports Paths
begin

text \<open>
  Opening files (\<open>api/src/imp/fs/fd_ops.rs\<close>) and reading their status (\<open>api/src/imp/fs/stat.rs\<close>), on the
  descriptor table of \<open>Fd_Table\<close>, the objects of \<open>File_Like\<close> and the paths of \<open>Paths\<close>. Opening itself
  (\<open>axfs::fops\<close>) is the parameter \<open>Fp\<close>; it may create or truncate files, so it acts on the disk.
\<close>

section \<open>Open options\<close>

record open_options =
  opt_read :: bool
  opt_write :: bool
  opt_append :: bool
  opt_truncate :: bool
  opt_create :: bool
  opt_execute :: bool
  opt_directory :: bool

definition open_options_new :: open_options where
  "open_options_new =
     \<lparr>opt_read = False, opt_write = False, opt_append = False, opt_truncate = False, opt_create = False,
      opt_execute = False, opt_directory = False\<rparr>"

text \<open>The flags of the asm-generic ABI.\<close>

definition O_RDONLY :: u32 where "O_RDONLY = 0"
definition O_WRONLY :: u32 where "O_WRONLY = 1"
definition O_CREAT :: u32 where "O_CREAT = 0x40"
definition O_TRUNC :: u32 where "O_TRUNC = 0x200"
definition O_APPEND :: u32 where "O_APPEND = 0x400"
definition O_DIRECTORY :: u32 where "O_DIRECTORY = 0x10000"
definition O_PATH :: u32 where "O_PATH = 0x200000"
definition O_EXEC :: u32 where "O_EXEC = O_PATH"

definition flags_to_options :: "i32 \<Rightarrow> open_options" where
  "flags_to_options flags =
     (let o0 = open_options_new;
          o1 = (if flags AND 3 = O_RDONLY then o0\<lparr>opt_read := True\<rparr>
                else if flags AND 3 = O_WRONLY then o0\<lparr>opt_write := True\<rparr>
                else o0\<lparr>opt_read := True, opt_write := True\<rparr>);
          o2 = (if flags AND O_APPEND \<noteq> 0 then o1\<lparr>opt_append := True\<rparr> else o1);
          o3 = (if flags AND O_TRUNC \<noteq> 0 then o2\<lparr>opt_truncate := True\<rparr> else o2);
          o4 = (if flags AND O_CREAT \<noteq> 0 then o3\<lparr>opt_create := True\<rparr> else o3);
          o5 = (if flags AND O_EXEC \<noteq> 0 then o4\<lparr>opt_execute := True\<rparr> else o4)
      in if flags AND O_DIRECTORY \<noteq> 0 then o5\<lparr>opt_directory := True\<rparr> else o5)"

section \<open>openat\<close>

record ('fs, 'f, 'd) fops =
  file_open :: "'fs \<Rightarrow> string \<Rightarrow> open_options \<Rightarrow> (ax_error + 'f) \<times> 'fs"
  open_dir :: "'fs \<Rightarrow> string \<Rightarrow> open_options \<Rightarrow> (ax_error + 'd) \<times> 'fs"
  open_file_at :: "'d \<Rightarrow> 'fs \<Rightarrow> string \<Rightarrow> open_options \<Rightarrow> (ax_error + 'f) \<times> 'fs"
  open_dir_at :: "'d \<Rightarrow> 'fs \<Rightarrow> string \<Rightarrow> open_options \<Rightarrow> (ax_error + 'd) \<times> 'fs"
  symlink_metadata :: "'fs \<Rightarrow> string \<Rightarrow> ax_error + file_attr"

record ('fs, 'f, 'd, 's, 't) open_st =
  o_paths :: "'fs path_st"
  o_heap :: "('f, 'd, 's) heap"
  o_table :: 't

text \<open>\<open>obj.add_to_fd_table()\<close>: the object is allocated at the fresh address \<open>a\<close>.\<close>

definition add_to_fd_table ::
  "('t, arc) flatten_ops \<Rightarrow> arc \<Rightarrow> ('f, 'd, 's) file_obj \<Rightarrow> ('fs, 'f, 'd, 's, 't) open_st
   \<Rightarrow> i32 res \<times> ('fs, 'f, 'd, 's, 't) open_st" where
  "add_to_fd_table F a obj S =
     (case add_file_like F (o_table S) a of
        (Inl e, t) \<Rightarrow> (Inl e, S\<lparr>o_table := t\<rparr>)
      | (Inr fd, t) \<Rightarrow> (Inr fd, S\<lparr>o_heap := (o_heap S)(a \<mapsto> obj), o_table := t\<rparr>))"

definition open_target ::
  "'fs axfs \<Rightarrow> ('t, arc) flatten_ops \<Rightarrow> i32 \<Rightarrow> string res \<Rightarrow> ('fs, 'f, 'd, 's, 't) open_st
   \<Rightarrow> (string \<times> 'd option \<times> string) res" where
  "open_target A F dirfd upath S =
     rbind upath (\<lambda>path.
       rbind (if starts_with_char CHR ''/'' path \<or> dirfd = AT_FDCWD then Inr None
              else rbind (directory_from_fd F (o_heap S) (o_table S) dirfd) (\<lambda>(a, d, p, ent). Inr (Some d))) (\<lambda>dir.
         rbind (handle_file_path A F (o_heap S) (o_table S) (o_paths S) dirfd path) (\<lambda>rpath.
           Inr (path, dir, rpath))))"

definition with_disk :: "('fs, 'f, 'd, 's, 't) open_st \<Rightarrow> 'fs \<Rightarrow> ('fs, 'f, 'd, 's, 't) open_st" where
  "with_disk S d = S\<lparr>o_paths := (o_paths S)\<lparr>disk := d\<rparr>\<rparr>"

definition open_as_dir ::
  "('fs, 'f, 'd) fops \<Rightarrow> ('t, arc) flatten_ops \<Rightarrow> arc \<Rightarrow> string \<times> 'd option \<times> string \<Rightarrow> open_options
   \<Rightarrow> ('fs, 'f, 'd, 's, 't) open_st \<Rightarrow> i32 res \<times> ('fs, 'f, 'd, 's, 't) open_st" where
  "open_as_dir Fp F a target opts S =
     (case target of (path, dir, rpath) \<Rightarrow>
        (case (case dir of None \<Rightarrow> open_dir Fp (disk (o_paths S)) path opts
                         | Some d \<Rightarrow> open_dir_at Fp d (disk (o_paths S)) path opts) of
           (Inl e, fs) \<Rightarrow> (Inl (FromAx e), with_disk S fs)
         | (Inr d, fs) \<Rightarrow> add_to_fd_table F a (FDirectory d rpath None) (with_disk S fs)))"

definition sys_openat ::
  "'fs axfs \<Rightarrow> ('fs, 'f, 'd) fops \<Rightarrow> ('t, arc) flatten_ops \<Rightarrow> arc \<Rightarrow> i32 \<Rightarrow> string res \<Rightarrow> i32
   \<Rightarrow> ('fs, 'f, 'd, 's, 't) open_st \<Rightarrow> i32 res \<times> ('fs, 'f, 'd, 's, 't) open_st" where
  "sys_openat A Fp F a dirfd upath flags S =
     (let opts = flags_to_options flags in
      case open_target A F dirfd upath S of
        Inl e \<Rightarrow> (Inl e, S)
      | Inr (path, dir, rpath) \<Rightarrow>
          if \<not> opt_directory opts then
            (case (case dir of None \<Rightarrow> file_open Fp (disk (o_paths S)) path opts
                            | Some d \<Rightarrow> open_file_at Fp d (disk (o_paths S)) path opts) of
              (Inl e, fs) \<Rightarrow>
                if e = IsADirectory then open_as_dir Fp F a (path, dir, rpath) opts (with_disk S fs)
                else (Inl (FromAx e), with_disk S fs)
            | (Inr f, fs) \<Rightarrow> add_to_fd_table F a (FFile f rpath) (with_disk S fs))
          else open_as_dir Fp F a (path, dir, rpath) opts S)"

definition sys_open ::
  "'fs axfs \<Rightarrow> ('fs, 'f, 'd) fops \<Rightarrow> ('t, arc) flatten_ops \<Rightarrow> arc \<Rightarrow> string res \<Rightarrow> i32
   \<Rightarrow> ('fs, 'f, 'd, 's, 't) open_st \<Rightarrow> i32 res \<times> ('fs, 'f, 'd, 's, 't) open_st" where
  "sys_open A Fp F a upath flags S = sys_openat A Fp F a AT_FDCWD upath flags S"

section \<open>Status\<close>

text \<open>The status calls open the file for reading; \<open>H\<close> gives the attributes of an open file.\<close>

definition stat_at_path ::
  "('fs, 'f, 'd) fops \<Rightarrow> ('f, 's) handle_ops \<Rightarrow> 'fs \<Rightarrow> string \<Rightarrow> kstat res \<times> 'fs" where
  "stat_at_path Fp H fs path =
     (let opts = open_options_new\<lparr>opt_read := True\<rparr> in
      case file_open Fp fs path opts of
        (Inr f, fs) \<Rightarrow> (file_stat H (FFile f path :: ('f, 'd, 's) file_obj), fs)
      | (Inl e, fs) \<Rightarrow>
          if e = IsADirectory then
            (case open_dir Fp fs path opts of
               (Inl e, fs) \<Rightarrow> (Inl (FromAx e), fs)
             | (Inr d, fs) \<Rightarrow> (file_stat H (FDirectory d path None), fs))
          else (Inl (FromAx e), fs))"

definition lstat_at_path :: "('fs, 'f, 'd) fops \<Rightarrow> 'fs \<Rightarrow> string \<Rightarrow> kstat res" where
  "lstat_at_path Fp fs path =
     rbind (from_ax (symlink_metadata Fp fs path)) (\<lambda>m.
       Inr (kstat_new (push_bit 12 (ucast (fa_type m)) OR fa_perm m) (fa_size m) (fa_size m div 512 + 1) 512 1))"

text \<open>\<open>buf\<close> is the outcome of the check of the user's buffer. In \<open>*statbuf.get_as_mut()? = ..\<close> the right
  side is evaluated first, so an error of the status comes before one of the buffer.\<close>

definition store_stat :: "unit res \<Rightarrow> kstat res \<Rightarrow> stat res" where
  "store_stat buf k = rbind k (\<lambda>k. rbind buf (\<lambda>_. Inr (stat_of_kstat k)))"

definition sys_stat ::
  "('fs, 'f, 'd) fops \<Rightarrow> ('f, 's) handle_ops \<Rightarrow> string res \<Rightarrow> unit res \<Rightarrow> 'fs \<Rightarrow> stat res \<times> 'fs" where
  "sys_stat Fp H upath buf fs =
     (case upath of
        Inl e \<Rightarrow> (Inl e, fs)
      | Inr path \<Rightarrow> (case stat_at_path Fp H fs path of (k, fs) \<Rightarrow> (store_stat buf k, fs)))"

definition sys_lstat :: "('fs, 'f, 'd) fops \<Rightarrow> string res \<Rightarrow> unit res \<Rightarrow> 'fs \<Rightarrow> stat res" where
  "sys_lstat Fp upath buf fs = rbind upath (\<lambda>path. store_stat buf (lstat_at_path Fp fs path))"

definition stat_of_fd ::
  "('t, arc) flatten_ops \<Rightarrow> ('f, 's) handle_ops \<Rightarrow> ('f, 'd, 's) heap \<Rightarrow> 't \<Rightarrow> i32 \<Rightarrow> kstat res" where
  "stat_of_fd F H h t fd = rbind (obj_of_fd F h t fd) (\<lambda>(a, obj). file_stat H obj)"

definition sys_fstat ::
  "('t, arc) flatten_ops \<Rightarrow> ('f, 's) handle_ops \<Rightarrow> ('f, 'd, 's) heap \<Rightarrow> 't \<Rightarrow> i32 \<Rightarrow> unit res \<Rightarrow> stat res" where
  "sys_fstat F H h t fd buf = store_stat buf (stat_of_fd F H h t fd)"

definition AT_SYMLINK_NOFOLLOW :: u32 where "AT_SYMLINK_NOFOLLOW = 0x100"
definition AT_EMPTY_PATH :: u32 where "AT_EMPTY_PATH = 0x1000"

text \<open>The status of the target of \<open>fstatat\<close> and \<open>statx\<close>; \<open>nofollow\<close> selects \<open>lstat_at_path\<close>, which
  only \<open>fstatat\<close> uses. A path that is null is \<open>None\<close>.\<close>

definition stat_target ::
  "'fs axfs \<Rightarrow> ('fs, 'f, 'd) fops \<Rightarrow> ('t, arc) flatten_ops \<Rightarrow> ('f, 's) handle_ops \<Rightarrow> i32 \<Rightarrow> string res option
   \<Rightarrow> u32 \<Rightarrow> bool \<Rightarrow> ('fs, 'f, 'd, 's, 't) open_st \<Rightarrow> kstat res \<times> ('fs, 'f, 'd, 's, 't) open_st" where
  "stat_target A Fp F H dirfd upath flags nofollow S =
     (case (case upath of None \<Rightarrow> Inr [] | Some p \<Rightarrow> p) of
        Inl e \<Rightarrow> (Inl e, S)
      | Inr path \<Rightarrow>
          if path = [] then
            if flags AND AT_EMPTY_PATH = 0 then (Inl (Errno ENOENT), S)
            else (stat_of_fd F H (o_heap S) (o_table S) dirfd, S)
          else
            (case handle_file_path A F (o_heap S) (o_table S) (o_paths S) dirfd path of
               Inl e \<Rightarrow> (Inl e, S)
             | Inr rpath \<Rightarrow>
                 if nofollow then (lstat_at_path Fp (disk (o_paths S)) rpath, S)
                 else (case stat_at_path Fp H (disk (o_paths S)) rpath of (k, fs) \<Rightarrow> (k, with_disk S fs))))"

definition sys_fstatat ::
  "'fs axfs \<Rightarrow> ('fs, 'f, 'd) fops \<Rightarrow> ('t, arc) flatten_ops \<Rightarrow> ('f, 's) handle_ops \<Rightarrow> i32 \<Rightarrow> string res option
   \<Rightarrow> unit res \<Rightarrow> u32 \<Rightarrow> ('fs, 'f, 'd, 's, 't) open_st \<Rightarrow> stat res \<times> ('fs, 'f, 'd, 's, 't) open_st" where
  "sys_fstatat A Fp F H dirfd upath buf flags S =
     (case stat_target A Fp F H dirfd upath flags (flags AND AT_SYMLINK_NOFOLLOW \<noteq> 0) S of
        (k, S) \<Rightarrow> (store_stat buf k, S))"

definition sys_statx ::
  "'fs axfs \<Rightarrow> ('fs, 'f, 'd) fops \<Rightarrow> ('t, arc) flatten_ops \<Rightarrow> ('f, 's) handle_ops \<Rightarrow> i32 \<Rightarrow> string res option
   \<Rightarrow> unit res \<Rightarrow> u32 \<Rightarrow> ('fs, 'f, 'd, 's, 't) open_st \<Rightarrow> statx res \<times> ('fs, 'f, 'd, 's, 't) open_st" where
  "sys_statx A Fp F H dirfd upath buf flags S =
     (case stat_target A Fp F H dirfd upath flags False S of
        (k, S) \<Rightarrow> (rbind k (\<lambda>k. rbind buf (\<lambda>_. Inr (statx_of_kstat k))), S))"

definition sys_faccessat ::
  "'fs axfs \<Rightarrow> ('fs, 'f, 'd) fops \<Rightarrow> ('t, arc) flatten_ops \<Rightarrow> ('f, 's) handle_ops \<Rightarrow> i32 \<Rightarrow> string res
   \<Rightarrow> ('fs, 'f, 'd, 's, 't) open_st \<Rightarrow> isize res \<times> ('fs, 'f, 'd, 's, 't) open_st" where
  "sys_faccessat A Fp F H dirfd upath S =
     (case rbind upath (handle_file_path A F (o_heap S) (o_table S) (o_paths S) dirfd) of
        Inl e \<Rightarrow> (Inl e, S)
      | Inr rpath \<Rightarrow>
          (case stat_at_path Fp H (disk (o_paths S)) rpath of
             (k, fs) \<Rightarrow> (rbind k (\<lambda>_. Inr 0), with_disk S fs)))"

definition sys_access ::
  "'fs axfs \<Rightarrow> ('fs, 'f, 'd) fops \<Rightarrow> ('t, arc) flatten_ops \<Rightarrow> ('f, 's) handle_ops \<Rightarrow> string res
   \<Rightarrow> ('fs, 'f, 'd, 's, 't) open_st \<Rightarrow> isize res \<times> ('fs, 'f, 'd, 's, 't) open_st" where
  "sys_access A Fp F H upath S = sys_faccessat A Fp F H AT_FDCWD upath S"

section \<open>Properties\<close>

lemma add_to_fd_table_spec:
  assumes "flatten_spec F okt" "okt (o_table S)" "add_to_fd_table F a obj S = (r, T)"
  shows "case r of
      Inl e \<Rightarrow> T = S \<and> e = Errno EMFILE
    | Inr fd \<Rightarrow> fo_get F (o_table S) (fd_index fd) = None \<and> fd_index fd < AX_FILE_LIMIT \<and>
        o_heap T = (o_heap S)(a \<mapsto> obj) \<and> fo_get F (o_table T) = (fo_get F (o_table S))(fd_index fd \<mapsto> a)"
proof (cases "add_file_like F (o_table S) a")
  case (Pair q t)
  show ?thesis
  proof (cases q)
    case (Inl e)
    then show ?thesis
      using assms(3) Pair by (auto simp: add_to_fd_table_def add_file_like_def split: option.splits prod.splits)
  next
    case (Inr fd)
    then show ?thesis
      using assms(3) Pair add_file_like_spec [OF assms(1,2) Pair [unfolded Inr]]
      by (auto simp: add_to_fd_table_def)
  qed
qed

text \<open>What an opened descriptor must refer to: a file or a directory under the resolved path.\<close>

definition opened :: "string \<Rightarrow> ('f, 'd, 's) file_obj \<Rightarrow> bool" where
  "opened p obj \<longleftrightarrow> (\<exists>f. obj = FFile f p) \<or> (\<exists>d. obj = FDirectory d p None)"

definition open_post ::
  "('t, arc) flatten_ops \<Rightarrow> arc \<Rightarrow> string \<Rightarrow> ('fs, 'f, 'd, 's, 't) open_st \<Rightarrow> i32 res \<Rightarrow> ('fs, 'f, 'd, 's, 't) open_st
   \<Rightarrow> bool" where
  "open_post F a p S r T \<longleftrightarrow> lm (o_paths T) = lm (o_paths S) \<and>
     (case r of
        Inl e \<Rightarrow> o_heap T = o_heap S \<and> o_table T = o_table S \<and> (e = Errno EMFILE \<or> (\<exists>x. e = FromAx x))
      | Inr fd \<Rightarrow> fo_get F (o_table S) (fd_index fd) = None \<and> fd_index fd < AX_FILE_LIMIT \<and>
          (\<exists>obj. opened p obj \<and> o_heap T = (o_heap S)(a \<mapsto> obj)) \<and>
          fo_get F (o_table T) = (fo_get F (o_table S))(fd_index fd \<mapsto> a))"

lemma with_disk_sel [simp]:
  "o_heap (with_disk S d) = o_heap S" "o_table (with_disk S d) = o_table S"
  "lm (o_paths (with_disk S d)) = lm (o_paths S)" "disk (o_paths (with_disk S d)) = d"
  by (simp_all add: with_disk_def)

lemma add_to_fd_table_paths: "add_to_fd_table F a obj S = (r, T) \<Longrightarrow> o_paths T = o_paths S"
  by (auto simp: add_to_fd_table_def split: prod.splits sum.splits)

lemma add_post:
  assumes "flatten_spec F okt" "okt (o_table S)" "opened p obj"
    and "add_to_fd_table F a obj (with_disk S fs) = (r, T)"
  shows "open_post F a p S r T"
  using add_to_fd_table_spec [OF assms(1) _ assms(4)] add_to_fd_table_paths [OF assms(4)] assms(2,3)
  by (cases r) (auto simp: open_post_def)

lemma open_as_dir_post:
  assumes "flatten_spec F okt" "okt (o_table S)" "open_as_dir Fp F a (path, dir, p) opts (with_disk S fs) = (r, T)"
  shows "open_post F a p S r T"
proof -
  obtain q fs' where q: "(case dir of None \<Rightarrow> open_dir Fp fs path opts | Some d \<Rightarrow> open_dir_at Fp d fs path opts) = (q, fs')"
    by fastforce
  have wd: "with_disk (with_disk S fs) fs' = with_disk S fs'" by (simp add: with_disk_def)
  have eq: "(case (q, fs') of
        (Inl e, fs) \<Rightarrow> (Inl (FromAx e), with_disk S fs')
      | (Inr d, fs) \<Rightarrow> add_to_fd_table F a (FDirectory d p None) (with_disk S fs')) = (r, T)"
    using assms(3) unfolding open_as_dir_def prod.case with_disk_sel q by (simp add: wd split: sum.splits)
  show ?thesis
  proof (cases q)
    case (Inl e)
    then show ?thesis using eq by (auto simp: open_post_def)
  next
    case (Inr d)
    then have "add_to_fd_table F a (FDirectory d p None) (with_disk S fs') = (r, T)"
      using eq by simp
    then show ?thesis by (rule add_post [OF assms(1,2), rotated]) (simp add: opened_def)
  qed
qed

text \<open>\<open>openat\<close> resolves the path first and, when that fails, changes nothing. Otherwise it either
  returns a new descriptor, the only change to the table, for a file or directory object that carries
  the resolved path; or it fails, with EMFILE or an error of the file system, and neither the table
  nor the objects have changed. The hard links are never touched.\<close>

theorem sys_openat_spec:
  assumes "flatten_spec F okt" and "okt (o_table S)"
    and "sys_openat A Fp F a dirfd upath flags S = (r, T)"
  shows "case open_target A F dirfd upath S of
      Inl e \<Rightarrow> r = Inl e \<and> T = S
    | Inr (path, dir, p) \<Rightarrow> open_post F a p S r T"
proof (cases "open_target A F dirfd upath S")
  case (Inl e)
  then show ?thesis using assms(3) by (simp add: sys_openat_def)
next
  case (Inr x)
  obtain path dir p where x: "x = (path, dir, p)" by (cases x) auto
  let ?opts = "flags_to_options flags"
  have S: "with_disk S (disk (o_paths S)) = S" by (simp add: with_disk_def)
  show ?thesis
  proof (cases "opt_directory ?opts")
    case True
    then have "open_as_dir Fp F a (path, dir, p) ?opts (with_disk S (disk (o_paths S))) = (r, T)"
      unfolding S using assms(3) Inr x by (simp add: sys_openat_def)
    then show ?thesis using open_as_dir_post [OF assms(1,2)] Inr x by simp
  next
    case False
    obtain q fs where q: "(case dir of None \<Rightarrow> file_open Fp (disk (o_paths S)) path ?opts
        | Some d \<Rightarrow> open_file_at Fp d (disk (o_paths S)) path ?opts) = (q, fs)" by fastforce
    have eq: "(case q of Inl e \<Rightarrow> if e = IsADirectory then open_as_dir Fp F a (path, dir, p) ?opts (with_disk S fs)
          else (Inl (FromAx e), with_disk S fs)
        | Inr f \<Rightarrow> add_to_fd_table F a (FFile f p) (with_disk S fs)) = (r, T)"
      using assms(3) Inr x False q by (simp add: sys_openat_def split: sum.splits)
    have "open_post F a p S r T"
    proof (cases q)
      case (Inl e)
      then show ?thesis
        using eq open_as_dir_post [OF assms(1,2)] by (auto simp: open_post_def split: if_splits)
    next
      case f: (Inr f)
      then show ?thesis
        using eq add_post [OF assms(1,2), of p "FFile f p"] by (simp add: opened_def)
    qed
    then show ?thesis using Inr x by simp
  qed
qed

text \<open>Opening in the file system of flat names.\<close>

definition flat_fops :: "(string list, unit, unit) fops" where
  "flat_fops =
     \<lparr>file_open = (\<lambda>fs p opts. if p \<in> set fs then (Inr (), fs) else (Inl NotFound, fs)),
      open_dir = (\<lambda>fs p opts. (Inl NotFound, fs)), open_file_at = (\<lambda>d fs p opts. (Inl NotFound, fs)),
      open_dir_at = (\<lambda>d fs p opts. (Inl NotFound, fs)), symlink_metadata = (\<lambda>fs p. Inl NotFound)\<rparr>"

theorem sys_openat_spec_witness:
  "let S = \<lparr>o_paths = \<lparr>lm = link_manager_new, disk = [''/a'']\<rparr>, o_heap = (Map.empty :: (unit, unit, unit) heap),
            o_table = Map.empty\<rparr>
   in \<exists>T. sys_openat flat_fs flat_fops map_objects 7 AT_FDCWD (Inr ''/a'') 0 S = (Inr 0, T) \<and>
        open_post map_objects 7 ''/a'' S (Inr 0) T"
proof -
  let ?S = "\<lparr>o_paths = \<lparr>lm = link_manager_new, disk = [''/a'']\<rparr>, o_heap = (Map.empty :: (unit, unit, unit) heap),
            o_table = Map.empty\<rparr>"
  have ok: "map_objects_wf (o_table ?S)" by (simp add: map_objects_wf_def)
  have tg: "open_target flat_fs map_objects AT_FDCWD (Inr ''/a'') ?S = Inr (''/a'', None, ''/a'')"
    by (simp add: open_target_def handle_file_path_def file_path_new_def flat_fs_def starts_with_char_def trim_def
        trim_start_def trim_end_def is_whitespace_def ends_with_char_def real_path_def link_manager_new_def)
  obtain T where T: "sys_openat flat_fs flat_fops map_objects 7 AT_FDCWD (Inr ''/a'') 0 ?S = (Inr 0, T)"
    using tg by (simp add: sys_openat_def flags_to_options_def Let_def open_options_new_def O_DIRECTORY_def O_EXEC_def
        O_PATH_def O_CREAT_def O_TRUNC_def O_APPEND_def O_RDONLY_def flat_fops_def add_to_fd_table_def with_disk_def
        add_file_like_def map_objects_add_fresh)
  show ?thesis
    unfolding Let_def using sys_openat_spec [OF map_objects_spec ok T] T tg by auto
qed

end
