(* ===== verification/Mount.thy ===== *)
theory Mount
  imports Paths
begin

text \<open>
  Mounting (\<open>api/src/imp/fs/mount.rs\<close>): the list of mounted file systems and the calls on it. A mount
  only records the pair of paths; nothing else of the kernel reads the list.
\<close>

section \<open>The list of mounts\<close>

record mounted_fs =
  device :: string
  mnt_dir :: string

definition check_mounted :: "mounted_fs list \<Rightarrow> string \<Rightarrow> bool" where
  "check_mounted mounted path \<longleftrightarrow> (\<exists>m \<in> set mounted. path_starts_with path (mnt_dir m))"

definition mount_fat_fs ::
  "'fs axfs \<Rightarrow> 'fs path_st \<Rightarrow> string \<Rightarrow> string \<Rightarrow> mounted_fs list \<Rightarrow> bool \<times> mounted_fs list" where
  "mount_fat_fs A st device_path mount_path mounted =
     (if path_exists A st mount_path
      then (True, mounted @ [\<lparr>device = device_path, mnt_dir = mount_path\<rparr>]) else (False, mounted))"

definition umount_fat_fs :: "string \<Rightarrow> mounted_fs list \<Rightarrow> bool \<times> mounted_fs list" where
  "umount_fat_fs mount_path mounted =
     (let mounted' = filter (\<lambda>m. mnt_dir m \<noteq> mount_path) mounted
      in (length mounted > length mounted', mounted'))"

section \<open>System calls\<close>

text \<open>The paths are resolved relative to the working directory; \<open>source\<close>, \<open>target\<close> and \<open>fs_type\<close> are
  what reading the user's strings gives.\<close>

definition sys_mount ::
  "'fs axfs \<Rightarrow> ('t, arc) flatten_ops \<Rightarrow> ('f, 'd, 's) heap \<Rightarrow> 't \<Rightarrow> 'fs path_st
   \<Rightarrow> string res \<Rightarrow> string res \<Rightarrow> string res \<Rightarrow> mounted_fs list \<Rightarrow> isize res \<times> mounted_fs list" where
  "sys_mount A F h t st source target fs_type mounted =
     (case rbind source (\<lambda>source. rbind target (\<lambda>target. rbind fs_type (\<lambda>fs_type.
         rbind (handle_file_path A F h t st AT_FDCWD source) (\<lambda>device_path.
         rbind (handle_file_path A F h t st AT_FDCWD target) (\<lambda>mount_path.
           if fs_type \<noteq> ''vfat'' then Inl (Errno EPERM)
           else if \<not> path_exists A st mount_path then Inl (Errno EPERM)
           else if check_mounted mounted mount_path then Inl (Errno EPERM)
           else Inr (device_path, mount_path)))))) of
        Inl e \<Rightarrow> (Inl e, mounted)
      | Inr (device_path, mount_path) \<Rightarrow>
          (case mount_fat_fs A st device_path mount_path mounted of
             (False, mounted) \<Rightarrow> (Inl (Errno EPERM), mounted)
           | (True, mounted) \<Rightarrow> (Inr 0, mounted)))"

definition sys_umount2 ::
  "'fs axfs \<Rightarrow> ('t, arc) flatten_ops \<Rightarrow> ('f, 'd, 's) heap \<Rightarrow> 't \<Rightarrow> 'fs path_st
   \<Rightarrow> string res \<Rightarrow> i32 \<Rightarrow> mounted_fs list \<Rightarrow> isize res \<times> mounted_fs list" where
  "sys_umount2 A F h t st target flags mounted =
     (case rbind target (handle_file_path A F h t st AT_FDCWD) of
        Inl e \<Rightarrow> (Inl e, mounted)
      | Inr mount_path \<Rightarrow>
          if flags \<noteq> 0 then (Inl (Errno EPERM), mounted)
          else if \<not> path_exists A st mount_path then (Inl (Errno EPERM), mounted)
          else
            (case umount_fat_fs mount_path mounted of
               (False, mounted) \<Rightarrow> (Inl (Errno EPERM), mounted)
             | (True, mounted) \<Rightarrow> (Inr 0, mounted)))"

section \<open>Properties\<close>

lemma path_starts_with_refl: "path_starts_with p p"
  by (simp add: path_starts_with_def)

lemma sys_mount_eq:
  assumes "handle_file_path A F h t st AT_FDCWD s = Inr dev" "handle_file_path A F h t st AT_FDCWD p = Inr mp"
  shows "sys_mount A F h t st (Inr s) (Inr p) (Inr ty) M =
    (if ty = ''vfat'' \<and> path_exists A st mp \<and> \<not> (\<exists>m \<in> set M. path_starts_with mp (mnt_dir m))
     then (Inr 0, M @ [\<lparr>device = dev, mnt_dir = mp\<rparr>]) else (Inl (Errno EPERM), M))"
  using assms by (simp add: sys_mount_def mount_fat_fs_def check_mounted_def)

text \<open>C34. On paths that resolve, a mount succeeds exactly for the type \<open>vfat\<close>, an existing target, and
  no mounted directory whose path is a prefix, as a string, of the target's: so below a mounted
  directory, but also at \<open>/mnt2\<close> while \<open>/mnt\<close> is mounted, it is refused. Unmounting the target right
  after a successful mount gives the list from before; while the target is mounted, mounting there
  again is refused.\<close>

theorem sys_mount_umount:
  assumes "handle_file_path A F h t st AT_FDCWD s = Inr dev" and "handle_file_path A F h t st AT_FDCWD p = Inr mp"
  shows "case sys_mount A F h t st (Inr s) (Inr p) (Inr ty) M of (r, N) \<Rightarrow>
      (r = Inr 0 \<longleftrightarrow> ty = ''vfat'' \<and> path_exists A st mp \<and> (\<forall>m \<in> set M. \<not> path_starts_with mp (mnt_dir m))) \<and>
      (r \<noteq> Inr 0 \<longrightarrow> r = Inl (Errno EPERM) \<and> N = M) \<and>
      (r = Inr 0 \<longrightarrow> sys_umount2 A F h t st (Inr p) 0 N = (Inr 0, M) \<and>
         sys_mount A F h t st (Inr s) (Inr p) (Inr ty) N = (Inl (Errno EPERM), N))"
proof (cases "ty = ''vfat'' \<and> path_exists A st mp \<and> \<not> (\<exists>m \<in> set M. path_starts_with mp (mnt_dir m))")
  case False
  then show ?thesis unfolding sys_mount_eq [OF assms] by auto
next
  case True
  then have "\<forall>m \<in> set M. mnt_dir m \<noteq> mp" using path_starts_with_refl by metis
  then have "filter (\<lambda>m. mnt_dir m \<noteq> mp) M = M" by (simp add: filter_id_conv)
  then show ?thesis
    unfolding sys_mount_eq [OF assms] using True assms(2) path_starts_with_refl [of mp]
    by (auto simp: sys_umount2_def umount_fat_fs_def)
qed

theorem sys_mount_umount_witness:
  "let st = \<lparr>lm = link_manager_new, disk = [''/dev'', ''/mnt'', ''/mnt2'']\<rparr>;
       M = [\<lparr>device = ''/dev'', mnt_dir = ''/mnt''\<rparr>]
   in handle_file_path flat_fs map_objects (Map.empty :: (unit, unit, unit) heap) Map.empty st AT_FDCWD ''/mnt2'' = Inr ''/mnt2'' \<and>
      fst (sys_mount flat_fs map_objects (Map.empty :: (unit, unit, unit) heap) Map.empty st
         (Inr ''/dev'') (Inr ''/mnt2'') (Inr ''vfat'') M) \<noteq> Inr 0"
proof -
  let ?st = "\<lparr>lm = link_manager_new, disk = [''/dev'', ''/mnt'', ''/mnt2'']\<rparr>"
  let ?h = "Map.empty :: (unit, unit, unit) heap"
  have r: "handle_file_path flat_fs map_objects ?h Map.empty ?st AT_FDCWD p = Inr p"
    if "p = ''/dev'' \<or> p = ''/mnt2''" for p
    using that by (auto simp: handle_file_path_def file_path_new_def flat_fs_def starts_with_char_def trim_def
        trim_start_def trim_end_def is_whitespace_def ends_with_char_def real_path_def link_manager_new_def)
  show ?thesis
    unfolding Let_def
    using sys_mount_umount [OF r r, of "''/dev''" "''/mnt2''" "''vfat''" "[\<lparr>device = ''/dev'', mnt_dir = ''/mnt''\<rparr>]"] r
    by (auto simp: path_starts_with_def split: prod.splits)
qed

end
