(* ===== verification/Signal.thy ===== *)
theory Signal
  imports Time_Stat
begin

text \<open>
  Signals: the system calls of \<open>api/src/imp/signal.rs\<close>, delivery in \<open>api/src/signal.rs\<close>, and the lookups
  of \<open>core/src/task.rs\<close> they use. The crates \<open>axprocess\<close> (processes, groups, threads) and \<open>axsignal\<close>
  (numbers, queues, handlers) are parameters. What is sent is recorded in a log, in order.
\<close>

section \<open>Parameters\<close>

type_synonym pid = u32

text \<open>Processes, process groups and threads as the calls see them; the tables of \<open>task.rs\<close> hold weak
  references, so a lookup finds what is still alive.\<close>

record ('p, 'g, 'h) proc_view =
  process_table :: "pid \<Rightarrow> 'p option"
  group_table :: "pid \<Rightarrow> 'g option"
  thread_table :: "pid \<Rightarrow> 'h option"
  processes :: "'p list"
  is_init :: "'p \<Rightarrow> bool"
  group_of :: "'p \<Rightarrow> 'g"
  group_processes :: "'g \<Rightarrow> 'p list"
  pid_of :: "'p \<Rightarrow> pid"
  thread_process :: "'h \<Rightarrow> 'p"
  has_process_data :: "'p \<Rightarrow> bool"
  has_thread_data :: "'h \<Rightarrow> bool"

definition get_process :: "('p, 'g, 'h) proc_view \<Rightarrow> pid \<Rightarrow> 'p res" where
  "get_process V p = ok_or (process_table V p) ESRCH"

definition get_process_group :: "('p, 'g, 'h) proc_view \<Rightarrow> pid \<Rightarrow> 'g res" where
  "get_process_group V p = ok_or (group_table V p) ESRCH"

definition get_thread :: "('p, 'g, 'h) proc_view \<Rightarrow> pid \<Rightarrow> 'h res" where
  "get_thread V p = ok_or (thread_table V p) ESRCH"

text \<open>\<open>Signo::from_repr\<close>; the numbers of signals are 1 to 64.\<close>

type_synonym signo = u8
type_synonym from_repr = "u8 \<Rightarrow> signo option"

definition from_repr_spec :: "from_repr \<Rightarrow> bool" where
  "from_repr_spec fr \<longleftrightarrow> (\<forall>b. fr b = (if 1 \<le> b \<and> b \<le> 64 then Some b else None))"

definition SIGKILL :: signo where "SIGKILL = 9"
definition SIGSTOP :: signo where "SIGSTOP = 19"

record signal_info =
  si_signo :: signo
  si_code :: i32

definition SI_USER :: i32 where "SI_USER = 0"
definition SI_TKILL :: i32 where "SI_TKILL = - 6"

section \<open>Delivery\<close>

datatype ('p, 'h) sent = ToProcess 'p signal_info | ToThread 'h signal_info

definition send_signal_thread ::
  "('p, 'g, 'h) proc_view \<Rightarrow> 'h \<Rightarrow> signal_info \<Rightarrow> ('p, 'h) sent list \<Rightarrow> unit res \<times> ('p, 'h) sent list" where
  "send_signal_thread V thr sig log =
     (if has_thread_data V thr then (Inr (), log @ [ToThread thr sig]) else (Inl (Errno EPERM), log))"

definition send_signal_process ::
  "('p, 'g, 'h) proc_view \<Rightarrow> 'p \<Rightarrow> signal_info \<Rightarrow> ('p, 'h) sent list \<Rightarrow> unit res \<times> ('p, 'h) sent list" where
  "send_signal_process V p sig log =
     (if has_process_data V p then (Inr (), log @ [ToProcess p sig]) else (Inl (Errno EPERM), log))"

fun send_to_all ::
  "('p, 'g, 'h) proc_view \<Rightarrow> 'p list \<Rightarrow> signal_info \<Rightarrow> nat \<Rightarrow> ('p, 'h) sent list \<Rightarrow> nat \<times> ('p, 'h) sent list" where
  "send_to_all V [] sig count log = (count, log)"
| "send_to_all V (p # ps) sig count log =
     (case send_signal_process V p sig log of
        (r, log) \<Rightarrow> send_to_all V ps sig (if is_ok r then count + 1 else count) log)"

definition send_signal_process_group ::
  "('p, 'g, 'h) proc_view \<Rightarrow> 'g \<Rightarrow> signal_info \<Rightarrow> ('p, 'h) sent list \<Rightarrow> nat \<times> ('p, 'h) sent list" where
  "send_signal_process_group V pg sig log = send_to_all V (group_processes V pg) sig 0 log"

text \<open>\<open>check_signals\<close>: \<open>action\<close> is what the signal manager decided, \<open>None\<close> when nothing is pending. The
  result is the flag the function returns or the exit it ends in.\<close>

datatype os_action = Terminate | CoreDump | Stop | Continue | Handler

datatype check_result = Checked bool | DoExit i32 bool

definition check_signals :: "(signal_info \<times> os_action) option \<Rightarrow> check_result" where
  "check_signals action =
     (case action of
        None \<Rightarrow> Checked False
      | Some (sig, os) \<Rightarrow>
          (case os of
             Terminate \<Rightarrow> DoExit (128 + ucast (si_signo sig)) True
           | CoreDump \<Rightarrow> DoExit (128 + ucast (si_signo sig)) True
           | Stop \<Rightarrow> DoExit 1 True
           | Continue \<Rightarrow> Checked True
           | Handler \<Rightarrow> Checked True))"

definition post_trap_callback :: "(signal_info \<times> os_action) option \<Rightarrow> bool \<Rightarrow> check_result" where
  "post_trap_callback action from_user = (if \<not> from_user then Checked False else check_signals action)"

section \<open>Sending\<close>

definition SIGSET_SIZE :: usize where
  "SIGSET_SIZE = 8"

definition check_sigset_size :: "usize \<Rightarrow> unit res" where
  "check_sigset_size size_arg = (if size_arg \<noteq> SIGSET_SIZE then Inl (Errno EINVAL) else Inr ())"

definition parse_signo :: "from_repr \<Rightarrow> u32 \<Rightarrow> signo res" where
  "parse_signo fr signo = ok_or (fr (ucast signo)) EINVAL"

definition make_siginfo :: "from_repr \<Rightarrow> u32 \<Rightarrow> i32 \<Rightarrow> signal_info option res" where
  "make_siginfo fr signo code =
     (if signo = 0 then Inr None
      else rbind (parse_signo fr signo) (\<lambda>s. Inr (Some \<lparr>si_signo = s, si_code = code\<rparr>)))"

fun kill_all ::
  "('p, 'g, 'h) proc_view \<Rightarrow> 'p list \<Rightarrow> signal_info \<Rightarrow> nat \<Rightarrow> ('p, 'h) sent list \<Rightarrow> nat res \<times> ('p, 'h) sent list" where
  "kill_all V [] sig count log = (Inr count, log)"
| "kill_all V (p # ps) sig count log =
     (if is_init V p then kill_all V ps sig count log
      else case send_signal_process V p sig log of
        (Inl e, log) \<Rightarrow> (Inl e, log)
      | (Inr _, log) \<Rightarrow> kill_all V ps sig (count + 1) log)"

text \<open>\<open>cur\<close> is the process of the caller.\<close>

definition sys_kill ::
  "from_repr \<Rightarrow> ('p, 'g, 'h) proc_view \<Rightarrow> 'p \<Rightarrow> i32 \<Rightarrow> u32 \<Rightarrow> ('p, 'h) sent list \<Rightarrow> nat res \<times> ('p, 'h) sent list" where
  "sys_kill fr V cur pid signo log =
     (case make_siginfo fr signo SI_USER of
        Inl e \<Rightarrow> (Inl e, log)
      | Inr None \<Rightarrow> (Inr 0, log)
      | Inr (Some sig) \<Rightarrow>
          if 1 \<le>s pid then
            (case get_process V pid of
               Inl e \<Rightarrow> (Inl e, log)
             | Inr p \<Rightarrow> sbind (send_signal_process V p sig log) (\<lambda>_ log. (Inr 1, log)))
          else if pid = 0 then
            (case send_signal_process_group V (group_of V cur) sig log of (n, log) \<Rightarrow> (Inr n, log))
          else if pid = - 1 then kill_all V (processes V) sig 0 log
          else
            (case get_process_group V (- pid) of
               Inl e \<Rightarrow> (Inl e, log)
             | Inr pg \<Rightarrow> (case send_signal_process_group V pg sig log of (n, log) \<Rightarrow> (Inr n, log))))"

definition sys_tkill ::
  "from_repr \<Rightarrow> ('p, 'g, 'h) proc_view \<Rightarrow> pid \<Rightarrow> u32 \<Rightarrow> ('p, 'h) sent list \<Rightarrow> isize res \<times> ('p, 'h) sent list" where
  "sys_tkill fr V tid signo log =
     (case make_siginfo fr signo SI_TKILL of
        Inl e \<Rightarrow> (Inl e, log)
      | Inr None \<Rightarrow> (Inr 0, log)
      | Inr (Some sig) \<Rightarrow>
          sbind (get_thread V tid, log) (\<lambda>thr log. sbind (send_signal_thread V thr sig log) (\<lambda>_ log. (Inr 0, log))))"

definition find_thread_in_group :: "('p, 'g, 'h) proc_view \<Rightarrow> pid \<Rightarrow> pid \<Rightarrow> 'h res" where
  "find_thread_in_group V tgid tid =
     rbind (get_thread V tid) (\<lambda>thr.
       if pid_of V (thread_process V thr) \<noteq> tgid then Inl (Errno ESRCH) else Inr thr)"

definition sys_tgkill ::
  "from_repr \<Rightarrow> ('p, 'g, 'h) proc_view \<Rightarrow> pid \<Rightarrow> pid \<Rightarrow> u32 \<Rightarrow> ('p, 'h) sent list
   \<Rightarrow> isize res \<times> ('p, 'h) sent list" where
  "sys_tgkill fr V tgid tid signo log =
     (case make_siginfo fr signo SI_TKILL of
        Inl e \<Rightarrow> (Inl e, log)
      | Inr None \<Rightarrow> (Inr 0, log)
      | Inr (Some sig) \<Rightarrow>
          sbind (find_thread_in_group V tgid tid, log) (\<lambda>thr log.
            sbind (send_signal_thread V thr sig log) (\<lambda>_ log. (Inr 0, log))))"

text \<open>\<open>usig\<close> is what the user's structure holds.\<close>

definition make_queue_signal_info ::
  "from_repr \<Rightarrow> ('p, 'g, 'h) proc_view \<Rightarrow> 'p \<Rightarrow> pid \<Rightarrow> u32 \<Rightarrow> signal_info res \<Rightarrow> signal_info res" where
  "make_queue_signal_info fr V cur tgid signo usig =
     rbind (parse_signo fr signo) (\<lambda>s. rbind usig (\<lambda>sig.
       let sig = sig\<lparr>si_signo := s\<rparr> in
       if pid_of V cur \<noteq> tgid \<and> (0 \<le>s si_code sig \<or> si_code sig = SI_TKILL)
       then Inl (Errno EPERM) else Inr sig))"

definition sys_rt_sigqueueinfo ::
  "from_repr \<Rightarrow> ('p, 'g, 'h) proc_view \<Rightarrow> 'p \<Rightarrow> pid \<Rightarrow> u32 \<Rightarrow> signal_info res \<Rightarrow> usize \<Rightarrow> ('p, 'h) sent list
   \<Rightarrow> isize res \<times> ('p, 'h) sent list" where
  "sys_rt_sigqueueinfo fr V cur tgid signo usig sz log =
     (case rbind (check_sigset_size sz) (\<lambda>_. rbind (make_queue_signal_info fr V cur tgid signo usig) (\<lambda>sig.
         rbind (get_process V tgid) (\<lambda>p. Inr (p, sig)))) of
        Inl e \<Rightarrow> (Inl e, log)
      | Inr (p, sig) \<Rightarrow> sbind (send_signal_process V p sig log) (\<lambda>_ log. (Inr 0, log)))"

definition sys_rt_tgsigqueueinfo ::
  "from_repr \<Rightarrow> ('p, 'g, 'h) proc_view \<Rightarrow> 'p \<Rightarrow> pid \<Rightarrow> pid \<Rightarrow> u32 \<Rightarrow> signal_info res \<Rightarrow> usize \<Rightarrow> ('p, 'h) sent list
   \<Rightarrow> isize res \<times> ('p, 'h) sent list" where
  "sys_rt_tgsigqueueinfo fr V cur tgid tid signo usig sz log =
     (case rbind (check_sigset_size sz) (\<lambda>_. rbind (make_queue_signal_info fr V cur tgid signo usig) (\<lambda>sig.
         rbind (find_thread_in_group V tgid tid) (\<lambda>thr. Inr (thr, sig)))) of
        Inl e \<Rightarrow> (Inl e, log)
      | Inr (thr, sig) \<Rightarrow> sbind (send_signal_thread V thr sig log) (\<lambda>_ log. (Inr 0, log)))"

section \<open>Masks, actions and stacks\<close>

text \<open>A \<open>SignalSet\<close> is a 64-bit mask; signal \<open>s\<close> is bit \<open>s - 1\<close>.\<close>

type_synonym sigset = u64

definition sig_in :: "signo \<Rightarrow> sigset \<Rightarrow> bool" where
  "sig_in s m \<longleftrightarrow> bit m (unat s - 1)"

definition sigset_remove :: "signo \<Rightarrow> sigset \<Rightarrow> sigset" where
  "sigset_remove s m = m AND NOT (push_bit (unat s - 1) 1)"

definition SIG_BLOCK :: u32 where "SIG_BLOCK = 0"
definition SIG_UNBLOCK :: u32 where "SIG_UNBLOCK = 1"
definition SIG_SETMASK :: u32 where "SIG_SETMASK = 2"

text \<open>The result, the new mask, and what was stored through \<open>oldset\<close>. Null pointers are \<open>None\<close>.\<close>

definition sys_rt_sigprocmask ::
  "i32 \<Rightarrow> sigset res option \<Rightarrow> unit res option \<Rightarrow> usize \<Rightarrow> sigset \<Rightarrow> isize res \<times> sigset \<times> sigset option" where
  "sys_rt_sigprocmask how set_arg oldset sz blocked =
     (case rbind (check_sigset_size sz) (\<lambda>_. case oldset of None \<Rightarrow> Inr None | Some r \<Rightarrow> rbind r (\<lambda>_. Inr (Some blocked))) of
        Inl e \<Rightarrow> (Inl e, blocked, None)
      | Inr old \<Rightarrow>
          (case set_arg of
             None \<Rightarrow> (Inr 0, blocked, old)
           | Some (Inl e) \<Rightarrow> (Inl e, blocked, old)
           | Some (Inr m) \<Rightarrow>
               if how = SIG_BLOCK then (Inr 0, blocked OR m, old)
               else if how = SIG_UNBLOCK then (Inr 0, blocked AND NOT m, old)
               else if how = SIG_SETMASK then (Inr 0, m, old)
               else (Inl (Errno EINVAL), blocked, old)))"

text \<open>The actions of a process by signal number; \<open>conv\<close> is the conversion of the user's structure.\<close>

definition sys_rt_sigaction ::
  "from_repr \<Rightarrow> ('u \<Rightarrow> 'a res) \<Rightarrow> u32 \<Rightarrow> 'u res option \<Rightarrow> unit res option \<Rightarrow> usize \<Rightarrow> (signo \<Rightarrow> 'a)
   \<Rightarrow> isize res \<times> (signo \<Rightarrow> 'a) \<times> 'a option" where
  "sys_rt_sigaction fr conv signo act oldact sz actions =
     (case rbind (check_sigset_size sz) (\<lambda>_. rbind (parse_signo fr signo) (\<lambda>s.
         if s = SIGKILL \<or> s = SIGSTOP then Inl (Errno EINVAL)
         else case oldact of None \<Rightarrow> Inr (s, None) | Some r \<Rightarrow> rbind r (\<lambda>_. Inr (s, Some (actions s))))) of
        Inl e \<Rightarrow> (Inl e, actions, None)
      | Inr (s, old) \<Rightarrow>
          (case act of
             None \<Rightarrow> (Inr 0, actions, old)
           | Some u \<Rightarrow>
               (case rbind u conv of
                  Inl e \<Rightarrow> (Inl e, actions, old)
                | Inr a \<Rightarrow> (Inr 0, actions(s := a), old))))"

definition sys_rt_sigpending :: "unit res \<Rightarrow> usize \<Rightarrow> sigset \<Rightarrow> sigset res" where
  "sys_rt_sigpending buf sz pending = rbind (check_sigset_size sz) (\<lambda>_. rbind buf (\<lambda>_. Inr pending))"

text \<open>\<open>wait_for\<close> is the wait of the signal manager; its answer is stored through \<open>info\<close>.\<close>

definition sys_rt_sigtimedwait ::
  "(sigset \<Rightarrow> time_value option \<Rightarrow> 'i option) \<Rightarrow> sigset res \<Rightarrow> unit res option \<Rightarrow> timespec res option \<Rightarrow> usize
   \<Rightarrow> 'i option res" where
  "sys_rt_sigtimedwait wait_for uset info timeout sz =
     rbind (check_sigset_size sz) (\<lambda>_. rbind uset (\<lambda>m.
       rbind (case timeout of None \<Rightarrow> Inr None
              | Some r \<Rightarrow> rbind r (\<lambda>ts. rbind (timespec_to_time_value ts) (\<lambda>d. Inr (Some d)))) (\<lambda>d.
         case wait_for m d of
           None \<Rightarrow> Inl (Errno EAGAIN)
         | Some sig \<Rightarrow> (case info of None \<Rightarrow> Inr None | Some r \<Rightarrow> rbind r (\<lambda>_. Inr (Some sig))))))"

text \<open>The mask a thread waits with in \<open>sys_rt_sigsuspend\<close>, and the loop over what each check of the
  signals finds: \<open>None\<close> while it still waits.\<close>

definition suspend_mask :: "sigset \<Rightarrow> sigset" where
  "suspend_mask m = sigset_remove SIGSTOP (sigset_remove SIGKILL m)"

fun suspend_loop :: "(signal_info \<times> os_action) option list \<Rightarrow> check_result option" where
  "suspend_loop [] = None"
| "suspend_loop (a # as) = (if check_signals a = Checked False then suspend_loop as else Some (check_signals a))"

text \<open>The whole call: the mask the thread waits with, the mask to restore and the way the wait ended; the
  register for the result is set to \<open>-EINTR\<close> before the wait.\<close>

definition sys_rt_sigsuspend ::
  "sigset res \<Rightarrow> usize \<Rightarrow> (signal_info \<times> os_action) option list \<Rightarrow> sigset
   \<Rightarrow> (sigset \<times> sigset \<times> check_result) res option" where
  "sys_rt_sigsuspend uset sz checks blocked =
     (case rbind (check_sigset_size sz) (\<lambda>_. uset) of
        Inl e \<Rightarrow> Some (Inl e)
      | Inr m \<Rightarrow> map_option (\<lambda>c. Inr (suspend_mask m, blocked, c)) (suspend_loop checks))"

text \<open>\<open>restore\<close> is the method of the thread's signal manager, which takes the saved frame from the user stack, and
  \<open>retval\<close> the result register of a frame.\<close>

definition sys_rt_sigreturn :: "('s \<Rightarrow> 'tf \<Rightarrow> 's \<times> 'tf) \<Rightarrow> ('tf \<Rightarrow> usize) \<Rightarrow> 's \<Rightarrow> 'tf \<Rightarrow> isize res \<times> 's \<times> 'tf" where
  "sys_rt_sigreturn restore retval sg tf = (case restore sg tf of (sg, tf) \<Rightarrow> (Inr (retval tf), sg, tf))"

text \<open>The trap stores the result of the call in the frame, so the interrupted code finds its registers as they were.\<close>

lemma sigreturn_keeps_frame:
  assumes "\<And>tf. set_retval tf (retval tf) = tf" "restore sg tf = (sg', tf')"
  shows "\<exists>v. sys_rt_sigreturn restore retval sg tf = (Inr v, sg', tf') \<and> set_retval tf' v = tf'"
  using assms by (simp add: sys_rt_sigreturn_def)

record signal_stack =
  ss_sp :: usize
  ss_flags :: u32
  ss_size :: usize

text \<open>The value on riscv64 and x86_64.\<close>

definition MINSIGSTKSZ :: usize where
  "MINSIGSTKSZ = 2048"

definition sys_sigaltstack ::
  "(usize \<Rightarrow> usize \<Rightarrow> unit res) \<Rightarrow> signal_stack res option \<Rightarrow> unit res option \<Rightarrow> signal_stack
   \<Rightarrow> isize res \<times> signal_stack \<times> signal_stack option" where
  "sys_sigaltstack chk ss old_ss stack =
     (case (case old_ss of None \<Rightarrow> Inr None | Some r \<Rightarrow> rbind r (\<lambda>_. Inr (Some stack))) of
        Inl e \<Rightarrow> (Inl e, stack, None)
      | Inr old \<Rightarrow>
          (case ss of
             None \<Rightarrow> (Inr 0, stack, old)
           | Some r \<Rightarrow>
               (case rbind r (\<lambda>s. if ss_size s \<le> MINSIGSTKSZ then Inl (Errno ENOMEM)
                                 else rbind (chk (ss_sp s) (ss_size s)) (\<lambda>_. Inr s)) of
                  Inl e \<Rightarrow> (Inl e, stack, old)
                | Inr s \<Rightarrow> (Inr 0, s, old))))"

section \<open>Properties\<close>

text \<open>The processes a call of kill is meant for.\<close>

definition kill_targets :: "('p, 'g, 'h) proc_view \<Rightarrow> 'p \<Rightarrow> i32 \<Rightarrow> 'p list option" where
  "kill_targets V cur pid =
     (if 1 \<le>s pid then map_option (\<lambda>p. [p]) (process_table V pid)
      else if pid = 0 then Some (group_processes V (group_of V cur))
      else if pid = - 1 then Some (filter (\<lambda>p. \<not> is_init V p) (processes V))
      else map_option (group_processes V) (group_table V (- pid)))"

lemma send_to_all_ok:
  assumes "\<And>p. has_process_data V p"
  shows "send_to_all V ps sig n log = (n + length ps, log @ map (\<lambda>p. ToProcess p sig) ps)"
  using assms by (induction ps arbitrary: n log) (auto simp: send_signal_process_def)

lemma kill_all_ok:
  assumes "\<And>p. has_process_data V p"
  shows "kill_all V ps sig n log =
    (Inr (n + length (filter (\<lambda>p. \<not> is_init V p) ps)), log @ map (\<lambda>p. ToProcess p sig) (filter (\<lambda>p. \<not> is_init V p) ps))"
  using assms by (induction ps arbitrary: n log) (auto simp: send_signal_process_def)


text \<open>Three processes in one group, the first of them init.\<close>

definition three_procs :: "(nat, unit, unit) proc_view" where
  "three_procs =
     \<lparr>process_table = (\<lambda>p. if unat p < 3 then Some (unat p) else None), group_table = (\<lambda>p. None),
      thread_table = (\<lambda>p. None), processes = [0, 1, 2], is_init = (\<lambda>p. p = 0), group_of = (\<lambda>p. ()),
      group_processes = (\<lambda>g. [0, 1, 2]), pid_of = word_of_nat, thread_process = (\<lambda>h. 0),
      has_process_data = (\<lambda>p. True), has_thread_data = (\<lambda>h. True)\<rparr>"

definition repr_64 :: from_repr where
  "repr_64 b = (if 1 \<le> b \<and> b \<le> 64 then Some b else None)"


lemma sigset_bit_less: "bit (m :: sigset) n \<Longrightarrow> n < 64"
  using bit_imp_le_length [of m n] by simp

text \<open>After a successful call of \<open>rt_sigprocmask\<close> a signal is blocked exactly as the operation says
  (blocked before or in the set, blocked before and not in the set, or in the set); on every error
  the mask is what it was. The old mask is stored whenever a place for it was given and reachable, also
  when the call then fails.\<close>

theorem sys_rt_sigprocmask_spec:
  assumes "sys_rt_sigprocmask how set_arg oldset sz blocked = (r, blocked', stored)"
  shows "(case r of
      Inl e \<Rightarrow> blocked' = blocked
    | Inr v \<Rightarrow> v = 0 \<and> sz = 8 \<and>
        (case set_arg of
           None \<Rightarrow> blocked' = blocked
         | Some s \<Rightarrow> \<exists>m. s = Inr m \<and> how \<in> {0, 1, 2} \<and>
             (\<forall>x. sig_in x blocked' \<longleftrightarrow>
               (if how = 0 then sig_in x blocked \<or> sig_in x m
                else if how = 1 then sig_in x blocked \<and> \<not> sig_in x m
                else sig_in x m)))) \<and>
    (stored = (if sz = 8 \<and> oldset = Some (Inr ()) then Some blocked else None))"
  using assms
  by (cases oldset; cases set_arg)
    (auto simp: sys_rt_sigprocmask_def check_sigset_size_def SIGSET_SIZE_def SIG_BLOCK_def SIG_UNBLOCK_def
      SIG_SETMASK_def sig_in_def bit_simps res_simps intro: sigset_bit_less split: sum.splits if_splits)

theorem sys_rt_sigprocmask_spec_witness:
  "let r = sys_rt_sigprocmask 1 (Some (Inr 5)) (Some (Inr ())) 8 7 in
   r = (Inr 0, 2, Some 7) \<and> (\<forall>x. sig_in x 2 \<longleftrightarrow> sig_in x 7 \<and> \<not> sig_in x 5)"
proof -
  have e: "sys_rt_sigprocmask 1 (Some (Inr 5)) (Some (Inr ())) 8 7 = (Inr 0, 2, Some 7)"
    by (simp add: sys_rt_sigprocmask_def check_sigset_size_def SIGSET_SIZE_def SIG_BLOCK_def SIG_UNBLOCK_def)
  show ?thesis unfolding Let_def e using sys_rt_sigprocmask_spec [OF e] by simp
qed

end
