(* ===== verification/Process.thy ===== *)
theory Process
  imports Signal
begin

text \<open>
  Processes: the task tables of \<open>core/src/task.rs\<close>, and the calls of \<open>api/src/imp/task\<close> on process groups
  (\<open>thread.rs\<close>), waiting (\<open>wait.rs\<close>) and exiting (\<open>exit.rs\<close>). The process tree belongs to the crate
  \<open>axprocess\<close>: it is a state \<open>'w\<close> with the operations \<open>X\<close>. Processes, groups, sessions and threads are
  named by their numbers.
\<close>

section \<open>The process tree\<close>

record 'w axproc =
  ax_parent :: "'w \<Rightarrow> pid \<Rightarrow> pid option"
  ax_pgid :: "'w \<Rightarrow> pid \<Rightarrow> pid"
  ax_sid :: "'w \<Rightarrow> pid \<Rightarrow> pid"
  ax_members :: "'w \<Rightarrow> pid \<Rightarrow> pid list"
  ax_create_group :: "pid \<Rightarrow> 'w \<Rightarrow> bool \<times> 'w"
  ax_move_to_group :: "pid \<Rightarrow> pid \<Rightarrow> 'w \<Rightarrow> bool \<times> 'w"

text \<open>What \<open>axprocess\<close> documents of \<open>create_group\<close>: it fails for the leader of a group, and otherwise the
  process becomes the only member of the new group that has its number.\<close>

definition create_group_spec :: "'w axproc \<Rightarrow> bool" where
  "create_group_spec X \<longleftrightarrow>
     (\<forall>w p. ax_pgid X w p \<noteq> p \<longrightarrow> (\<exists>w'. ax_create_group X p w = (True, w') \<and> ax_pgid X w' p = p \<and>
        ax_members X w' p = [p]))"

section \<open>The task tables\<close>

record 'w ktask =
  thread_tab :: "pid \<rightharpoonup> pid"
  process_tab :: "pid list"
  group_tab :: "pid list"
  session_tab :: "pid list"
  tree :: 'w

text \<open>\<open>tid\<close> is a thread of the process \<open>p\<close>.\<close>

definition add_thread_to_table :: "'w axproc \<Rightarrow> pid \<Rightarrow> pid \<Rightarrow> 'w ktask \<Rightarrow> 'w ktask" where
  "add_thread_to_table X tid p S =
     (let S1 = S\<lparr>thread_tab := (thread_tab S)(tid \<mapsto> p)\<rparr> in
      if p \<in> set (process_tab S1) then S1
      else
        let S2 = S1\<lparr>process_tab := p # process_tab S1\<rparr>;
            g = ax_pgid X (tree S) p
        in if g \<in> set (group_tab S2) then S2
           else
             let S3 = S2\<lparr>group_tab := g # group_tab S2\<rparr>;
                 sid = ax_sid X (tree S) g
             in if sid \<in> set (session_tab S3) then S3
                else S3\<lparr>session_tab := sid # session_tab S3\<rparr>)"

definition task_view :: "'w axproc \<Rightarrow> 'w ktask \<Rightarrow> (pid, pid, pid) proc_view" where
  "task_view X S =
     \<lparr>process_table = (\<lambda>p. if p \<in> set (process_tab S) then Some p else None),
      group_table = (\<lambda>g. if g \<in> set (group_tab S) then Some g else None),
      thread_table = (\<lambda>t. if thread_tab S t \<noteq> None then Some t else None),
      processes = process_tab S, is_init = (\<lambda>p. ax_parent X (tree S) p = None),
      group_of = ax_pgid X (tree S), group_processes = ax_members X (tree S), pid_of = (\<lambda>p. p),
      thread_process = (\<lambda>t. case thread_tab S t of Some p \<Rightarrow> p | None \<Rightarrow> 0),
      has_process_data = (\<lambda>p. True), has_thread_data = (\<lambda>t. True)\<rparr>"

definition get_session :: "'w ktask \<Rightarrow> pid \<Rightarrow> pid res" where
  "get_session S sid = ok_or (if sid \<in> set (session_tab S) then Some sid else None) ESRCH"

section \<open>Process groups\<close>

text \<open>\<open>cur\<close> is the process of the caller.\<close>

definition sys_getpgid :: "'w axproc \<Rightarrow> pid \<Rightarrow> pid \<Rightarrow> 'w ktask \<Rightarrow> pid res" where
  "sys_getpgid X cur p S =
     (if p = 0 then Inr (ax_pgid X (tree S) cur)
      else rbind (get_process (task_view X S) p) (\<lambda>p. Inr (ax_pgid X (tree S) p)))"

definition sys_getppid :: "'w axproc \<Rightarrow> pid \<Rightarrow> 'w ktask \<Rightarrow> pid res" where
  "sys_getppid X cur S = (case ax_parent X (tree S) cur of None \<Rightarrow> Inl Panic | Some p \<Rightarrow> Inr p)"

definition sys_setpgid :: "'w axproc \<Rightarrow> pid \<Rightarrow> pid \<Rightarrow> pid \<Rightarrow> 'w ktask \<Rightarrow> isize res \<times> 'w ktask" where
  "sys_setpgid X cur p pgid S =
     (case (if p = 0 then Inr cur else get_process (task_view X S) p) of
        Inl e \<Rightarrow> (Inl e, S)
      | Inr target \<Rightarrow>
          let w = tree S;
              target_pgid = (if pgid = 0 then target else pgid)
          in if target_pgid = ax_pgid X w target then (Inr 0, S)
             else if target \<noteq> cur \<and> ax_parent X w target \<noteq> Some cur then (Inl (Errno ESRCH), S)
             else if target \<noteq> cur \<and> ax_sid X w (ax_pgid X w target) \<noteq> ax_sid X w (ax_pgid X w cur)
             then (Inl (Errno EPERM), S)
             else if target_pgid = target then
               (case ax_create_group X target w of
                  (False, w) \<Rightarrow> (Inl (Errno EPERM), S\<lparr>tree := w\<rparr>)
                | (True, w) \<Rightarrow> (Inr 0, S\<lparr>tree := w\<rparr>))
             else
               (case get_process_group (task_view X S) target_pgid of
                  Inl _ \<Rightarrow> (Inl (Errno EPERM), S)
                | Inr g \<Rightarrow>
                    if ax_sid X w g \<noteq> ax_sid X w (ax_pgid X w target) then (Inl (Errno EPERM), S)
                    else (case ax_move_to_group X target g w of
                        (False, w) \<Rightarrow> (Inl (Errno EPERM), S\<lparr>tree := w\<rparr>)
                      | (True, w) \<Rightarrow> (Inr 0, S\<lparr>tree := w\<rparr>))))"

section \<open>Waiting for children\<close>

definition WNOHANG :: u32 where "WNOHANG = 1"
definition WNOWAIT :: u32 where "WNOWAIT = 0x01000000"
definition WALL :: u32 where "WALL = 0x40000000"
definition WCLONE :: u32 where "WCLONE = 0x80000000"

definition has_option :: "u32 \<Rightarrow> u32 \<Rightarrow> bool" where
  "has_option options f \<longleftrightarrow> options AND f = f"

datatype wait_pid = WAny | WPid pid | WPgid pid

record child =
  ch_pid :: pid
  ch_pgid :: pid
  ch_exit_signal :: "signo option"

definition SIGCHLD :: signo where "SIGCHLD = 17"

definition is_clone_child :: "child \<Rightarrow> bool" where
  "is_clone_child c \<longleftrightarrow> ch_exit_signal c \<noteq> Some SIGCHLD"

fun wait_apply :: "wait_pid \<Rightarrow> child \<Rightarrow> bool" where
  "wait_apply WAny c = True"
| "wait_apply (WPid p) c = (ch_pid c = p)"
| "wait_apply (WPgid g) c = (ch_pgid c = g)"

definition wait_pid_from :: "i32 \<Rightarrow> pid \<Rightarrow> wait_pid" where
  "wait_pid_from p own_pgid =
     (if p = - 1 then WAny else if p = 0 then WPgid own_pgid else if 0 <s p then WPid p else WPgid (- p))"

definition wait_children :: "wait_pid \<Rightarrow> u32 \<Rightarrow> child list \<Rightarrow> child list" where
  "wait_children wp options children =
     filter (\<lambda>c. has_option options WALL \<or> has_option options WCLONE = is_clone_child c)
       (filter (wait_apply wp) children)"

text \<open>What a call leaves behind: the value returned, the status stored for the user and the child that
  was freed.\<close>

record wait_result =
  wr_pid :: pid
  wr_status :: "i32 option"
  wr_freed :: "pid option"

text \<open>Each round is the moment the loop looks at the children: \<open>z p\<close> is the exit code of a child \<open>p\<close>
  that is a zombie then. Between two rounds the caller sleeps; \<open>None\<close> while it still does.\<close>

fun wait_loop :: "u32 \<Rightarrow> bool \<Rightarrow> child list \<Rightarrow> (pid \<Rightarrow> i32 option) list \<Rightarrow> wait_result option" where
  "wait_loop options store kids [] = None"
| "wait_loop options store kids (z # zs) =
     (case find (\<lambda>c. z (ch_pid c) \<noteq> None) kids of
        Some c \<Rightarrow>
          Some \<lparr>wr_pid = ch_pid c, wr_status = (if store then z (ch_pid c) else None),
                wr_freed = (if has_option options WNOWAIT then None else Some (ch_pid c))\<rparr>
      | None \<Rightarrow>
          if has_option options WNOHANG then Some \<lparr>wr_pid = 0, wr_status = None, wr_freed = None\<rparr>
          else wait_loop options store kids zs)"

text \<open>\<open>ptr\<close> is the check of the pointer for the status, \<open>None\<close> for a null pointer.\<close>

definition sys_waitpid ::
  "i32 \<Rightarrow> unit res option \<Rightarrow> u32 \<Rightarrow> pid \<Rightarrow> child list \<Rightarrow> (pid \<Rightarrow> i32 option) list \<Rightarrow> wait_result res option" where
  "sys_waitpid p ptr options own_pgid children rounds =
     (let kids = wait_children (wait_pid_from p own_pgid) options children in
      if kids = [] then Some (Inl (Errno ECHILD))
      else case (case ptr of None \<Rightarrow> Inr False | Some r \<Rightarrow> rbind r (\<lambda>_. Inr True)) of
        Inl e \<Rightarrow> Some (Inl e)
      | Inr store \<Rightarrow> map_option Inr (wait_loop options store kids rounds))"

section \<open>Exiting\<close>

datatype exit_effect =
    ClearTid usize | FutexNotify usize | Yield | ThreadExit i32 | ProcessExit | SignalParent signo
  | NotifyParent | FdTableClear | GroupExit | KillThread pid | TaskExit i32

text \<open>What an exit finds: the address of the thread's tid word when it can be written and whether a futex
  waits there, whether this is the last thread, the parent (and whether it has user data), the
  signal the parent gets, and the other threads.\<close>

record exit_ctx =
  ex_clear_tid :: "usize option"
  ex_futex :: bool
  ex_last :: bool
  ex_parent :: "bool option"
  ex_signal :: "signo option"
  ex_group_exited :: bool
  ex_threads :: "pid list"

definition do_exit :: "i32 \<Rightarrow> bool \<Rightarrow> exit_ctx \<Rightarrow> exit_effect list" where
  "do_exit exit_code group_exit c =
     (case ex_clear_tid c of
        None \<Rightarrow> []
      | Some a \<Rightarrow> [ClearTid a] @ (if ex_futex c then [FutexNotify a] else []) @ [Yield]) @
     [ThreadExit exit_code] @
     (if ex_last c then
        [ProcessExit] @
        (case ex_parent c of
           None \<Rightarrow> []
         | Some has_data \<Rightarrow>
             (case ex_signal c of None \<Rightarrow> [] | Some s \<Rightarrow> [SignalParent s]) @ (if has_data then [NotifyParent] else [])) @
        [ProcessExit, FdTableClear]
      else []) @
     (if group_exit \<and> \<not> ex_group_exited c then [GroupExit] @ map KillThread (ex_threads c) else []) @
     [TaskExit exit_code]"

definition sys_exit :: "i32 \<Rightarrow> exit_ctx \<Rightarrow> exit_effect list" where
  "sys_exit exit_code c = do_exit (push_bit 8 exit_code) False c"

definition sys_exit_group :: "i32 \<Rightarrow> exit_ctx \<Rightarrow> exit_effect list" where
  "sys_exit_group exit_code c = do_exit (push_bit 8 exit_code) True c"

section \<open>Properties\<close>

lemma wait_loop_eq:
  "wait_loop options store kids rounds =
     (case find (\<lambda>z. has_option options WNOHANG \<or> (\<exists>c \<in> set kids. z (ch_pid c) \<noteq> None)) rounds of
        None \<Rightarrow> None
      | Some z \<Rightarrow>
          (case find (\<lambda>c. z (ch_pid c) \<noteq> None) kids of
             None \<Rightarrow> Some \<lparr>wr_pid = 0, wr_status = None, wr_freed = None\<rparr>
           | Some c \<Rightarrow> Some \<lparr>wr_pid = ch_pid c, wr_status = (if store then z (ch_pid c) else None),
               wr_freed = (if has_option options WNOWAIT then None else Some (ch_pid c))\<rparr>))"
proof (induction rounds)
  case (Cons z zs)
  show ?case
  proof (cases "find (\<lambda>c. z (ch_pid c) \<noteq> None) kids")
    case None
    then have "\<not> (\<exists>c \<in> set kids. z (ch_pid c) \<noteq> None)" by (simp only: find_None_iff) blast
    then show ?thesis using Cons.IH None by simp
  next
    case (Some c)
    then have "\<exists>c \<in> set kids. z (ch_pid c) \<noteq> None" using find_None_iff [of "\<lambda>c. z (ch_pid c) \<noteq> None" kids] by auto
    then show ?thesis using Some by simp
  qed
qed simp

text \<open>C22. \<open>waitpid\<close> fails with ECHILD exactly when no child is selected by its arguments. Otherwise it
  answers at the first moment one of them is a zombie (at the very first moment with WNOHANG), with
  the first such child in the order of the children: it returns its number, stores its exit code when
  a place was given, and frees it unless WNOWAIT is set. With WNOHANG and no zombie it returns 0. Only
  selected children are ever returned or freed.\<close>

theorem sys_waitpid_spec:
  "sys_waitpid p ptr options own_pgid children rounds =
     (let kids = filter (\<lambda>c. wait_apply (wait_pid_from p own_pgid) c \<and>
              (has_option options WALL \<or> has_option options WCLONE = is_clone_child c)) children;
          answer = find (\<lambda>z. has_option options WNOHANG \<or> (\<exists>c \<in> set kids. z (ch_pid c) \<noteq> None)) rounds
      in if kids = [] then Some (Inl (Errno ECHILD))
         else case ptr of
           Some (Inl e) \<Rightarrow> Some (Inl e)
         | _ \<Rightarrow> map_option (\<lambda>z. Inr
             (case find (\<lambda>c. z (ch_pid c) \<noteq> None) kids of
                None \<Rightarrow> \<lparr>wr_pid = 0, wr_status = None, wr_freed = None\<rparr>
              | Some c \<Rightarrow> \<lparr>wr_pid = ch_pid c, wr_status = (if ptr \<noteq> None then z (ch_pid c) else None),
                  wr_freed = (if has_option options WNOWAIT then None else Some (ch_pid c))\<rparr>)) answer)"
proof -
  have kids: "wait_children (wait_pid_from p own_pgid) options children =
      filter (\<lambda>c. wait_apply (wait_pid_from p own_pgid) c \<and>
        (has_option options WALL \<or> has_option options WCLONE = is_clone_child c)) children"
    by (simp add: wait_children_def conj_commute)
  show ?thesis
    unfolding sys_waitpid_def wait_loop_eq kids Let_def
    by (cases ptr; cases "the ptr") (simp_all split: option.split)
qed

text \<open>A process that makes itself the leader of a new group with \<open>setpgid(0, 0)\<close> is its member, but
  the group is not entered in the table of groups: a \<open>kill\<close> of the group finds nobody, and no child
  can be moved into it, until a new process of the group is registered.\<close>

theorem sys_setpgid_group_unregistered:
  assumes "create_group_spec X" and "ax_pgid X (tree S) cur \<noteq> cur" and "cur \<notin> set (group_tab S)"
    and "1 <s cur" and "1 \<le> signo" and "signo \<le> 64" and "from_repr_spec fr"
  shows "case sys_setpgid X cur 0 0 S of (r, T) \<Rightarrow>
      r = Inr 0 \<and> ax_pgid X (tree T) cur = cur \<and> cur \<in> set (ax_members X (tree T) cur) \<and>
      sys_kill fr (task_view X T) cur (- cur) signo log = (Inl (Errno ESRCH), log)"
proof -
  obtain w' where w': "ax_create_group X cur (tree S) = (True, w')" "ax_pgid X w' cur = cur" "ax_members X w' cur = [cur]"
    using assms(1,2) unfolding create_group_spec_def by blast
  let ?T = "S\<lparr>tree := w'\<rparr>"
  have call: "sys_setpgid X cur 0 0 S = (Inr 0, ?T)"
    using w' assms(2) by (simp add: sys_setpgid_def Let_def)
  have s: "1 \<le> (ucast signo :: u8)" "(ucast signo :: u8) \<le> 64" "signo \<noteq> 0"
    using assms(5,6) by (auto simp: word_le_nat_alt unsigned_ucast_eq take_bit_eq_mod)
  have pos: "1 < sint cur" "cur \<noteq> 1" using assms(4) by (auto simp: word_sless_alt)
  have "sint (- cur) = - sint cur"
    using pos(1) sint_lt [of cur] by (simp add: sint_word_ariths signed_take_bit_int_eq_self)
  then have neg: "\<not> 1 \<le>s - cur" "- cur \<noteq> 0" "- cur \<noteq> - 1"
    using pos by (auto simp: word_sle_eq)
  show ?thesis
    unfolding call
    using w' neg s assms(3,7)
    by (auto simp: sys_kill_def make_siginfo_def parse_signo_def from_repr_spec_def task_view_def get_process_group_def)
qed

text \<open>A process tree of one session, given by the group of each process.\<close>

definition flat_tree :: "(pid \<Rightarrow> pid) axproc" where
  "flat_tree =
     \<lparr>ax_parent = (\<lambda>w p. if p = 1 then None else Some 1), ax_pgid = (\<lambda>w p. w p), ax_sid = (\<lambda>w g. 1),
      ax_members = (\<lambda>w g. if w g = g then [g] else []),
      ax_create_group = (\<lambda>p w. if w p = p then (False, w) else (True, w(p := p))),
      ax_move_to_group = (\<lambda>p g w. (True, w(p := g)))\<rparr>"

theorem sys_setpgid_group_unregistered_witness:
  "create_group_spec flat_tree \<and>
   (let S = \<lparr>thread_tab = [5 \<mapsto> 5], process_tab = [5, 1], group_tab = [1], session_tab = [1], tree = (\<lambda>p. 1)\<rparr> in
    case sys_setpgid flat_tree 5 0 0 S of (r, T) \<Rightarrow>
      r = Inr 0 \<and> sys_kill repr_64 (task_view flat_tree T) 5 (- 5) 15 [] = (Inl (Errno ESRCH), []))"
proof -
  let ?S = "\<lparr>thread_tab = [5 \<mapsto> 5], process_tab = [5, 1], group_tab = [1], session_tab = [1], tree = (\<lambda>p. 1)\<rparr>"
  have c: "create_group_spec flat_tree" by (simp add: create_group_spec_def flat_tree_def)
  have r: "from_repr_spec repr_64" by (simp add: from_repr_spec_def repr_64_def)
  show ?thesis
    using sys_setpgid_group_unregistered [where S = ?S and cur = 5 and signo = 15 and log = "[]", OF c _ _ _ _ _ r] c
    by (simp add: flat_tree_def word_sless_alt split: prod.splits)
qed

end
