(* ===== verification/Clone.thy ===== *)
theory Clone
  imports Process Mmap
begin

text \<open>
  Creating processes and threads (\<open>api/src/imp/task/clone.rs\<close>) with the process and thread data of
  \<open>core/src/task.rs\<close>. What processes can share (address space, descriptor table, working directory,
  signal actions) lives in stores indexed by references, so sharing is equality of references. The
  process tree of \<open>axprocess\<close> is that of \<open>Process\<close>; \<open>fork_tree\<close> is its \<open>fork\<close>.
\<close>

section \<open>Flags\<close>

definition CLONE_VM :: u32 where "CLONE_VM = 0x100"
definition CLONE_FS :: u32 where "CLONE_FS = 0x200"
definition CLONE_FILES :: u32 where "CLONE_FILES = 0x400"
definition CLONE_SIGHAND :: u32 where "CLONE_SIGHAND = 0x800"
definition CLONE_PARENT :: u32 where "CLONE_PARENT = 0x8000"
definition CLONE_THREAD :: u32 where "CLONE_THREAD = 0x10000"
definition CLONE_SETTLS :: u32 where "CLONE_SETTLS = 0x80000"
definition CLONE_PARENT_SETTID :: u32 where "CLONE_PARENT_SETTID = 0x100000"
definition CLONE_CHILD_CLEARTID :: u32 where "CLONE_CHILD_CLEARTID = 0x200000"
definition CLONE_CHILD_SETTID :: u32 where "CLONE_CHILD_SETTID = 0x1000000"

text \<open>The union of the flags the kernel knows.\<close>

definition CloneFlags_all :: u32 where
  "CloneFlags_all = 0xFFBFEF00"

definition has_flag :: "u32 \<Rightarrow> u32 \<Rightarrow> bool" where
  "has_flag flags f \<longleftrightarrow> flags AND f = f"

section \<open>Processes and threads\<close>

record process_data =
  pd_exe :: string
  pd_aspace :: arc
  pd_heap :: heap_bounds
  pd_exit_signal :: "signo option"
  pd_actions :: arc
  pd_fds :: arc
  pd_cwd :: arc

definition process_data_new ::
  "plat \<Rightarrow> string \<Rightarrow> arc \<Rightarrow> arc \<Rightarrow> signo option \<Rightarrow> arc \<Rightarrow> arc \<Rightarrow> process_data" where
  "process_data_new P exe aspace actions exit_signal fds cwd =
     \<lparr>pd_exe = exe, pd_aspace = aspace, pd_heap = heap_new P, pd_exit_signal = exit_signal,
      pd_actions = actions, pd_fds = fds, pd_cwd = cwd\<rparr>"

record uctx =
  u_ip :: usize
  u_sp :: usize
  u_tls :: usize
  u_retval :: usize

record thread_data =
  td_process :: pid
  td_clear_child_tid :: usize
  td_set_child_tid :: "usize option"
  td_uctx :: uctx

text \<open>\<open>ThreadData::new\<close> with the context the task will start in, and its field for \<open>set_tid_address\<close>.\<close>

definition thread_data_new :: "pid \<Rightarrow> usize option \<Rightarrow> uctx \<Rightarrow> thread_data" where
  [simp]: "thread_data_new p set_child_tid u =
     \<lparr>td_process = p, td_clear_child_tid = 0, td_set_child_tid = set_child_tid, td_uctx = u\<rparr>"

definition clear_child_tid :: "thread_data \<Rightarrow> usize" where
  [simp]: "clear_child_tid td = td_clear_child_tid td"

definition set_clear_child_tid :: "usize \<Rightarrow> thread_data \<Rightarrow> thread_data" where
  [simp]: "set_clear_child_tid a td = td\<lparr>td_clear_child_tid := a\<rparr>"

text \<open>The stores, the processes with their data, the threads, and the tables; \<open>tid_stores\<close> records the
  numbers written for the parent.\<close>

record ('as, 't, 'act, 'w) kstate =
  aspaces :: "arc \<rightharpoonup> 'as"
  fd_tables :: "arc \<rightharpoonup> 't"
  cwds :: "arc \<rightharpoonup> string"
  act_tables :: "arc \<rightharpoonup> 'act"
  procs :: "pid \<rightharpoonup> process_data"
  threads :: "pid \<rightharpoonup> thread_data"
  tables :: "'w ktask"
  tid_stores :: "(usize \<times> pid) list"

text \<open>What cloning asks of the outside: a copy of an address space and of the kernel's mappings, whether the
  architecture has separate page tables for user space (aarch64 and loongarch64), the default actions,
  \<open>Signo::from_repr\<close>, the fork of the tree, and four fresh references.\<close>

record ('as, 'act, 'w) clone_env =
  try_clone :: "'as \<Rightarrow> ax_error + 'as"
  copy_mappings_from :: "'as \<Rightarrow> ax_error + 'as"
  separate_tables :: bool
  default_actions :: 'act
  sig_repr :: from_repr
  fork_tree :: "pid \<Rightarrow> pid \<Rightarrow> 'w \<Rightarrow> 'w"
  fresh_as :: arc
  fresh_fd :: arc
  fresh_cwd :: arc
  fresh_act :: arc

section \<open>clone\<close>

definition copy_from_kernel :: "('as, 'act, 'w) clone_env \<Rightarrow> 'as \<Rightarrow> ax_error + 'as" where
  "copy_from_kernel C as = (if \<not> separate_tables C then copy_mappings_from C as else Inr as)"

definition clone_aspace ::
  "('as, 'act, 'w) clone_env \<Rightarrow> bool \<Rightarrow> arc \<Rightarrow> ('as, 't, 'act, 'w) kstate \<Rightarrow> arc res \<times> ('as, 't, 'act, 'w) kstate" where
  "clone_aspace C vm a S =
     (if vm then (Inr a, S)
      else case aspaces S a of
        None \<Rightarrow> (Inl Panic, S)
      | Some as \<Rightarrow>
          (case rbind (from_ax (try_clone C as)) (\<lambda>as. from_ax (copy_from_kernel C as)) of
             Inl e \<Rightarrow> (Inl e, S)
           | Inr as' \<Rightarrow> (Inr (fresh_as C), S\<lparr>aspaces := (aspaces S)(fresh_as C \<mapsto> as')\<rparr>)))"

definition clone_actions ::
  "('as, 'act, 'w) clone_env \<Rightarrow> bool \<Rightarrow> process_data option \<Rightarrow> ('as, 't, 'act, 'w) kstate
   \<Rightarrow> arc \<times> ('as, 't, 'act, 'w) kstate" where
  "clone_actions C sighand parent S =
     (case (if sighand then parent else None) of
        Some pd \<Rightarrow> (pd_actions pd, S)
      | None \<Rightarrow> (fresh_act C, S\<lparr>act_tables := (act_tables S)(fresh_act C \<mapsto> default_actions C)\<rparr>))"

definition clone_fds ::
  "('t, arc) flatten_ops \<Rightarrow> ('as, 'act, 'w) clone_env \<Rightarrow> bool \<Rightarrow> arc \<Rightarrow> ('as, 't, 'act, 'w) kstate
   \<Rightarrow> arc res \<times> ('as, 't, 'act, 'w) kstate" where
  "clone_fds F C share a S =
     (if share then (Inr a, S)
      else case fd_tables S a of
        None \<Rightarrow> (Inl Panic, S)
      | Some t \<Rightarrow>
          (case copy_inner F t of
             Inl e \<Rightarrow> (Inl e, S)
           | Inr t' \<Rightarrow> (Inr (fresh_fd C), S\<lparr>fd_tables := (fd_tables S)(fresh_fd C \<mapsto> t')\<rparr>)))"

definition clone_cwd ::
  "('as, 'act, 'w) clone_env \<Rightarrow> bool \<Rightarrow> arc \<Rightarrow> ('as, 't, 'act, 'w) kstate \<Rightarrow> arc \<times> ('as, 't, 'act, 'w) kstate" where
  "clone_cwd C share a S =
     (if share then (a, S)
      else (fresh_cwd C, S\<lparr>cwds := (cwds S)(fresh_cwd C := cwds S a)\<rparr>))"

text \<open>The branch for a new process: \<open>cur\<close> is the process of the caller, \<open>tid\<close> the number of the new task.\<close>

definition clone_process ::
  "plat \<Rightarrow> 'w axproc \<Rightarrow> ('t, arc) flatten_ops \<Rightarrow> ('as, 'act, 'w) clone_env \<Rightarrow> u32 \<Rightarrow> signo option \<Rightarrow> pid \<Rightarrow> pid
   \<Rightarrow> ('as, 't, 'act, 'w) kstate \<Rightarrow> pid res \<times> ('as, 't, 'act, 'w) kstate" where
  "clone_process P X F C flags exit_signal cur tid S =
     (case procs S cur of
        None \<Rightarrow> (Inl Panic, S)
      | Some pd \<Rightarrow>
          (case (if has_flag flags CLONE_PARENT then ok_or (ax_parent X (tree (tables S)) cur) EINVAL else Inr cur) of
             Inl e \<Rightarrow> (Inl e, S)
           | Inr parent \<Rightarrow>
               sbind (clone_aspace C (has_flag flags CLONE_VM) (pd_aspace pd) S) (\<lambda>aspace S.
                 let (actions, S) = clone_actions C (has_flag flags CLONE_SIGHAND) (procs S parent) S
                 in sbind (clone_fds F C (has_flag flags CLONE_FILES) (pd_fds pd) S) (\<lambda>fds S.
                   let (cwd, S) = clone_cwd C (has_flag flags CLONE_FS) (pd_cwd pd) S;
                       pd' = process_data_new P (pd_exe pd) aspace actions exit_signal fds cwd
                   in (Inr tid, S\<lparr>procs := (procs S)(tid \<mapsto> pd'),
                        tables := (tables S)\<lparr>tree := fork_tree C parent tid (tree (tables S))\<rparr>\<rparr>)))))"

text \<open>\<open>tf\<close> is the context of the caller; \<open>ptid\<close> and \<open>ctid\<close> are the checks of the two user pointers.\<close>

definition sys_clone ::
  "plat \<Rightarrow> 'w axproc \<Rightarrow> ('t, arc) flatten_ops \<Rightarrow> ('as, 'act, 'w) clone_env \<Rightarrow> uctx \<Rightarrow> pid \<Rightarrow> pid
   \<Rightarrow> u32 \<Rightarrow> usize \<Rightarrow> usize \<Rightarrow> unit res \<Rightarrow> usize \<Rightarrow> unit res \<Rightarrow> usize \<Rightarrow> ('as, 't, 'act, 'w) kstate
   \<Rightarrow> pid res \<times> ('as, 't, 'act, 'w) kstate" where
  "sys_clone P X F C tf cur tid flags_arg stack parent_tid ptid child_tid ctid tls S =
     (let exit_signal = flags_arg AND 0xFF;
          flags = flags_arg AND NOT 0xFF AND CloneFlags_all
      in if exit_signal \<noteq> 0 \<and> has_flag flags (CLONE_THREAD OR CLONE_PARENT) then (Inl (Errno EINVAL), S)
      else if has_flag flags CLONE_THREAD \<and> \<not> has_flag flags (CLONE_VM OR CLONE_SIGHAND) then (Inl (Errno EINVAL), S)
      else
        let sig = sig_repr C (ucast exit_signal);
            u1 = (if stack \<noteq> 0 then tf\<lparr>u_sp := stack\<rparr> else tf);
            u2 = (if has_flag flags CLONE_SETTLS then u1\<lparr>u_tls := tls\<rparr> else u1);
            new_uctx = u2\<lparr>u_retval := 0\<rparr>
        in sbind (if has_flag flags CLONE_CHILD_SETTID then rbind ctid (\<lambda>_. Inr (Some child_tid)) else Inr None, S) (\<lambda>set_child_tid S.
          sbind (if has_flag flags CLONE_PARENT_SETTID then ptid else Inr (), S) (\<lambda>_ S.
            let S = (if has_flag flags CLONE_PARENT_SETTID then S\<lparr>tid_stores := tid_stores S @ [(parent_tid, tid)]\<rparr> else S)
            in sbind (if has_flag flags CLONE_THREAD then (Inr cur, S) else clone_process P X F C flags sig cur tid S) (\<lambda>p S.
              let td = thread_data_new p set_child_tid new_uctx;
                  td = (if has_flag flags CLONE_CHILD_CLEARTID then set_clear_child_tid child_tid td else td)
              in (Inr tid, S\<lparr>threads := (threads S)(tid \<mapsto> td), tables := add_thread_to_table X tid p (tables S)\<rparr>)))))"

definition sys_fork ::
  "plat \<Rightarrow> 'w axproc \<Rightarrow> ('t, arc) flatten_ops \<Rightarrow> ('as, 'act, 'w) clone_env \<Rightarrow> uctx \<Rightarrow> pid \<Rightarrow> pid
   \<Rightarrow> ('as, 't, 'act, 'w) kstate \<Rightarrow> pid res \<times> ('as, 't, 'act, 'w) kstate" where
  "sys_fork P X F C tf cur tid S = sys_clone P X F C tf cur tid 17 0 0 (Inr ()) 0 (Inr ()) 0 S"

section \<open>Properties\<close>

lemma fork_no_flags:
  "17 AND - 256 AND CloneFlags_all = 0" "(17 :: u32) AND 0xFF = 17"
  "\<not> has_flag 0 CLONE_VM" "\<not> has_flag 0 CLONE_FS" "\<not> has_flag 0 CLONE_FILES" "\<not> has_flag 0 CLONE_SIGHAND"
  "\<not> has_flag 0 CLONE_PARENT" "\<not> has_flag 0 CLONE_THREAD" "\<not> has_flag 0 (CLONE_THREAD OR CLONE_PARENT)"
  "\<not> has_flag 0 CLONE_SETTLS" "\<not> has_flag 0 CLONE_CHILD_SETTID" "\<not> has_flag 0 CLONE_PARENT_SETTID"
  "\<not> has_flag 0 CLONE_CHILD_CLEARTID"
  by (simp_all add: CloneFlags_all_def has_flag_def CLONE_VM_def CLONE_FS_def CLONE_FILES_def CLONE_SIGHAND_def
      CLONE_PARENT_def CLONE_THREAD_def CLONE_SETTLS_def CLONE_CHILD_SETTID_def CLONE_PARENT_SETTID_def
      CLONE_CHILD_CLEARTID_def)

text \<open>The fields of the state a fork changes, in closed form.\<close>

lemma sys_fork_eq:
  assumes pd: "procs S cur = Some pd" and t: "fd_tables S (pd_fds pd) = Some t" "copy_inner F t = Inr t'"
    and as: "aspaces S (pd_aspace pd) = Some a" "try_clone C a = Inr a1" "copy_from_kernel C a1 = Inr a2"
  shows "\<exists>T. sys_fork P X F C tf cur tid S = (Inr tid, T) \<and>
      procs T = (procs S)(tid \<mapsto> process_data_new P (pd_exe pd) (fresh_as C) (fresh_act C) (sig_repr C 17) (fresh_fd C) (fresh_cwd C)) \<and>
      aspaces T = (aspaces S)(fresh_as C \<mapsto> a2) \<and> fd_tables T = (fd_tables S)(fresh_fd C \<mapsto> t') \<and>
      cwds T = (cwds S)(fresh_cwd C := cwds S (pd_cwd pd)) \<and>
      act_tables T = (act_tables S)(fresh_act C \<mapsto> default_actions C) \<and>
      threads T = (threads S)(tid \<mapsto> \<lparr>td_process = tid, td_clear_child_tid = 0, td_set_child_tid = None,
        td_uctx = tf\<lparr>u_retval := 0\<rparr>\<rparr>)"
  using assms
  by (simp add: sys_fork_def sys_clone_def fork_no_flags clone_process_def clone_aspace_def clone_actions_def
      clone_fds_def clone_cwd_def Let_def)

text \<open>C19. A successful fork leaves the parent, its descriptor table and its memory as they were and gives the
  child its own references: a descriptor table with the same files, a copy of the address space, the
  same working directory and executable; the child's thread starts where the parent is, with result
  0. The child does not inherit everything it should: its signal actions are the defaults whatever
  handlers the parent installed, and \<open>brk(0)\<close> in the child answers the start of the heap, however far
  the parent had grown the heap that was copied.\<close>

theorem sys_fork_child:
  assumes "flatten_spec F okt" and "okt t" and "procs S cur = Some pd" and "tid \<noteq> cur"
    and "fd_tables S (pd_fds pd) = Some t" and "aspaces S (pd_aspace pd) = Some a"
    and "try_clone C a = Inr a1" and "copy_from_kernel C a1 = Inr a2"
    and "fd_tables S (fresh_fd C) = None" and "aspaces S (fresh_as C) = None"
  shows "\<exists>T pd' t'. sys_fork P X F C tf cur tid S = (Inr tid, T) \<and>
      procs T cur = Some pd \<and> fd_tables T (pd_fds pd) = Some t \<and> aspaces T (pd_aspace pd) = Some a \<and>
      procs T tid = Some pd' \<and> pd_fds pd' \<noteq> pd_fds pd \<and> pd_aspace pd' \<noteq> pd_aspace pd \<and>
      fd_tables T (pd_fds pd') = Some t' \<and> fo_get F t' = fo_get F t \<and> aspaces T (pd_aspace pd') = Some a2 \<and>
      cwds T (pd_cwd pd') = cwds S (pd_cwd pd) \<and> pd_exe pd' = pd_exe pd \<and>
      map_option td_uctx (threads T tid) = Some (tf\<lparr>u_retval := 0\<rparr>) \<and>
      act_tables T (pd_actions pd') = Some (default_actions C) \<and>
      fst (sys_brk P 0 (pd_heap pd')) = Inr (USER_HEAP_BASE P)"
proof -
  obtain t' where t': "copy_inner F t = Inr t'" "fo_get F t' = fo_get F t"
    using copy_inner_spec [OF assms(1,2)] by blast
  obtain T where T: "sys_fork P X F C tf cur tid S = (Inr tid, T)"
    "procs T = (procs S)(tid \<mapsto> process_data_new P (pd_exe pd) (fresh_as C) (fresh_act C) (sig_repr C 17) (fresh_fd C) (fresh_cwd C))"
    "aspaces T = (aspaces S)(fresh_as C \<mapsto> a2)" "fd_tables T = (fd_tables S)(fresh_fd C \<mapsto> t')"
    "cwds T = (cwds S)(fresh_cwd C := cwds S (pd_cwd pd))"
    "act_tables T = (act_tables S)(fresh_act C \<mapsto> default_actions C)"
    "threads T = (threads S)(tid \<mapsto> \<lparr>td_process = tid, td_clear_child_tid = 0, td_set_child_tid = None,
        td_uctx = tf\<lparr>u_retval := 0\<rparr>\<rparr>)"
    using sys_fork_eq [OF assms(3,5) t'(1) assms(6-8), of P X tf tid] by blast
  let ?pd = "process_data_new P (pd_exe pd) (fresh_as C) (fresh_act C) (sig_repr C 17) (fresh_fd C) (fresh_cwd C)"
  have ne: "fresh_fd C \<noteq> pd_fds pd" "fresh_as C \<noteq> pd_aspace pd" using assms(5,6,9,10) by auto
  show ?thesis
    using T ne t'(2) assms(3-6)
    by (intro exI [of _ T] exI [of _ ?pd] exI [of _ t'])
      (auto simp: process_data_new_def sys_brk_def heap_new_def)
qed

text \<open>An environment whose address spaces are plain page lists, and a parent that has grown its heap by a
  page, opened a file and installed a handler.\<close>

definition list_env :: "(usize list, (signo \<rightharpoonup> usize), pid \<Rightarrow> pid) clone_env" where
  "list_env =
     \<lparr>try_clone = Inr, copy_mappings_from = (\<lambda>as. Inr (0 # as)), separate_tables = False, default_actions = Map.empty, sig_repr = repr_64,
      fork_tree = (\<lambda>p c w. w(c := w p)), fresh_as = 10, fresh_fd = 11, fresh_cwd = 12, fresh_act = 13\<rparr>"

definition one_parent :: "(usize list, nat \<rightharpoonup> arc, (signo \<rightharpoonup> usize), pid \<Rightarrow> pid) kstate" where
  "one_parent =
     \<lparr>aspaces = [1 \<mapsto> [0x1000]], fd_tables = [2 \<mapsto> [0 \<mapsto> 42]], cwds = [3 \<mapsto> ''/home''], act_tables = [4 \<mapsto> [15 \<mapsto> 0x1000]],
      procs = [7 \<mapsto> \<lparr>pd_exe = ''/bin/sh'', pd_aspace = 1, pd_heap = \<lparr>heap_bottom = 0x40000000, heap_top = 0x40001000\<rparr>,
        pd_exit_signal = None, pd_actions = 4, pd_fds = 2, pd_cwd = 3\<rparr>],
      threads = Map.empty,
      tables = \<lparr>thread_tab = [7 \<mapsto> 7], process_tab = [7], group_tab = [7], session_tab = [7], tree = (\<lambda>p. 7)\<rparr>,
      tid_stores = []\<rparr>"

theorem sys_fork_child_witness:
  "\<exists>T pd'. sys_fork riscv64 flat_tree map_objects list_env \<lparr>u_ip = 0x1000, u_sp = 0x2000, u_tls = 0, u_retval = 57\<rparr>
       7 8 one_parent = (Inr 8, T) \<and>
     procs T 8 = Some pd' \<and> map_option (\<lambda>t. t 0) (fd_tables T (pd_fds pd')) = Some (Some 42) \<and>
     cwds T (pd_cwd pd') = Some ''/home'' \<and> act_tables T (pd_actions pd') = Some Map.empty \<and>
     fst (sys_brk riscv64 0 (pd_heap pd')) = Inr 0x40000000"
proof -
  let ?pd = "\<lparr>pd_exe = ''/bin/sh'', pd_aspace = 1, pd_heap = \<lparr>heap_bottom = 0x40000000, heap_top = 0x40001000\<rparr>,
        pd_exit_signal = None, pd_actions = 4, pd_fds = 2, pd_cwd = 3\<rparr>"
  have "map_objects_wf [0 \<mapsto> 42 :: arc]" by (simp add: map_objects_wf_def)
  from sys_fork_child [OF map_objects_spec, OF this, where S = one_parent and cur = 7 and pd = ?pd and tid = 8 and C = list_env
      and a = "[0x1000]" and ?a1.0 = "[0x1000]" and ?a2.0 = "[0, 0x1000]" and P = riscv64 and X = flat_tree
      and tf = "\<lparr>u_ip = 0x1000, u_sp = 0x2000, u_tls = 0, u_retval = 57\<rparr>"]
  show ?thesis
    by (force simp: one_parent_def list_env_def riscv64_def copy_from_kernel_def)
qed

end
