(* ===== verification/Entry.thy ===== *)
theory Entry
  imports Clone
begin

text \<open>
  Starting the first process (\<open>src/entry.rs\<close>) and the remaining calls of \<open>api/src/imp/task/thread.rs\<close> that
  concern one thread, on the state of \<open>Clone\<close> and the loader of \<open>Loader\<close>.
\<close>

section \<open>One thread\<close>

definition sys_getpid :: "pid \<Rightarrow> isize res" where
  "sys_getpid cur = Inr (ucast cur)"

definition sys_gettid :: "u64 \<Rightarrow> isize res" where
  "sys_gettid tid = Inr tid"

definition sys_set_tid_address :: "u64 \<Rightarrow> usize \<Rightarrow> thread_data \<Rightarrow> isize res \<times> thread_data" where
  "sys_set_tid_address tid a td = (Inr tid, set_clear_child_tid a td)"

datatype arch_prctl_code = SetGs | SetFs | GetFs | GetGs | GetCpuid | SetCpuid

definition arch_prctl_code_from :: "i32 \<Rightarrow> arch_prctl_code option" where
  "arch_prctl_code_from c =
     (if c = 0x1001 then Some SetGs else if c = 0x1002 then Some SetFs else if c = 0x1003 then Some GetFs
      else if c = 0x1004 then Some GetGs else if c = 0x1011 then Some GetCpuid else if c = 0x1012 then Some SetCpuid
      else None)"

text \<open>\<open>chk\<close> is the check of the user's pointer \<open>addr\<close>; the state is the thread's context, the GS base
  register, and what was stored for the user.\<close>

record prctl_state =
  pr_uctx :: uctx
  pr_gs :: u64
  pr_store :: "(usize \<times> u64) list"

definition sys_arch_prctl :: "(usize \<Rightarrow> unit res) \<Rightarrow> i32 \<Rightarrow> usize \<Rightarrow> prctl_state \<Rightarrow> isize res \<times> prctl_state" where
  "sys_arch_prctl chk code addr s =
     sbind (ok_or (arch_prctl_code_from code) EINVAL, s) (\<lambda>code s.
       case code of
         GetFs \<Rightarrow> sbind (chk addr, s) (\<lambda>_ s. (Inr 0, s\<lparr>pr_store := pr_store s @ [(addr, u_tls (pr_uctx s))]\<rparr>))
       | SetFs \<Rightarrow> (Inr 0, s\<lparr>pr_uctx := (pr_uctx s)\<lparr>u_tls := addr\<rparr>\<rparr>)
       | GetGs \<Rightarrow> sbind (chk addr, s) (\<lambda>_ s. (Inr 0, s\<lparr>pr_store := pr_store s @ [(addr, pr_gs s)]\<rparr>))
       | SetGs \<Rightarrow> (Inr 0, s\<lparr>pr_gs := addr\<rparr>)
       | GetCpuid \<Rightarrow> (Inr 0, s)
       | SetCpuid \<Rightarrow> (Inl (Errno ENODEV), s))"

text \<open>What is set is read back.\<close>

lemma sys_arch_prctl_roundtrip:
  assumes "chk addr = Inr ()"
  shows "(case sys_arch_prctl chk 0x1002 x s of (r, s1) \<Rightarrow> case sys_arch_prctl chk 0x1003 addr s1 of (r', s2) \<Rightarrow>
      r = Inr 0 \<and> r' = Inr 0 \<and> pr_store s2 = pr_store s @ [(addr, x)])"
    "(case sys_arch_prctl chk 0x1001 x s of (r, s1) \<Rightarrow> case sys_arch_prctl chk 0x1004 addr s1 of (r', s2) \<Rightarrow>
      r = Inr 0 \<and> r' = Inr 0 \<and> pr_store s2 = pr_store s @ [(addr, x)])"
  using assms by (simp_all add: sys_arch_prctl_def arch_prctl_code_from_def)

section \<open>The first process\<close>

text \<open>What starting a program asks of the outside: an empty address space of the user's range, the address of
  the trampoline, \<open>set_current_dir\<close> (with the directory it ends up in), the initial user context, and the
  kernel's own descriptor table and directory.\<close>

record 'as boot_env =
  new_empty :: "usize \<Rightarrow> usize \<Rightarrow> ax_error + 'as"
  user_space_base :: usize
  user_space_size :: usize
  trampoline :: usize
  enter_dir :: "string \<Rightarrow> ax_error + string"
  uspace_new :: "usize \<Rightarrow> usize \<Rightarrow> usize \<Rightarrow> uctx"
  kernel_fds :: arc
  kernel_cwd :: arc
  init_pid :: pid

definition new_user_aspace_empty :: "'as boot_env \<Rightarrow> ax_error + 'as" where
  "new_user_aspace_empty B = new_empty B (user_space_base B) (user_space_size B)"

definition fresh_user_aspace ::
  "plat \<Rightarrow> 'as aspace_ops \<Rightarrow> ('as, 'act, 'w) clone_env \<Rightarrow> 'as boot_env \<Rightarrow> 'as res" where
  "fresh_user_aspace P As C B =
     rbind (from_ax (new_user_aspace_empty B)) (\<lambda>as.
     rbind (from_ax (copy_from_kernel C as)) (\<lambda>as.
       case map_trampoline P As (trampoline B) as of (r, as) \<Rightarrow> rbind r (\<lambda>_. Inr as)))"

definition SIGCHLD :: signo where "SIGCHLD = 17"

text \<open>\<open>run_user_app\<close> up to the point where the task is spawned; every failure panics. The result is the
  number of the new process; no result when loading the program does not end.\<close>

definition run_user_app ::
  "'elf loader_env \<Rightarrow> plat \<Rightarrow> 'as aspace_ops \<Rightarrow> align_ops \<Rightarrow> 'w axproc \<Rightarrow> ('t, arc) flatten_ops
   \<Rightarrow> ('as, 'act, 'w) clone_env \<Rightarrow> 'as boot_env \<Rightarrow> pid \<Rightarrow> string list \<Rightarrow> string list
   \<Rightarrow> ('as, 't, 'act, 'w) kstate \<Rightarrow> (pid res \<times> ('as, 't, 'act, 'w) kstate) option" where
  "run_user_app E P As M X F C B tid args envs S =
     (case fresh_user_aspace P As C B of
        Inl e \<Rightarrow> Some (Inl Panic, S)
      | Inr uspace \<Rightarrow>
          (case args of
             [] \<Rightarrow> Some (Inl Panic, S)
           | exe_path # _ \<Rightarrow>
               (case enter_dir B (case rsplit_once (CHR ''/'') exe_path of None \<Rightarrow> '''' | Some (dir, name) \<Rightarrow> dir) of
                  Inl e \<Rightarrow> Some (Inl Panic, S)
                | Inr dir \<Rightarrow>
                    let S = S\<lparr>cwds := (cwds S)(kernel_cwd B \<mapsto> dir)\<rparr> in
                    (case load_user_app E P As M exe_path args envs uspace of
                       None \<Rightarrow> None
                     | Some (Inl e, as) \<Rightarrow> Some (Inl Panic, S)
                     | Some (Inr (entry, ustack_top), as) \<Rightarrow>
                         (case fd_tables S (kernel_fds B) of
                            None \<Rightarrow> Some (Inl Panic, S)
                          | Some t \<Rightarrow>
                              (case copy_inner F t of
                                 Inl e \<Rightarrow> Some (Inl e, S)
                               | Inr t' \<Rightarrow>
                                   let pd = process_data_new P exe_path (fresh_as C) (fresh_act C) (Some SIGCHLD) (fresh_fd C) (fresh_cwd C);
                                       td = thread_data_new tid None (uspace_new B entry ustack_top 2333);
                                       tb = (tables S)\<lparr>tree := fork_tree C (init_pid B) tid (tree (tables S))\<rparr>
                                   in Some (Inr tid, S\<lparr>aspaces := (aspaces S)(fresh_as C \<mapsto> as),
                                        act_tables := (act_tables S)(fresh_act C \<mapsto> default_actions C),
                                        fd_tables := (fd_tables S)(fresh_fd C \<mapsto> t'),
                                        cwds := (cwds S)(fresh_cwd C \<mapsto> dir),
                                        procs := (procs S)(tid \<mapsto> pd), threads := (threads S)(tid \<mapsto> td),
                                        tables := add_thread_to_table X tid tid tb\<rparr>)))))))"

text \<open>A program that is started has the kernel's descriptors in a table of its own, the directory of its
  executable as working directory, and is a child its parent can wait for without special flags.\<close>

lemma run_user_app_process:
  assumes "flatten_spec F okt" "okt t" "fd_tables S (kernel_fds B) = Some t"
    and "run_user_app E P As M X F C B tid args envs S = Some (Inr p, T)"
  shows "\<exists>pd t'. p = tid \<and> procs T tid = Some pd \<and> pd_exe pd = hd args \<and> fd_tables T (pd_fds pd) = Some t' \<and>
    fo_get F t' = fo_get F t \<and> cwds T (pd_cwd pd) \<noteq> None \<and> pd_exit_signal pd = Some SIGCHLD \<and> pd_heap pd = heap_new P"
proof -
  obtain t' where "copy_inner F t = Inr t'" "fo_get F t' = fo_get F t"
    using copy_inner_spec [OF assms(1,2)] by blast
  with assms(3,4) show ?thesis
    by (auto simp: run_user_app_def Let_def process_data_new_def split: sum.splits list.splits option.splits prod.splits)
qed

end
