(* ===== verification/Sysinfo.thy ===== *)
theory Sysinfo
  imports Kernel_Prelude
begin

text \<open>
  Identity and system name (\<open>api/src/imp/sys.rs\<close>), and the terminal requests of \<open>sys_ioctl\<close>
  (\<open>api/src/imp/fs/ctl.rs\<close>). User pointers are the outcome of their check.
\<close>

section \<open>Identity\<close>

definition sys_getuid :: "isize res" where "sys_getuid = Inr 0"
definition sys_geteuid :: "isize res" where "sys_geteuid = Inr 1"
definition sys_getgid :: "isize res" where "sys_getgid = Inr 0"
definition sys_getegid :: "isize res" where "sys_getegid = Inr 1"

section \<open>uname\<close>

text \<open>\<open>copy_nonoverlapping\<close> of the string over an array of 65 zeros.\<close>

definition pad_str :: "string \<Rightarrow> u8 list" where
  "pad_str info = map of_char info @ drop (length info) (replicate 65 0)"

record utsname =
  sysname :: "u8 list"
  nodename :: "u8 list"
  release :: "u8 list"
  version :: "u8 list"
  machine :: "u8 list"
  domainname :: "u8 list"

definition UTSNAME :: utsname where
  "UTSNAME =
     \<lparr>sysname = pad_str ''Starry'', nodename = pad_str ''Starry - machine[0]'', release = pad_str ''10.0.0'',
      version = pad_str ''10.0.0'', machine = pad_str ''10.0.0'',
      domainname = pad_str ''https://github.com/oscomp/starry-next''\<rparr>"

definition sys_uname :: "unit res \<Rightarrow> (isize \<times> utsname) res" where
  "sys_uname name = rbind name (\<lambda>_. Inr (0, UTSNAME))"

text \<open>The C string at the start of a field.\<close>

definition c_string :: "u8 list \<Rightarrow> string" where
  "c_string bs = map (\<lambda>b. char_of (unat b)) (takeWhile (\<lambda>b. b \<noteq> 0) bs)"

lemma unat_of_char: "unat (of_char c :: u8) = of_char c"
proof -
  have "unat (word_of_nat (of_char c) :: u8) = of_char c"
    using nat_of_char_less_256 [of c] by (simp add: unat_of_nat take_bit_eq_mod)
  then show ?thesis by (simp add: of_nat_of_char)
qed

lemma of_char_eq_0: "(of_char c :: u8) = 0 \<longleftrightarrow> c = CHR 0x00"
proof -
  have "(of_char c :: u8) = 0 \<longleftrightarrow> unat (of_char c :: u8) = 0" by (simp add: unat_eq_zero)
  also have "\<dots> \<longleftrightarrow> (of_char c :: nat) = of_char (CHR 0x00)" by (simp add: unat_of_char)
  finally show ?thesis by (simp only: of_char_eq_iff)
qed

lemma takeWhile_append_replicate:
  "\<forall>x \<in> set xs. P x \<Longrightarrow> \<not> P y \<Longrightarrow> takeWhile P (xs @ replicate n y) = xs"
  by (induction xs) (cases n; auto)+

text \<open>A name shorter than its field fills the field exactly and is read back from it.\<close>

lemma pad_str_roundtrip:
  assumes "length info < 65" "CHR 0x00 \<notin> set info"
  shows "length (pad_str info) = 65" "c_string (pad_str info) = info"
proof -
  show "length (pad_str info) = 65" using assms(1) by (simp add: pad_str_def)
  have "takeWhile (\<lambda>b. b \<noteq> 0) (pad_str info) = map of_char info"
    unfolding pad_str_def drop_replicate
    using assms(2) by (intro takeWhile_append_replicate) (auto simp: of_char_eq_0)
  then show "c_string (pad_str info) = info"
    by (simp add: c_string_def unat_of_char o_def)
qed

section \<open>Terminal requests\<close>

record termios =
  c_iflag :: u32
  c_oflag :: u32
  c_cflag :: u32
  c_lflag :: u32
  c_line :: u8
  c_cc :: "u8 list"

definition TIOCGPGRP :: u32 where "TIOCGPGRP = 21519"
definition TIOCSPGRP :: u32 where "TIOCSPGRP = 21520"
definition TCGETS :: u32 where "TCGETS = 21505"
definition TCSETS :: u32 where "TCSETS = 21506"

definition default_termios :: termios where
  "default_termios =
     \<lparr>c_iflag = 0x500, c_oflag = 0x5, c_cflag = 0xbf, c_lflag = 0x8a3b, c_line = 0,
      c_cc = [3, 28, 127, 21, 4, 0, 1, 0, 17, 19, 26, 0, 18, 15, 23, 22, 0, 0, 0]\<rparr>"

datatype ioctl_store = NoStore | StorePgid i32 | StoreTermios termios

text \<open>\<open>pgid\<close> is the group of the caller; \<open>wr_i32\<close>, \<open>rd_i32\<close> and \<open>wr_termios\<close> are the checks of the argument as
  a pointer of each kind. The descriptor is not looked at.\<close>

definition sys_ioctl ::
  "u32 \<Rightarrow> unit res \<Rightarrow> i32 res \<Rightarrow> unit res \<Rightarrow> i32 \<Rightarrow> usize \<Rightarrow> (isize \<times> ioctl_store) res" where
  "sys_ioctl pgid wr_i32 rd_i32 wr_termios fd op =
     (let op = (ucast op :: u32) in
      if op = TIOCGPGRP then rbind wr_i32 (\<lambda>_. Inr (0, StorePgid pgid))
      else if op = TIOCSPGRP then rbind rd_i32 (\<lambda>_. Inr (0, NoStore))
      else if op = TCGETS then rbind wr_termios (\<lambda>_. Inr (0, StoreTermios default_termios))
      else if op = TCSETS then Inr (0, NoStore)
      else Inr (0, NoStore))"

end
