(* ===== verification/Procfs.thy ===== *)
theory Procfs
  imports Axfs Loader
begin

text \<open>
  The node \<open>/proc/self/exe\<close> (\<open>core/src/file/proc\<close>) and the resolution of symbolic links behind it
  (\<open>core/src/file/mod.rs\<close>). Reading links is the operation \<open>read_link\<close> of \<open>axfs\<close>, except at the path of the
  node itself, where \<open>init_procfs\<close> has placed \<open>SelfExe\<close>: there it is the method \<open>readlink\<close> below. The two
  functions therefore call each other, and a call may not return.
\<close>

section \<open>Resolution\<close>

definition self_exe :: string where
  "self_exe = ''/proc/self/exe''"

definition MAX_SYMLINK_DEPTH :: nat where
  "MAX_SYMLINK_DEPTH = 8"

definition bytes_of :: "string \<Rightarrow> u8 list" where
  "bytes_of s = map of_char s"

text \<open>The path a link's target stands for: absolute targets as they are, relative ones in the directory of
  the link.\<close>

definition link_target :: "string \<Rightarrow> string \<Rightarrow> string" where
  "link_target current_path target =
     (if starts_with_char CHR ''/'' target then target
      else case rfind CHR ''/'' current_path of
        Some parent_pos \<Rightarrow> take parent_pos current_path @ ''/'' @ target
      | None \<Rightarrow> target)"

text \<open>The loop of \<open>resolve_symlink_path\<close> with \<open>k\<close> rounds left; \<open>exe\<close> is the executable path of the process.
  A read of the node \<open>/proc/self/exe\<close> starts a resolution of its own, cut to the buffer of 4096 bytes.\<close>

partial_function (option) resolve_loop ::
  "'fs axfs \<Rightarrow> 'fs \<Rightarrow> string \<Rightarrow> string \<Rightarrow> nat \<Rightarrow> string \<Rightarrow> string option" where
  "resolve_loop A fs exe path k current_path =
     (if k = 0 then Some path
      else Option.bind
        (if current_path = self_exe then
           Option.bind (resolve_loop A fs exe exe MAX_SYMLINK_DEPTH exe) (\<lambda>target. Some (Inr (take 4096 (bytes_of target))))
         else Some (read_link A fs current_path 4096))
        (\<lambda>r. case r of
           Inl e \<Rightarrow> Some current_path
         | Inr buf \<Rightarrow>
             if utf8_ok buf then resolve_loop A fs exe path (k - 1) (link_target current_path (chars_of buf))
             else Some path))"

definition resolve_symlink_path :: "'fs axfs \<Rightarrow> 'fs \<Rightarrow> string \<Rightarrow> string \<Rightarrow> string option" where
  "resolve_symlink_path A fs exe path = resolve_loop A fs exe path MAX_SYMLINK_DEPTH path"

text \<open>\<open>SelfExe::readlink\<close> into a buffer of \<open>n\<close> bytes.\<close>

definition self_exe_readlink :: "'fs axfs \<Rightarrow> 'fs \<Rightarrow> string \<Rightarrow> nat \<Rightarrow> u8 list option" where
  "self_exe_readlink A fs exe n =
     map_option (\<lambda>target. take (min n (length (bytes_of target))) (bytes_of target)) (resolve_symlink_path A fs exe exe)"

section \<open>Properties\<close>

text \<open>The reference: follow links of the file system, at most a given number of them.\<close>

fun follow_links :: "'fs axfs \<Rightarrow> 'fs \<Rightarrow> string \<Rightarrow> nat \<Rightarrow> string \<Rightarrow> string" where
  "follow_links A fs path 0 p = path"
| "follow_links A fs path (Suc k) p =
     (case read_link A fs p 4096 of
        Inl e \<Rightarrow> p
      | Inr bs \<Rightarrow> if utf8_ok bs then follow_links A fs path k (link_target p (chars_of bs)) else path)"

text \<open>Whether the links lead to \<open>/proc/self/exe\<close> itself within the given number of steps.\<close>

fun meets_self :: "'fs axfs \<Rightarrow> 'fs \<Rightarrow> nat \<Rightarrow> string \<Rightarrow> bool" where
  "meets_self A fs 0 p = False"
| "meets_self A fs (Suc k) p =
     (p = self_exe \<or>
      (case read_link A fs p 4096 of
         Inl e \<Rightarrow> False
       | Inr bs \<Rightarrow> utf8_ok bs \<and> meets_self A fs k (link_target p (chars_of bs))))"

text \<open>A chain of links that ends within the limit is followed to its end, a longer one gives the path itself.\<close>

lemma follow_links_chain:
  assumes "\<And>i. i < n \<Longrightarrow> \<exists>bs. read_link A fs (p i) 4096 = Inr bs \<and> utf8_ok bs \<and> p (Suc i) = link_target (p i) (chars_of bs)"
    and "read_link A fs (p n) 4096 = Inl e"
  shows "follow_links A fs path k (p 0) = (if n < k then p n else path)"
  using assms
proof (induction n arbitrary: p k)
  case 0
  then show ?case by (cases k) auto
next
  case (Suc n)
  obtain bs where bs: "read_link A fs (p 0) 4096 = Inr bs" "utf8_ok bs" "p (Suc 0) = link_target (p 0) (chars_of bs)"
    using Suc.prems(1) [of 0] by auto
  have "follow_links A fs path j (p (Suc 0)) = (if n < j then p (Suc n) else path)" for j
    using Suc.IH [of "\<lambda>i. p (Suc i)" j] Suc.prems by simp
  with bs show ?case by (cases k) auto
qed

lemma resolve_loop_returns:
  assumes "\<not> meets_self A fs k p"
  shows "resolve_loop A fs exe path k p = Some (follow_links A fs path k p)"
  using assms
proof (induction k arbitrary: p)
  case 0
  then show ?case by (simp add: resolve_loop.simps)
next
  case (Suc k)
  then show ?case
    by (subst resolve_loop.simps) (auto split: sum.splits)
qed

lemma resolve_loop_diverges:
  assumes "resolve_loop A fs exe path k p = Some q" "meets_self A fs MAX_SYMLINK_DEPTH exe"
  shows "\<not> meets_self A fs k p"
proof -
  let ?Q = "\<lambda>A fs exe path k p _. meets_self A fs MAX_SYMLINK_DEPTH exe \<longrightarrow> \<not> meets_self A fs k p"
  have "meets_self A fs MAX_SYMLINK_DEPTH exe \<longrightarrow> \<not> meets_self A fs k p"
  proof (rule resolve_loop.raw_induct [where P = ?Q, OF _ assms(1)])
    fix loop and A :: "'a axfs" and fs exe path k p q
    assume IH: "\<And>A fs exe path k p q. loop A fs exe path k p = Some q \<Longrightarrow>
        meets_self (A :: 'a axfs) fs MAX_SYMLINK_DEPTH exe \<longrightarrow> \<not> meets_self A fs k p"
      and eq: "(if k = 0 then Some path
      else Option.bind
        (if p = self_exe then
           Option.bind (loop A fs exe exe MAX_SYMLINK_DEPTH exe) (\<lambda>target. Some (Inr (take 4096 (bytes_of target))))
         else Some (read_link A fs p 4096))
        (\<lambda>r. case r of
           Inl e \<Rightarrow> Some p
         | Inr buf \<Rightarrow>
             if utf8_ok buf then loop A fs exe path (k - 1) (link_target p (chars_of buf))
             else Some path)) = Some q"
    show "meets_self A fs MAX_SYMLINK_DEPTH exe \<longrightarrow> \<not> meets_self A fs k p"
    proof (cases k)
      case (Suc k')
      have "p = self_exe \<Longrightarrow> \<not> meets_self A fs MAX_SYMLINK_DEPTH exe"
        using eq Suc IH [of A fs exe exe MAX_SYMLINK_DEPTH exe] by (auto simp: bind_eq_Some_conv)
      moreover have "p \<noteq> self_exe \<Longrightarrow> read_link A fs p 4096 = Inr bs \<Longrightarrow> utf8_ok bs \<Longrightarrow>
          meets_self A fs MAX_SYMLINK_DEPTH exe \<longrightarrow> \<not> meets_self A fs k' (link_target p (chars_of bs))" for bs
        using eq Suc IH [of A fs exe path k'] by auto
      ultimately show ?thesis using Suc by (auto split: sum.splits)
    qed simp
  qed
  with assms(2) show ?thesis by blast
qed


end
