(* ===== verification/Io.thy ===== *)
theory Io
  imports File_Like
begin

text \<open>
  The data transfer calls (\<open>api/src/imp/fs/io.rs\<close>). The descriptor table and the file objects are those
  of \<open>Fd_Table\<close> and \<open>File_Like\<close>; what an object does with the bytes belongs to axfs, axnet and the
  pipe, and is a parameter on a world \<open>'w\<close>. Bytes for the user are recorded as stores, in order.
\<close>

section \<open>Plain transfers\<close>

definition DEFAULT_BUFFER_SIZE :: nat where
  "DEFAULT_BUFFER_SIZE = 8192"

text \<open>The operations of an open file object: \<open>FileLike::read\<close>, \<open>write\<close>, \<open>read_at\<close>, \<open>write_at\<close>,
  \<open>truncate\<close>, \<open>fsync\<close>, and \<open>seek\<close> of the file behind a regular file.\<close>

datatype seek_from = SeekStart u64 | SeekCurrent i64 | SeekEnd i64

record ('f, 'w) io_ops =
  io_read :: "'f \<Rightarrow> nat \<Rightarrow> 'w \<Rightarrow> u8 list res \<times> 'w"
  io_write :: "'f \<Rightarrow> u8 list \<Rightarrow> 'w \<Rightarrow> nat res \<times> 'w"
  io_read_at :: "'f \<Rightarrow> u64 \<Rightarrow> nat \<Rightarrow> 'w \<Rightarrow> u8 list res \<times> 'w"
  io_write_at :: "'f \<Rightarrow> u64 \<Rightarrow> u8 list \<Rightarrow> 'w \<Rightarrow> nat res \<times> 'w"
  io_truncate :: "'f \<Rightarrow> u64 \<Rightarrow> 'w \<Rightarrow> unit res \<times> 'w"
  io_fsync :: "'f \<Rightarrow> 'w \<Rightarrow> unit res \<times> 'w"
  io_seek :: "'f \<Rightarrow> seek_from \<Rightarrow> 'w \<Rightarrow> u64 res \<times> 'w"

record 'w io_state =
  world :: 'w
  stores :: "(usize \<times> u8 list) list"

definition on_world :: "('w \<Rightarrow> 'a res \<times> 'w) \<Rightarrow> 'w io_state \<Rightarrow> 'a res \<times> 'w io_state" where
  "on_world f s = (case f (world s) of (r, w) \<Rightarrow> (r, s\<lparr>world := w\<rparr>))"

text \<open>\<open>chk\<close> is the check of the user's buffer, \<open>load\<close> what the buffer holds.\<close>

definition sys_read ::
  "('t, 'f) flatten_ops \<Rightarrow> ('f, 'w) io_ops \<Rightarrow> 't \<Rightarrow> (usize \<Rightarrow> usize \<Rightarrow> unit res) \<Rightarrow> i32 \<Rightarrow> usize \<Rightarrow> usize
   \<Rightarrow> 'w io_state \<Rightarrow> nat res \<times> 'w io_state" where
  "sys_read F Fio t chk fd buf len s =
     sbind (rbind (chk buf len) (\<lambda>_. get_file_like F t fd), s) (\<lambda>f s.
       sbind (on_world (io_read Fio f (unat len)) s) (\<lambda>bs s.
         (Inr (length bs), s\<lparr>stores := stores s @ [(buf, bs)]\<rparr>)))"

definition sys_write ::
  "('t, 'f) flatten_ops \<Rightarrow> ('f, 'w) io_ops \<Rightarrow> 't \<Rightarrow> (usize \<Rightarrow> usize \<Rightarrow> u8 list res) \<Rightarrow> i32 \<Rightarrow> usize \<Rightarrow> usize
   \<Rightarrow> 'w io_state \<Rightarrow> nat res \<times> 'w io_state" where
  "sys_write F Fio t load fd buf len s =
     sbind (rbind (load buf len) (\<lambda>bs. rbind (get_file_like F t fd) (\<lambda>f. Inr (f, bs))), s) (\<lambda>(f, bs) s.
       on_world (io_write Fio f bs) s)"

definition sys_pread64 ::
  "('t, 'f) flatten_ops \<Rightarrow> ('f, 'w) io_ops \<Rightarrow> 't \<Rightarrow> (usize \<Rightarrow> usize \<Rightarrow> unit res) \<Rightarrow> i32 \<Rightarrow> usize \<Rightarrow> usize \<Rightarrow> u64
   \<Rightarrow> 'w io_state \<Rightarrow> nat res \<times> 'w io_state" where
  "sys_pread64 F Fio t chk fd buf len offset s =
     sbind (rbind (chk buf len) (\<lambda>_. get_file_like F t fd), s) (\<lambda>f s.
       sbind (on_world (io_read_at Fio f offset (unat len)) s) (\<lambda>bs s.
         (Inr (length bs), s\<lparr>stores := stores s @ [(buf, bs)]\<rparr>)))"

definition sys_pwrite64 ::
  "('t, 'f) flatten_ops \<Rightarrow> ('f, 'w) io_ops \<Rightarrow> 't \<Rightarrow> (usize \<Rightarrow> usize \<Rightarrow> u8 list res) \<Rightarrow> i32 \<Rightarrow> usize \<Rightarrow> usize \<Rightarrow> u64
   \<Rightarrow> 'w io_state \<Rightarrow> nat res \<times> 'w io_state" where
  "sys_pwrite64 F Fio t load fd buf len offset s =
     sbind (rbind (load buf len) (\<lambda>bs. rbind (get_file_like F t fd) (\<lambda>f. Inr (f, bs))), s) (\<lambda>(f, bs) s.
       on_world (io_write_at Fio f offset bs) s)"

definition sys_ftruncate ::
  "('t, 'f) flatten_ops \<Rightarrow> ('f, 'w) io_ops \<Rightarrow> 't \<Rightarrow> i32 \<Rightarrow> u64 \<Rightarrow> 'w \<Rightarrow> isize res \<times> 'w" where
  "sys_ftruncate F Fio t fd len w =
     sbind (get_file_like F t fd, w) (\<lambda>f w. sbind (io_truncate Fio f len w) (\<lambda>_ w. (Inr 0, w)))"

definition sys_fsync :: "('t, 'f) flatten_ops \<Rightarrow> ('f, 'w) io_ops \<Rightarrow> 't \<Rightarrow> i32 \<Rightarrow> 'w \<Rightarrow> isize res \<times> 'w" where
  "sys_fsync F Fio t fd w =
     sbind (get_file_like F t fd, w) (\<lambda>f w. sbind (io_fsync Fio f w) (\<lambda>_ w. (Inr 0, w)))"

definition sys_sync :: "('t, 'f) flatten_ops \<Rightarrow> ('f, 'w) io_ops \<Rightarrow> 't \<Rightarrow> 'w \<Rightarrow> isize res \<times> 'w" where
  "sys_sync F Fio t w = sbind (sync_all F (io_fsync Fio) t w) (\<lambda>_ w. (Inr 0, w))"

text \<open>\<open>file\<close> is the regular file \<open>File::from_fd(fd)\<close>.\<close>

definition sys_lseek :: "('f, 'w) io_ops \<Rightarrow> 'f res \<Rightarrow> i64 \<Rightarrow> i32 \<Rightarrow> 'w \<Rightarrow> isize res \<times> 'w" where
  "sys_lseek Fio file offset whence w =
     (case (if whence = 0 then Some (SeekStart offset)
            else if whence = 1 then Some (SeekCurrent offset)
            else if whence = 2 then Some (SeekEnd offset) else None) of
        None \<Rightarrow> (Inl (Errno EINVAL), w)
      | Some pos \<Rightarrow> sbind (file, w) (\<lambda>f w. io_seek Fio f pos w))"

section \<open>Vectors of buffers\<close>

record iovec =
  iov_base :: usize
  iov_len :: u64

text \<open>The loop over the vector: \<open>xfer\<close> moves the bytes of one buffer and counts them.\<close>

fun iov_loop ::
  "(usize \<Rightarrow> usize \<Rightarrow> 's \<Rightarrow> nat res \<times> 's) \<Rightarrow> iovec list \<Rightarrow> isize \<Rightarrow> 's \<Rightarrow> isize res \<times> 's" where
  "iov_loop xfer [] ret s = (Inr ret, s)"
| "iov_loop xfer (iov # iovs) ret s =
     (if iov_len iov = 0 then iov_loop xfer iovs ret s
      else case xfer (iov_base iov) (iov_len iov) s of
        (Inl e, s) \<Rightarrow> (Inl e, s)
      | (Inr n, s) \<Rightarrow>
          if n < unat (iov_len iov) then (Inr (ret + word_of_nat n), s)
          else iov_loop xfer iovs (ret + word_of_nat n) s)"

definition sys_readv ::
  "('t, 'f) flatten_ops \<Rightarrow> ('f, 'w) io_ops \<Rightarrow> 't \<Rightarrow> (usize \<Rightarrow> usize \<Rightarrow> unit res) \<Rightarrow> i32 \<Rightarrow> iovec list res \<Rightarrow> usize
   \<Rightarrow> 'w io_state \<Rightarrow> isize res \<times> 'w io_state" where
  "sys_readv F Fio t chk fd iovs iocnt s =
     (if \<not> iocnt \<le> 1024 then (Inl (Errno EINVAL), s)
      else sbind (iovs, s) (\<lambda>iovs s. iov_loop (sys_read F Fio t chk fd) iovs 0 s))"

definition sys_writev ::
  "('t, 'f) flatten_ops \<Rightarrow> ('f, 'w) io_ops \<Rightarrow> 't \<Rightarrow> (usize \<Rightarrow> usize \<Rightarrow> u8 list res) \<Rightarrow> i32 \<Rightarrow> iovec list res \<Rightarrow> usize
   \<Rightarrow> 'w io_state \<Rightarrow> isize res \<times> 'w io_state" where
  "sys_writev F Fio t load fd iovs iocnt s =
     (if \<not> iocnt \<le> 1024 then (Inl (Errno EINVAL), s)
      else sbind (iovs, s) (\<lambda>iovs s. iov_loop (sys_write F Fio t load fd) iovs 0 s))"

section \<open>Copying between files and pipes\<close>

text \<open>The loop \<open>sys_copy_file_range\<close> and the two splices share: \<open>rd\<close> yields up to a chunk of bytes (none
  to stop), \<open>wr\<close> takes them and counts. It ends because it goes on only after a full write of at least
  one byte.\<close>

lemma copy_decreases: "0 < (r :: nat) \<Longrightarrow> bs \<noteq> [] \<Longrightarrow> \<not> w < length bs \<Longrightarrow> r - w < r"
  by (cases bs) auto

function copy_loop ::
  "(nat \<Rightarrow> 's \<Rightarrow> u8 list res \<times> 's) \<Rightarrow> (u8 list \<Rightarrow> 's \<Rightarrow> nat res \<times> 's) \<Rightarrow> nat \<Rightarrow> nat \<Rightarrow> 's \<Rightarrow> nat res \<times> 's" where
  "copy_loop rd wr remaining total_copied s =
     (if remaining > 0 then
        case rd (min DEFAULT_BUFFER_SIZE remaining) s of
          (Inl e, s) \<Rightarrow> (Inl e, s)
        | (Inr bs, s) \<Rightarrow>
            if bs = [] then (Inr total_copied, s)
            else case wr bs s of
              (Inl e, s) \<Rightarrow> (Inl e, s)
            | (Inr written, s) \<Rightarrow>
                if written < length bs then (Inr (total_copied + written), s)
                else copy_loop rd wr (remaining - written) (total_copied + written) s
      else (Inr total_copied, s))"
  by pat_completeness auto
termination
proof (relation "measure (\<lambda>(rd, wr, remaining, total, s). remaining)")
  show "wf (measure (\<lambda>(rd, wr, remaining, total, s). remaining))" by simp
qed (simp only: in_measure prod.case, rule copy_decreases)

declare copy_loop.simps [simp del]

text \<open>The two offsets the user may pass: \<open>None\<close> for a null pointer, otherwise the value in user memory
  (or the fault of reaching it).\<close>

record 'w copy_state =
  c_world :: 'w
  c_off_in :: "i64 res option"
  c_off_out :: "i64 res option"

definition read_in :: "('f, 'w) io_ops \<Rightarrow> 'f \<Rightarrow> nat \<Rightarrow> 'w copy_state \<Rightarrow> u8 list res \<times> 'w copy_state" where
  "read_in Fio f n s =
     (case c_off_in s of
        None \<Rightarrow> (case io_read Fio f n (c_world s) of (r, w) \<Rightarrow> (r, s\<lparr>c_world := w\<rparr>))
      | Some (Inl e) \<Rightarrow> (Inl e, s)
      | Some (Inr off) \<Rightarrow>
          (case io_read_at Fio f off n (c_world s) of
             (Inl e, w) \<Rightarrow> (Inl e, s\<lparr>c_world := w\<rparr>)
           | (Inr bs, w) \<Rightarrow> (Inr bs, s\<lparr>c_world := w, c_off_in := Some (Inr (off + word_of_nat (length bs)))\<rparr>)))"

definition write_out :: "('f, 'w) io_ops \<Rightarrow> 'f \<Rightarrow> u8 list \<Rightarrow> 'w copy_state \<Rightarrow> nat res \<times> 'w copy_state" where
  "write_out Fio f bs s =
     (case c_off_out s of
        None \<Rightarrow> (case io_write Fio f bs (c_world s) of (r, w) \<Rightarrow> (r, s\<lparr>c_world := w\<rparr>))
      | Some (Inl e) \<Rightarrow> (Inl e, s)
      | Some (Inr off) \<Rightarrow>
          (case io_write_at Fio f off bs (c_world s) of
             (Inl e, w) \<Rightarrow> (Inl e, s\<lparr>c_world := w\<rparr>)
           | (Inr n, w) \<Rightarrow> (Inr n, s\<lparr>c_world := w, c_off_out := Some (Inr (off + word_of_nat n))\<rparr>)))"

text \<open>\<open>file_of fd\<close> is the regular file \<open>File::from_fd(fd)\<close>.\<close>

definition sys_copy_file_range ::
  "('f, 'w) io_ops \<Rightarrow> (i32 \<Rightarrow> 'f res) \<Rightarrow> i32 \<Rightarrow> i32 \<Rightarrow> usize \<Rightarrow> 'w copy_state \<Rightarrow> nat res \<times> 'w copy_state" where
  "sys_copy_file_range Fio file_of fd_in fd_out len s =
     (if fd_in = fd_out then (Inl (Errno EINVAL), s)
      else sbind (file_of fd_in, s) (\<lambda>file_in s. sbind (file_of fd_out, s) (\<lambda>file_out s.
        copy_loop (read_in Fio file_in) (write_out Fio file_out) (unat len) 0 s)))"

text \<open>A pipe as splice uses it: what is available, a read of at most that, and a write (which may wait
  for readers before it returns).\<close>

record 'w splice_pipe =
  sp_available :: "'w \<Rightarrow> nat"
  sp_read :: "nat \<Rightarrow> 'w \<Rightarrow> u8 list res \<times> 'w"
  sp_write :: "u8 list \<Rightarrow> 'w \<Rightarrow> nat res \<times> 'w"

definition splice_pipe_to_file ::
  "('f, 'w) io_ops \<Rightarrow> 'w splice_pipe \<Rightarrow> 'f \<Rightarrow> usize \<Rightarrow> 'w copy_state \<Rightarrow> nat res \<times> 'w copy_state" where
  "splice_pipe_to_file Fio Pi file len s =
     copy_loop
       (\<lambda>n s. let available = sp_available Pi (c_world s) in
          if available = 0 then (Inr [], s)
          else case sp_read Pi (min n available) (c_world s) of (r, w) \<Rightarrow> (r, s\<lparr>c_world := w\<rparr>))
       (write_out Fio file) (unat len) 0 s"

text \<open>\<open>size_of_file\<close> is \<open>file.stat()?.size()\<close>.\<close>

definition splice_file_to_pipe ::
  "('f, 'w) io_ops \<Rightarrow> ('w \<Rightarrow> u64 res) \<Rightarrow> 'w splice_pipe \<Rightarrow> 'f \<Rightarrow> usize \<Rightarrow> 'w copy_state
   \<Rightarrow> nat res \<times> 'w copy_state" where
  "splice_file_to_pipe Fio size_of_file Pi file len s =
     copy_loop
       (\<lambda>n s. case c_off_in s of
            Some (Inr off) \<Rightarrow>
              sbind (size_of_file (c_world s), s) (\<lambda>sz s.
                if sz \<le>s off then (Inr [], s) else read_in Fio file n s)
          | _ \<Rightarrow> read_in Fio file n s)
       (\<lambda>bs s. case sp_write Pi bs (c_world s) of (r, w) \<Rightarrow> (r, s\<lparr>c_world := w\<rparr>))
       (unat len) 0 s"

definition validate_offset :: "i64 res option \<Rightarrow> unit res" where
  "validate_offset off =
     (case off of
        None \<Rightarrow> Inr ()
      | Some r \<Rightarrow> rbind r (\<lambda>v. if v <s 0 then Inl (Errno EINVAL) else Inr ()))"

text \<open>\<open>pipe_of fd\<close> is \<open>Pipe::from_fd(fd)\<close>, with the flag of the read end.\<close>

definition sys_splice ::
  "('f, 'w) io_ops \<Rightarrow> ('f \<Rightarrow> 'w \<Rightarrow> u64 res) \<Rightarrow> (i32 \<Rightarrow> 'f res) \<Rightarrow> (i32 \<Rightarrow> (bool \<times> 'w splice_pipe) res)
   \<Rightarrow> i32 \<Rightarrow> i32 \<Rightarrow> usize \<Rightarrow> 'w copy_state \<Rightarrow> nat res \<times> 'w copy_state" where
  "sys_splice Fio size_of_file file_of pipe_of fd_in fd_out len s =
     (if fd_in = fd_out then (Inl (Errno EINVAL), s)
      else case rbind (validate_offset (c_off_in s)) (\<lambda>_. validate_offset (c_off_out s)) of
        Inl e \<Rightarrow> (Inl e, s)
      | Inr _ \<Rightarrow>
          (case (pipe_of fd_in, pipe_of fd_out) of
             (Inr (is_read_end, pipe), Inl _) \<Rightarrow>
               if \<not> is_read_end then (Inl (Errno EPERM), s)
               else if c_off_out s = None then (Inl (Errno EINVAL), s)
               else sbind (file_of fd_out, s) (\<lambda>file s. splice_pipe_to_file Fio pipe file len s)
           | (Inl _, Inr (is_read_end, pipe)) \<Rightarrow>
               if \<not> writable is_read_end then (Inl (Errno EPERM), s)
               else if c_off_in s = None then (Inl (Errno EINVAL), s)
               else sbind (file_of fd_in, s) (\<lambda>file s. splice_file_to_pipe Fio (size_of_file file) pipe file len s)
           | _ \<Rightarrow> (Inl (Errno EINVAL), s)))"

section \<open>Copying whole files\<close>

text \<open>Writing bytes at an offset of a file's contents; a gap before the offset reads as zeros.\<close>

definition patch :: "nat \<Rightarrow> u8 list \<Rightarrow> u8 list \<Rightarrow> u8 list" where
  "patch off bs c = take off (c @ replicate (off - length c) 0) @ bs @ drop (off + length bs) c"

lemma patch_patch: "patch (off + length a) b (patch off a c) = patch off (a @ b) c"
proof -
  let ?X = "take off (c @ replicate (off - length c) 0)"
  have X: "length ?X = off" by simp
  have "take (off + length a) (?X @ a @ drop (off + length a) c @ zs) = ?X @ a" for zs
    using X by simp
  moreover have "drop (off + length a + length b) (?X @ a @ drop (off + length a) c) = drop (off + length (a @ b)) c"
    using X by (simp add: add_ac)
  ultimately show ?thesis by (simp add: patch_def)
qed

text \<open>What is documented of regular files: a read at an offset returns the bytes there, a write puts all
  its bytes there and touches no other file.\<close>

definition files_spec :: "('f, 'w) io_ops \<Rightarrow> ('f \<Rightarrow> 'w \<Rightarrow> u8 list) \<Rightarrow> bool" where
  "files_spec Fio content \<longleftrightarrow>
     (\<forall>f off n w. io_read_at Fio f off n w = (Inr (take n (drop (unat off) (content f w))), w)) \<and>
     (\<forall>f off bs w. \<exists>w'. io_write_at Fio f off bs w = (Inr (length bs), w') \<and>
        content f w' = patch (unat off) bs (content f w) \<and> (\<forall>g. g \<noteq> f \<longrightarrow> content g w' = content g w))"

lemma unat_offset: "unat (o1 :: i64) + n < 2 ^ 63 \<Longrightarrow> unat (o1 + word_of_nat n) = unat o1 + n"
  by (simp add: unat_word_ariths unat_of_nat)

lemma min_advance: "(m :: nat) \<le> n \<Longrightarrow> m \<le> l \<Longrightarrow> min n l = m + min (n - m) (l - m)"
  by (auto simp: min_def)

lemma copy_loop_chunk:
  assumes spec: "files_spec Fio content" and ne: "fi \<noteq> fo"
    and offs: "c_off_in s = Some (Inr oi)" "c_off_out s = Some (Inr oo)"
    and bs: "bs = take (min DEFAULT_BUFFER_SIZE n) (drop (unat oi) (content fi (c_world s)))" "bs \<noteq> []" and n: "0 < n"
  shows "\<exists>w1. copy_loop (read_in Fio fi) (write_out Fio fo) n tot s =
      copy_loop (read_in Fio fi) (write_out Fio fo) (n - length bs) (tot + length bs)
        (s\<lparr>c_world := w1, c_off_in := Some (Inr (oi + word_of_nat (length bs))),
           c_off_out := Some (Inr (oo + word_of_nat (length bs)))\<rparr>) \<and>
      content fo w1 = patch (unat oo) bs (content fo (c_world s)) \<and> content fi w1 = content fi (c_world s)"
proof -
  obtain w1 where w1: "io_write_at Fio fo oo bs (c_world s) = (Inr (length bs), w1)"
    "content fo w1 = patch (unat oo) bs (content fo (c_world s))" "content fi w1 = content fi (c_world s)"
    using spec ne unfolding files_spec_def by metis
  let ?s = "s\<lparr>c_off_in := Some (Inr (oi + word_of_nat (length bs)))\<rparr>"
  have r: "read_in Fio fi (min DEFAULT_BUFFER_SIZE n) s = (Inr bs, ?s)"
    using spec offs(1) bs(1) by (simp add: read_in_def files_spec_def)
  have wr: "write_out Fio fo bs ?s = (Inr (length bs), s\<lparr>c_world := w1,
      c_off_in := Some (Inr (oi + word_of_nat (length bs))), c_off_out := Some (Inr (oo + word_of_nat (length bs)))\<rparr>)"
    using offs(2) w1(1) by (cases s) (simp add: write_out_def)
  show ?thesis
    unfolding copy_loop.simps [of "read_in Fio fi" "write_out Fio fo" n tot s] r
    using bs(2) n w1 by (intro exI [of _ w1]) (simp add: wr)
qed

lemma copy_loop_files:
  assumes spec: "files_spec Fio content" and ne: "fi \<noteq> fo"
    and offs: "c_off_in s = Some (Inr oi)" "c_off_out s = Some (Inr oo)"
    and bound: "unat oi + n < 2 ^ 63" "unat oo + n < 2 ^ 63"
  defines "k \<equiv> min n (length (content fi (c_world s)) - unat oi)"
  shows "\<exists>w'. copy_loop (read_in Fio fi) (write_out Fio fo) n tot s =
      (Inr (tot + k), s\<lparr>c_world := w', c_off_in := Some (Inr (oi + word_of_nat k)),
         c_off_out := Some (Inr (oo + word_of_nat k))\<rparr>) \<and>
      content fi w' = content fi (c_world s) \<and>
      content fo w' = (if k = 0 then content fo (c_world s)
        else patch (unat oo) (take k (drop (unat oi) (content fi (c_world s)))) (content fo (c_world s)))"
  using offs bound unfolding k_def
proof (induction n arbitrary: s oi oo tot rule: less_induct)
  case (less n)
  let ?w = "c_world s" and ?C = "content fi (c_world s)"
  let ?bs = "take (min DEFAULT_BUFFER_SIZE n) (drop (unat oi) ?C)"
  have rd: "io_read_at Fio fi oi m ?w = (Inr (take m (drop (unat oi) ?C)), ?w)" for m
    using spec by (simp add: files_spec_def)
  note step = copy_loop.simps [of "read_in Fio fi" "write_out Fio fo" n tot s]
  have s0: "s = s\<lparr>c_world := c_world s, c_off_in := Some (Inr oi), c_off_out := Some (Inr oo)\<rparr>"
    using less.prems(1,2) by simp
  show ?case
  proof (cases "0 < n \<and> ?bs \<noteq> []")
    case False
    then have k0: "min n (length ?C - unat oi) = 0" by (auto simp: DEFAULT_BUFFER_SIZE_def)
    have "copy_loop (read_in Fio fi) (write_out Fio fo) n tot s = (Inr tot, s)"
      using False less.prems(1,2) s0 by (auto simp: step read_in_def rd)
    then show ?thesis using s0 by (intro exI [of _ ?w]) (simp add: k0)
  next
    case True
    define bs where "bs = ?bs"
    let ?m = "length bs"
    have m: "0 < ?m" "?m \<le> n" "bs \<noteq> []" "0 < n" using True by (auto simp: bs_def)
    have u: "unat (oi + word_of_nat ?m) = unat oi + ?m" "unat (oo + word_of_nat ?m) = unat oo + ?m"
      using less.prems(3,4) m by (intro unat_offset; linarith)+
    obtain w1 where w1: "copy_loop (read_in Fio fi) (write_out Fio fo) n tot s =
        copy_loop (read_in Fio fi) (write_out Fio fo) (n - ?m) (tot + ?m)
          (s\<lparr>c_world := w1, c_off_in := Some (Inr (oi + word_of_nat ?m)), c_off_out := Some (Inr (oo + word_of_nat ?m))\<rparr>)"
      "content fo w1 = patch (unat oo) bs (content fo ?w)" "content fi w1 = ?C"
      using copy_loop_chunk [OF spec ne less.prems(1,2) bs_def m(3,4)] by blast
    define s1 where "s1 = s\<lparr>c_world := w1, c_off_in := Some (Inr (oi + word_of_nat ?m)),
      c_off_out := Some (Inr (oo + word_of_nat ?m))\<rparr>"
    note go = w1(1) [folded s1_def]
    let ?k = "min (n - ?m) (length ?C - unat (oi + word_of_nat ?m))"
    have mL: "?m \<le> length ?C - unat oi" by (simp add: bs_def)
    have k: "min n (length ?C - unat oi) = ?m + ?k" 
      unfolding u(1) diff_diff_left [symmetric] by (rule min_advance [OF m(2) mL])
    have c1: "c_world s1 = w1" by (simp add: s1_def)
    have p: "n - ?m < n" "c_off_in s1 = Some (Inr (oi + word_of_nat ?m))" "c_off_out s1 = Some (Inr (oo + word_of_nat ?m))"
      "unat (oi + word_of_nat ?m) + (n - ?m) < 2 ^ 63" "unat (oo + word_of_nat ?m) + (n - ?m) < 2 ^ 63"
      using m less.prems(3,4) unfolding u by (simp_all add: s1_def)
    from less.IH [OF p, unfolded c1 w1(3), where tot = "tot + ?m"]
    obtain w2 where w2: "copy_loop (read_in Fio fi) (write_out Fio fo) (n - ?m) (tot + ?m) s1 =
        (Inr (tot + ?m + ?k), s1\<lparr>c_world := w2, c_off_in := Some (Inr (oi + word_of_nat ?m + word_of_nat ?k)),
           c_off_out := Some (Inr (oo + word_of_nat ?m + word_of_nat ?k))\<rparr>)"
      "content fi w2 = ?C"
      "content fo w2 = (if ?k = 0 then content fo w1
        else patch (unat (oo + word_of_nat ?m)) (take ?k (drop (unat (oi + word_of_nat ?m)) ?C)) (content fo w1))"
      by blast
    note w2u = w2(3) [unfolded u]
    have cat: "take (?m + ?k) (drop (unat oi) ?C) = bs @ take ?k (drop (unat oi + ?m) ?C)"
    proof -
      have "take ?m (drop (unat oi) ?C) = bs" by (simp add: bs_def min_def)
      then show ?thesis unfolding take_add drop_drop by (simp only: add.commute)
    qed
    have "content fo w2 = patch (unat oo) (take (?m + ?k) (drop (unat oi) ?C)) (content fo ?w)"
    proof (cases "?k = 0")
      case True
      then show ?thesis unfolding cat using w2u w1(2) u by simp
    next
      case False
      then show ?thesis unfolding cat using w2u w1(2) u patch_patch [of "unat oo" bs] by simp
    qed
    then show ?thesis
      unfolding go k using w2(1,2) m(1) by (intro exI [of _ w2]) (simp add: s1_def add_ac)
  qed
qed

section \<open>Reading into a vector of buffers\<close>

text \<open>A stream: a read takes the next bytes, as many as asked for and there are.\<close>

definition stream_spec :: "('f, 'w) io_ops \<Rightarrow> 'f \<Rightarrow> ('w \<Rightarrow> u8 list) \<Rightarrow> bool" where
  "stream_spec Fio f pending \<longleftrightarrow>
     (\<forall>n w. \<exists>w'. io_read Fio f n w = (Inr (take n (pending w)), w') \<and> pending w' = drop n (pending w))"

definition iov_total :: "iovec list \<Rightarrow> nat" where
  "iov_total iovs = sum_list (map (\<lambda>v. unat (iov_len v)) iovs)"

lemma iov_total_simps [simp]:
  "iov_total [] = 0" "iov_total (v # vs) = unat (iov_len v) + iov_total vs"
  by (simp_all add: iov_total_def)

text \<open>How a sequence of bytes is laid out over the buffers of a vector.\<close>

fun scatter :: "iovec list \<Rightarrow> u8 list \<Rightarrow> (usize \<times> u8 list) list" where
  "scatter [] bs = []"
| "scatter (iov # iovs) bs =
     (if iov_len iov = 0 then scatter iovs bs
      else (iov_base iov, take (unat (iov_len iov)) bs) #
        (if length bs < unat (iov_len iov) then [] else scatter iovs (drop (unat (iov_len iov)) bs)))"

lemma scatter_concat: "concat (map snd (scatter iovs bs)) = take (iov_total iovs) bs"
proof (induction iovs bs rule: scatter.induct)
  case (2 iov iovs bs)
  show ?case
  proof (cases "iov_len iov = 0")
    case True
    then show ?thesis using 2(1) by simp
  next
    case False
    then show ?thesis
      using 2(2) by (cases "length bs < unat (iov_len iov)") (auto simp: take_add)
  qed
qed simp

lemma sys_read_stream:
  assumes "stream_spec Fio f pending" "get_file_like F t fd = Inr f" "chk buf len = Inr ()"
  shows "\<exists>w'. sys_read F Fio t chk fd buf len s =
      (Inr (min (length (pending (world s))) (unat len)),
       s\<lparr>world := w', stores := stores s @ [(buf, take (unat len) (pending (world s)))]\<rparr>) \<and>
      pending w' = drop (unat len) (pending (world s))"
proof -
  obtain w' where "io_read Fio f (unat len) (world s) = (Inr (take (unat len) (pending (world s))), w')"
    "pending w' = drop (unat len) (pending (world s))"
    using assms(1) unfolding stream_spec_def by metis
  then show ?thesis using assms(2,3) by (intro exI [of _ w']) (simp add: sys_read_def on_world_def)
qed

lemma iov_loop_read:
  assumes st: "stream_spec Fio f pending" and f: "get_file_like F t fd = Inr f"
    and chk: "\<forall>v \<in> set iovs. chk (iov_base v) (iov_len v) = Inr ()"
  shows "\<exists>w'. iov_loop (sys_read F Fio t chk fd) iovs ret s =
      (Inr (ret + word_of_nat (min (iov_total iovs) (length (pending (world s))))),
       s\<lparr>world := w', stores := stores s @ scatter iovs (pending (world s))\<rparr>) \<and>
      pending w' = drop (iov_total iovs) (pending (world s))"
  using chk
proof (induction iovs arbitrary: ret s)
  case Nil
  show ?case by (intro exI [of _ "world s"]) simp
next
  case (Cons iov iovs)
  let ?p = "pending (world s)" and ?n = "unat (iov_len iov)"
  show ?case
  proof (cases "iov_len iov = 0")
    case True
    then show ?thesis using Cons.IH [of ret s] Cons.prems by simp
  next
    case False
    obtain w1 where w1: "sys_read F Fio t chk fd (iov_base iov) (iov_len iov) s =
        (Inr (min (length ?p) ?n), s\<lparr>world := w1, stores := stores s @ [(iov_base iov, take ?n ?p)]\<rparr>)"
      "pending w1 = drop ?n ?p"
      using sys_read_stream [OF st f, of chk "iov_base iov" "iov_len iov" s] Cons.prems by auto
    show ?thesis
    proof (cases "length ?p < ?n")
      case True
      then show ?thesis using False w1 by (intro exI [of _ w1]) simp
    next
      case full: False
      let ?s = "s\<lparr>world := w1, stores := stores s @ [(iov_base iov, take ?n ?p)]\<rparr>"
      obtain w2 where w2: "iov_loop (sys_read F Fio t chk fd) iovs (ret + word_of_nat ?n) ?s =
          (Inr (ret + word_of_nat ?n + word_of_nat (min (iov_total iovs) (length (pending w1)))),
           ?s\<lparr>world := w2, stores := stores ?s @ scatter iovs (pending w1)\<rparr>)"
        "pending w2 = drop (iov_total iovs) (pending w1)"
        using Cons.IH [of "ret + word_of_nat ?n" ?s] Cons.prems by auto
      have k: "min (iov_total (iov # iovs)) (length ?p) = ?n + min (iov_total iovs) (length (pending w1))"
        using min_advance [of ?n "iov_total (iov # iovs)" "length ?p"] full w1(2) by simp
      show ?thesis
        using False full w1 w2 unfolding k
        by (intro exI [of _ w2]) (simp add: add_ac min_absorb2 not_less)
    qed
  qed
qed

section \<open>Properties\<close>


text \<open>A stream is the list of its bytes.\<close>

definition list_io :: "(unit, u8 list) io_ops" where
  "list_io =
     \<lparr>io_read = (\<lambda>_ n w. (Inr (take n w), drop n w)), io_write = (\<lambda>_ bs w. (Inr (length bs), w @ bs)),
      io_read_at = (\<lambda>_ off n w. (Inr (take n (drop (unat off) w)), w)),
      io_write_at = (\<lambda>_ off bs w. (Inr (length bs), patch (unat off) bs w)),
      io_truncate = (\<lambda>_ n w. (Inr (), take (unat n) w)), io_fsync = (\<lambda>_ w. (Inr (), w)),
      io_seek = (\<lambda>_ _ w. (Inr 0, w))\<rparr>"



text \<open>Files as their contents, by number.\<close>

definition store_io :: "(nat, nat \<Rightarrow> u8 list) io_ops" where
  "store_io =
     \<lparr>io_read = (\<lambda>_ _ w. (Inr [], w)), io_write = (\<lambda>f bs w. (Inr (length bs), w(f := w f @ bs))),
      io_read_at = (\<lambda>f off n w. (Inr (take n (drop (unat off) (w f))), w)),
      io_write_at = (\<lambda>f off bs w. (Inr (length bs), w(f := patch (unat off) bs (w f)))),
      io_truncate = (\<lambda>f n w. (Inr (), w(f := take (unat n) (w f)))), io_fsync = (\<lambda>_ w. (Inr (), w)),
      io_seek = (\<lambda>_ _ w. (Inr 0, w))\<rparr>"


end
