(* ===== verification/Stdio.thy ===== *)
theory Stdio
  imports Kernel_Prelude
begin

text \<open>
  Standard input and output (\<open>api/src/file/stdio.rs\<close>). The console of \<open>axhal\<close> and the \<open>BufReader\<close> of
  \<open>axio\<close> are external: the console is a pair of operations on a world, the buffered reader an operation
  on its own state. Keys arrive while a reader yields.
\<close>

section \<open>The console\<close>

record 'w console =
  con_read :: "nat \<Rightarrow> 'w \<Rightarrow> u8 list \<times> 'w"
  con_write :: "u8 list \<Rightarrow> 'w \<Rightarrow> 'w"

definition cr_to_lf :: "u8 \<Rightarrow> u8" where
  "cr_to_lf c = (if c = 13 then 10 else c)"

text \<open>\<open>console_read_bytes\<close> on a buffer of \<open>n\<close> bytes: the number of bytes read and the buffer, whose rest is
  cleared. The slice \<open>buf[..len]\<close> panics when the console claims more bytes than fit.\<close>

definition console_read_bytes :: "'w console \<Rightarrow> nat \<Rightarrow> 'w \<Rightarrow> (nat \<times> u8 list) res \<times> 'w" where
  "console_read_bytes C n w =
     (case con_read C n w of (bs, w) \<Rightarrow>
        if length bs \<le> n then (Inr (length bs, map cr_to_lf bs @ replicate (n - length bs) 0), w)
        else (Inl Panic, w))"

definition console_write_bytes :: "'w console \<Rightarrow> u8 list \<Rightarrow> 'w \<Rightarrow> nat res \<times> 'w" where
  "console_write_bytes C bs w = (Inr (length bs), con_write C bs w)"

section \<open>The raw streams\<close>

text \<open>\<open>StdinRaw::read\<close>: the loop over \<open>buf[read_len..]\<close>.\<close>

function stdin_raw_loop :: "'w console \<Rightarrow> u8 list \<Rightarrow> nat \<Rightarrow> 'w \<Rightarrow> (nat \<times> u8 list) res \<times> 'w" where
  "stdin_raw_loop C buf read_len w =
     (if read_len < length buf then
        (case console_read_bytes C (length buf - read_len) w of
           (Inl e, w) \<Rightarrow> (Inl e, w)
         | (Inr (len, sub), w) \<Rightarrow>
             if len = 0 then (Inr (read_len, take read_len buf @ sub), w)
             else stdin_raw_loop C (take read_len buf @ sub) (read_len + len) w)
      else (Inr (read_len, buf), w))"
  by pat_completeness auto
termination
  by (relation "measure (\<lambda>(C, buf, read_len, w). length buf - read_len)")
    (auto simp: console_read_bytes_def diff_less_mono2 length_greater_0_conv [symmetric]
      simp del: length_greater_0_conv split: prod.splits if_splits)

declare stdin_raw_loop.simps [simp del]

definition stdin_raw_read :: "'w console \<Rightarrow> u8 list \<Rightarrow> 'w \<Rightarrow> (nat \<times> u8 list) res \<times> 'w" where
  "stdin_raw_read C buf w = stdin_raw_loop C buf 0 w"

definition stdout_raw_write :: "'w console \<Rightarrow> u8 list \<Rightarrow> 'w \<Rightarrow> nat res \<times> 'w" where
  "stdout_raw_write C bs w = console_write_bytes C bs w"

text \<open>There is nothing to flush.\<close>

definition stdout_raw_flush :: "unit res" where
  [simp]: "stdout_raw_flush = Inr ()"

text \<open>\<open>Stdout\<close> forwards to the stream behind its lock.\<close>

definition stdout_write :: "'w console \<Rightarrow> u8 list \<Rightarrow> 'w \<Rightarrow> nat res \<times> 'w" where
  [simp]: "stdout_write C bs = stdout_raw_write C bs"

definition stdout_flush :: "unit res" where
  [simp]: "stdout_flush = stdout_raw_flush"

section \<open>Standard input\<close>

text \<open>The buffered reader behind the lock, and the arrival of keys at its console.\<close>

record 'b bufreader =
  br_read :: "nat \<Rightarrow> 'b \<Rightarrow> (ax_error + u8 list) \<times> 'b"
  br_type :: "u8 list \<Rightarrow> 'b \<Rightarrow> 'b"

text \<open>The loop of \<open>read_blocked\<close>: one round per yield, during which the keys of that round arrive; no
  result when the keys end and the call still waits.\<close>

fun stdin_retry :: "'b bufreader \<Rightarrow> u8 list list \<Rightarrow> nat \<Rightarrow> 'b \<Rightarrow> (u8 list res \<times> 'b) option" where
  "stdin_retry R typed n s =
     (case br_read R n s of
        (Inl e, s) \<Rightarrow> Some (Inl (FromAx e), s)
      | (Inr bs, s) \<Rightarrow>
          if bs \<noteq> [] then Some (Inr bs, s)
          else (case typed of [] \<Rightarrow> None | ks # typed \<Rightarrow> stdin_retry R typed n (br_type R ks s)))"

declare stdin_retry.simps [simp del]

definition read_blocked :: "'b bufreader \<Rightarrow> u8 list list \<Rightarrow> nat \<Rightarrow> 'b \<Rightarrow> (u8 list res \<times> 'b) option" where
  "read_blocked R typed n s =
     (case br_read R n s of
        (Inl e, s) \<Rightarrow> Some (Inl (FromAx e), s)
      | (Inr bs, s) \<Rightarrow> if n = 0 \<or> bs \<noteq> [] then Some (Inr bs, s) else stdin_retry R typed n s)"

definition stdin_read :: "'b bufreader \<Rightarrow> u8 list list \<Rightarrow> nat \<Rightarrow> 'b \<Rightarrow> (u8 list res \<times> 'b) option" where
  [simp]: "stdin_read R typed n s = read_blocked R typed n s"

section \<open>Properties\<close>

text \<open>What a console promises: it delivers pending keys in order, as many as it likes but at least one
  when there are any and room for them, and never more than fit.\<close>

definition console_spec :: "'w console \<Rightarrow> ('w \<Rightarrow> u8 list) \<Rightarrow> bool" where
  "console_spec C keys \<longleftrightarrow>
     (\<forall>n w. case con_read C n w of (bs, w') \<Rightarrow>
        keys w = bs @ keys w' \<and> length bs \<le> n \<and> (bs = [] \<longrightarrow> n = 0 \<or> keys w = []))"

lemma console_read_bytes_spec:
  assumes "console_spec C keys"
  obtains bs w' where "console_read_bytes C n w = (Inr (length bs, map cr_to_lf bs @ replicate (n - length bs) 0), w')"
    "keys w = bs @ keys w'" "length bs \<le> n" "bs = [] \<Longrightarrow> n = 0 \<or> keys w = []"
proof -
  obtain bs w' where r: "con_read C n w = (bs, w')" by fastforce
  have "case con_read C n w of (bs, w') \<Rightarrow>
      keys w = bs @ keys w' \<and> length bs \<le> n \<and> (bs = [] \<longrightarrow> n = 0 \<or> keys w = [])"
    by (rule assms [unfolded console_spec_def, THEN spec, THEN spec])
  with r show ?thesis by (intro that [of bs w']) (auto simp: console_read_bytes_def)
qed

lemma stdin_raw_loop_spec:
  assumes "console_spec C keys" "read_len \<le> length buf"
  shows "\<exists>w' rest. stdin_raw_loop C buf read_len w =
      (Inr (read_len + min (length buf - read_len) (length (keys w)),
            take read_len buf @ map cr_to_lf (take (length buf - read_len) (keys w)) @ rest), w') \<and>
      length rest = length buf - read_len - length (keys w) \<and> keys w' = drop (length buf - read_len) (keys w)"
  using assms(2)
proof (induction "length buf - read_len" arbitrary: buf read_len w rule: less_induct)
  case less
  show ?case
  proof (cases "read_len < length buf")
    case False
    then show ?thesis using less.prems by (subst stdin_raw_loop.simps) simp
  next
    case True
    obtain bs w' where r: "console_read_bytes C (length buf - read_len) w =
        (Inr (length bs, map cr_to_lf bs @ replicate (length buf - read_len - length bs) 0), w')"
      and k: "keys w = bs @ keys w'" "length bs \<le> length buf - read_len" "bs = [] \<Longrightarrow> keys w = []"
      by (rule console_read_bytes_spec [OF assms(1), of "length buf - read_len" w]) (use True in simp)
    let ?buf = "take read_len buf @ map cr_to_lf bs @ replicate (length buf - read_len - length bs) 0"
    show ?thesis
    proof (cases "bs = []")
      case nil: True
      then have "keys w = []" "keys w' = []" using k by auto
      with nil r True show ?thesis by (subst stdin_raw_loop.simps) simp
    next
      case False
      have l: "length ?buf = length buf" using True k(2) by simp
      have dec: "length ?buf - (read_len + length bs) < length buf - read_len" "read_len + length bs \<le> length ?buf"
        using True k(2) False l by (cases bs; simp)+
      have eq: "stdin_raw_loop C buf read_len w = stdin_raw_loop C ?buf (read_len + length bs) w'"
        using True r False by (subst stdin_raw_loop.simps) simp
      have t: "take (read_len + length bs) ?buf = take read_len buf @ map cr_to_lf bs"
        using True k(2) by simp
      let ?m = "length buf - (read_len + length bs)"
      obtain w'' rest where ih: "stdin_raw_loop C ?buf (read_len + length bs) w' =
          (Inr (read_len + length bs + min ?m (length (keys w')),
             (take read_len buf @ map cr_to_lf bs) @ map cr_to_lf (take ?m (keys w')) @ rest), w'')"
        "length rest = ?m - length (keys w')" "keys w'' = drop ?m (keys w')"
        using less.hyps [OF dec, of w'] unfolding t l by blast
      have m: "length buf - read_len - length bs = ?m" by simp
      have "read_len + length bs + min ?m (length (keys w')) = read_len + min (length buf - read_len) (length (keys w))"
        "take (length buf - read_len) (keys w) = bs @ take ?m (keys w')"
        "drop (length buf - read_len) (keys w) = drop ?m (keys w')"
        "length rest = length buf - read_len - length (keys w)"
        using k(1,2) ih(2) m by simp_all
      then show ?thesis using eq ih(1,3) by (intro exI [of _ w''] exI [of _ rest]) simp
    qed
  qed
qed

text \<open>A raw read takes as many pending keys as fit, in order, with carriage returns turned into newlines,
  and leaves the others pending: it never waits, never skips a key and cannot panic.\<close>

lemma stdin_raw_read_spec:
  assumes "console_spec C keys"
  shows "\<exists>w' rest. stdin_raw_read C buf w =
      (Inr (min (length buf) (length (keys w)), map cr_to_lf (take (length buf) (keys w)) @ rest), w') \<and>
      keys w' = drop (length buf) (keys w)"
  using stdin_raw_loop_spec [OF assms, of 0 buf w] by (auto simp: stdin_raw_read_def)

text \<open>What the buffered reader promises of the input it has not delivered yet.\<close>

definition bufreader_spec :: "'b bufreader \<Rightarrow> ('b \<Rightarrow> u8 list) \<Rightarrow> bool" where
  "bufreader_spec R inp \<longleftrightarrow>
     (\<forall>n s. \<exists>bs s'. br_read R n s = (Inr bs, s') \<and> inp s = bs @ inp s' \<and> length bs \<le> n \<and>
        (bs = [] \<longrightarrow> n = 0 \<or> inp s = [])) \<and>
     (\<forall>ks s. inp (br_type R ks s) = inp s @ ks)"

text \<open>The first round with any input.\<close>

fun first_input :: "u8 list list \<Rightarrow> u8 list" where
  "first_input [] = []"
| "first_input (ks # typed) = (if ks \<noteq> [] then ks else first_input typed)"

lemma stdin_retry_spec:
  assumes "bufreader_spec R inp" "0 < n"
  shows "case stdin_retry R typed n s of
      None \<Rightarrow> first_input (inp s # typed) = []
    | Some (r, s') \<Rightarrow> \<exists>bs. r = Inr bs \<and> bs \<noteq> [] \<and> length bs \<le> n \<and> bs @ inp s' = first_input (inp s # typed)"
proof (induction typed arbitrary: s)
  case Nil
  obtain bs s' where "br_read R n s = (Inr bs, s')" "inp s = bs @ inp s'" "length bs \<le> n" "bs = [] \<Longrightarrow> inp s = []"
    using assms unfolding bufreader_spec_def by blast
  then show ?case by (subst stdin_retry.simps) auto
next
  case (Cons ks typed)
  obtain bs s' where b: "br_read R n s = (Inr bs, s')" "inp s = bs @ inp s'" "length bs \<le> n" "bs = [] \<Longrightarrow> inp s = []"
    using assms unfolding bufreader_spec_def by blast
  show ?case
  proof (cases "bs = []")
    case True
    then have "inp s = []" "inp (br_type R ks s') = ks"
      using b assms(1) unfolding bufreader_spec_def by auto
    then have i: "first_input (inp s # ks # typed) = first_input (inp (br_type R ks s') # typed)" by simp
    have l: "stdin_retry R (ks # typed) n s = stdin_retry R typed n (br_type R ks s')"
      using True b(1) by (subst stdin_retry.simps) simp
    show ?thesis unfolding i l by (rule Cons)
  next
    case False
    with b show ?thesis by (subst stdin_retry.simps) auto
  qed
qed

text \<open>A read of standard input returns in the first round in which any input is there, with at least one
  byte and at most the length of the buffer, the oldest bytes of that input in order, and the rest
  stays for the next read; it waits only as long as nothing has been typed. An empty buffer returns at
  once without taking input.\<close>

theorem stdin_read_blocked_spec:
  assumes "bufreader_spec R inp"
  shows "case read_blocked R typed n s of
      None \<Rightarrow> 0 < n \<and> first_input (inp s # typed) = []
    | Some (r, s') \<Rightarrow> \<exists>bs. r = Inr bs \<and> length bs \<le> n \<and>
        (if n = 0 then inp s' = inp s else bs \<noteq> [] \<and> bs @ inp s' = first_input (inp s # typed))"
proof -
  obtain bs s' where b: "br_read R n s = (Inr bs, s')" "inp s = bs @ inp s'" "length bs \<le> n"
    "bs = [] \<Longrightarrow> n = 0 \<or> inp s = []"
    using assms unfolding bufreader_spec_def by blast
  show ?thesis
  proof (cases "n = 0 \<or> bs \<noteq> []")
    case True
    then have l: "read_blocked R typed n s = Some (Inr bs, s')" using b(1) by (simp add: read_blocked_def)
    have "n = 0 \<Longrightarrow> inp s' = inp s" "n \<noteq> 0 \<Longrightarrow> bs \<noteq> [] \<and> bs @ inp s' = first_input (inp s # typed)"
      using b(2,3) True by auto
    then show ?thesis using b(3) unfolding l by simp
  next
    case False
    then have n: "0 < n" and i: "inp s' = inp s" using b by auto
    have "read_blocked R typed n s = stdin_retry R typed n s'" using b(1) False by (simp add: read_blocked_def)
    then show ?thesis using stdin_retry_spec [OF assms n, where typed = typed and s = s'] n
      unfolding i by (cases "stdin_retry R typed n s'") (simp_all del: first_input.simps split: prod.splits, blast)
  qed
qed

text \<open>A reader without a buffer over a queue of keys.\<close>

definition queue_reader :: "u8 list bufreader" where
  "queue_reader = \<lparr>br_read = (\<lambda>n q. (Inr (take n q), drop n q)), br_type = (\<lambda>ks q. q @ ks)\<rparr>"

theorem stdin_read_blocked_spec_witness:
  "bufreader_spec queue_reader id \<and>
   (\<exists>bs s'. read_blocked queue_reader [[], [108, 115, 10], [33]] 2 [] = Some (Inr bs, s') \<and> bs @ s' = [108, 115, 10])"
proof -
  have spec: "bufreader_spec queue_reader id"
    by (auto simp: bufreader_spec_def queue_reader_def)
  have run: "read_blocked queue_reader [[], [108, 115, 10], [33]] 2 [] = Some (Inr [108, 115], [10])"
    by (simp add: read_blocked_def stdin_retry.simps queue_reader_def)
  show ?thesis
    using stdin_read_blocked_spec [OF spec, where typed = "[[], [108, 115, 10], [33]]" and n = 2 and s = "[]"] spec
    unfolding run by simp
qed

end
