(* ===== verification/Sockaddr.thy ===== *)
theory Sockaddr
  imports Bytes
begin

text \<open>
  Socket addresses in user memory (\<open>api/src/socket.rs\<close>). The C structures are the bytes of memory:
  \<open>sockaddr\<close> has 128 of them, \<open>sockaddr_in\<close> 16 and \<open>sockaddr_in6\<close> 28. An IPv4 address is its 32 bits, an
  IPv6 address its 16 octets. All supported targets are little-endian. The user's structure is an
  argument, or the error of accessing it; what is read from it is always all 128 bytes.
\<close>

datatype socket_addr =
    V4 u32 u16
  | V6 "u8 list" u16 u32 u32

definition socket_addr_ok :: "socket_addr \<Rightarrow> bool" where
  "socket_addr_ok a = (case a of V4 ip port \<Rightarrow> True | V6 octets port flow scope \<Rightarrow> length octets = 16)"

definition SOCKADDR_SIZE :: nat where "SOCKADDR_SIZE = 128"

definition SOCKADDR_IN_SIZE :: nat where "SOCKADDR_IN_SIZE = 16"

definition SOCKADDR_IN6_SIZE :: nat where "SOCKADDR_IN6_SIZE = 28"

definition AF_INET :: nat where "AF_INET = 2"

definition AF_INET6 :: nat where "AF_INET6 = 10"

text \<open>Fields of a structure in memory.\<close>

definition field :: "nat \<Rightarrow> nat \<Rightarrow> u8 list \<Rightarrow> u8 list" where
  "field off n m = take n (drop off m)"

text \<open>The copy into kernel storage; what lies beyond the copied bytes is uninitialised and not
  looked at.\<close>

definition copy_sockaddr_from_user :: "u8 list res \<Rightarrow> u32 \<Rightarrow> u8 list res" where
  "copy_sockaddr_from_user addr addrlen = rbind addr (\<lambda>m. Inr (take (unat addrlen) m))"

definition v4_read_from_user :: "u8 list res \<Rightarrow> u32 \<Rightarrow> socket_addr res" where
  "v4_read_from_user addr addrlen =
     (if unat addrlen < SOCKADDR_IN_SIZE then Inl (Errno EINVAL)
      else rbind (copy_sockaddr_from_user addr addrlen) (\<lambda>m.
        if le_val (field 0 2 m) \<noteq> AF_INET then Inl (Errno EAFNOSUPPORT)
        else Inr (V4 (word_of_nat (be_val (field 4 4 m))) (word_of_nat (be_val (field 2 2 m))))))"

definition v6_read_from_user :: "u8 list res \<Rightarrow> u32 \<Rightarrow> socket_addr res" where
  "v6_read_from_user addr addrlen =
     (if unat addrlen < SOCKADDR_IN6_SIZE then Inl (Errno EINVAL)
      else rbind (copy_sockaddr_from_user addr addrlen) (\<lambda>m.
        if le_val (field 0 2 m) \<noteq> AF_INET6 then Inl (Errno EAFNOSUPPORT)
        else Inr (V6 (field 8 16 m) (word_of_nat (be_val (field 2 2 m)))
               (word_of_nat (be_val (field 4 4 m))) (word_of_nat (le_val (field 24 4 m))))))"

definition read_from_user :: "u8 list res \<Rightarrow> u32 \<Rightarrow> socket_addr res" where
  "read_from_user addr addrlen =
     (if 2 > unat addrlen \<or> unat addrlen > SOCKADDR_SIZE then Inl (Errno EINVAL)
      else rbind addr (\<lambda>m.
        let family = le_val (field 0 2 m) in
        if family = AF_INET then v4_read_from_user addr addrlen
        else if family = AF_INET6 then v6_read_from_user addr addrlen
        else Inl (Errno EAFNOSUPPORT)))"

text \<open>Writing: the destination is absent for a null pointer. The result is the length and the
  memory as it is left.\<close>

definition sockaddr_in_bytes :: "u32 \<Rightarrow> u16 \<Rightarrow> u8 list" where
  "sockaddr_in_bytes ip port =
     le_bytes 2 AF_INET @ be_bytes 2 (unat port) @ be_bytes 4 (unat ip) @ replicate 8 0"

definition sockaddr_in6_bytes :: "u8 list \<Rightarrow> u16 \<Rightarrow> u32 \<Rightarrow> u32 \<Rightarrow> u8 list" where
  "sockaddr_in6_bytes octets port flow scope =
     le_bytes 2 AF_INET6 @ be_bytes 2 (unat port) @ be_bytes 4 (unat flow) @ octets
       @ le_bytes 4 (unat scope)"

definition v4_write_to_user :: "u32 \<Rightarrow> u16 \<Rightarrow> u8 list res option \<Rightarrow> (u32 \<times> u8 list) res" where
  "v4_write_to_user ip port addr =
     (case addr of
        None \<Rightarrow> Inl (Errno EINVAL)
      | Some a \<Rightarrow> rbind a (\<lambda>m.
          Inr (word_of_nat SOCKADDR_IN_SIZE, blit 0 (take SOCKADDR_IN_SIZE (sockaddr_in_bytes ip port)) m)))"

definition v6_write_to_user ::
  "u8 list \<Rightarrow> u16 \<Rightarrow> u32 \<Rightarrow> u32 \<Rightarrow> u8 list res option \<Rightarrow> (u32 \<times> u8 list) res" where
  "v6_write_to_user octets port flow scope addr =
     (case addr of
        None \<Rightarrow> Inl (Errno EINVAL)
      | Some a \<Rightarrow> rbind a (\<lambda>m.
          Inr (word_of_nat SOCKADDR_IN6_SIZE,
               blit 0 (take SOCKADDR_IN6_SIZE (sockaddr_in6_bytes octets port flow scope)) m)))"

definition write_to_user :: "socket_addr \<Rightarrow> u8 list res option \<Rightarrow> (u32 \<times> u8 list) res" where
  "write_to_user a addr =
     (case addr of
        None \<Rightarrow> Inl (Errno EINVAL)
      | Some _ \<Rightarrow>
          (case a of
             V4 ip port \<Rightarrow> v4_write_to_user ip port addr
           | V6 octets port flow scope \<Rightarrow> v6_write_to_user octets port flow scope addr))"

definition sock_family :: "socket_addr \<Rightarrow> u16" where
  "sock_family a = (case a of V4 _ _ \<Rightarrow> word_of_nat AF_INET | V6 _ _ _ _ \<Rightarrow> word_of_nat AF_INET6)"

definition addr_len :: "socket_addr \<Rightarrow> u32" where
  "addr_len a =
     (case a of V4 _ _ \<Rightarrow> word_of_nat SOCKADDR_IN_SIZE | V6 _ _ _ _ \<Rightarrow> word_of_nat SOCKADDR_IN6_SIZE)"

lemmas size_defs = SOCKADDR_SIZE_def SOCKADDR_IN_SIZE_def SOCKADDR_IN6_SIZE_def AF_INET_def AF_INET6_def

lemma family_val: "le_val (le_bytes 2 AF_INET) = AF_INET" "le_val (le_bytes 2 AF_INET6) = AF_INET6"
  by (simp_all add: le_val_le_bytes AF_INET_def AF_INET6_def)

lemma family_distinct: "AF_INET6 \<noteq> AF_INET"
  by (simp add: AF_INET_def AF_INET6_def)

lemma field_take: "off + n \<le> k \<Longrightarrow> field off n (take k m) = field off n m"
  by (simp add: field_def drop_take min_def)

text \<open>An address written to a user's \<open>sockaddr\<close> with \<open>write_to_user\<close> takes \<open>addr_len\<close> bytes and
  leaves the rest of the structure alone; reading it back with any length from the returned one up
  to the size of \<open>sockaddr\<close> gives the same address: family, port, address, flow and scope.\<close>

theorem sockaddr_roundtrip:
  assumes "socket_addr_ok a" "length m = SOCKADDR_SIZE" "addr_len a \<le> len" "unat len \<le> SOCKADDR_SIZE"
  shows "\<exists>m'. write_to_user a (Some (Inr m)) = Inr (addr_len a, m') \<and> length m' = length m
           \<and> drop (unat (addr_len a)) m' = drop (unat (addr_len a)) m
           \<and> read_from_user (Inr m') len = Inr a"
proof (cases a)
  case (V4 ip port)
  have len: "16 \<le> unat len" using assms(3) V4 by (simp add: addr_len_def size_defs word_le_nat_alt)
  let ?rest = "drop 16 m"
  have m': "blit 0 (take SOCKADDR_IN_SIZE (sockaddr_in_bytes ip port)) m = sockaddr_in_bytes ip port @ ?rest"
    by (simp add: blit_def sockaddr_in_bytes_def SOCKADDR_IN_SIZE_def)
  have f: "field 0 2 (sockaddr_in_bytes ip port @ ?rest) = le_bytes 2 AF_INET"
      "field 2 2 (sockaddr_in_bytes ip port @ ?rest) = be_bytes 2 (unat port)"
      "field 4 4 (sockaddr_in_bytes ip port @ ?rest) = be_bytes 4 (unat ip)"
    by (simp_all add: field_def sockaddr_in_bytes_def)
  have "read_from_user (Inr (sockaddr_in_bytes ip port @ ?rest)) len = Inr a"
    using f len assms(4) V4
    by (simp add: read_from_user_def v4_read_from_user_def copy_sockaddr_from_user_def Let_def
        family_val word_of_be_bytes SOCKADDR_IN_SIZE_def field_take del: take_append)
  then show ?thesis
    using V4 m' assms(2)
    by (simp add: write_to_user_def v4_write_to_user_def addr_len_def size_defs sockaddr_in_bytes_def)
next
  case (V6 octets port flow scope)
  have o: "length octets = 16" using assms(1) V6 by (simp add: socket_addr_ok_def)
  have len: "28 \<le> unat len" using assms(3) V6 by (simp add: addr_len_def size_defs word_le_nat_alt)
  let ?b = "sockaddr_in6_bytes octets port flow scope" and ?rest = "drop 28 m"
  have m': "blit 0 (take SOCKADDR_IN6_SIZE ?b) m = ?b @ ?rest"
    by (simp add: blit_def sockaddr_in6_bytes_def SOCKADDR_IN6_SIZE_def o)
  have f: "field 0 2 (?b @ ?rest) = le_bytes 2 AF_INET6"
      "field 2 2 (?b @ ?rest) = be_bytes 2 (unat port)"
      "field 4 4 (?b @ ?rest) = be_bytes 4 (unat flow)"
      "field 8 16 (?b @ ?rest) = octets"
      "field 24 4 (?b @ ?rest) = le_bytes 4 (unat scope)"
    using o by (simp_all add: field_def sockaddr_in6_bytes_def)
  have "read_from_user (Inr (?b @ ?rest)) len = Inr a"
    using f len assms(4) V6
    by (simp add: read_from_user_def v6_read_from_user_def copy_sockaddr_from_user_def Let_def
        family_val word_of_be_bytes SOCKADDR_IN6_SIZE_def family_distinct field_take del: take_append)
  then show ?thesis
    using V6 m' assms(2) o
    by (simp add: write_to_user_def v6_write_to_user_def addr_len_def size_defs sockaddr_in6_bytes_def)
qed

theorem sockaddr_roundtrip_witness:
  "\<exists>m'. write_to_user (V4 0x7F000001 8080) (Some (Inr (replicate 128 7))) = Inr (16, m')
     \<and> read_from_user (Inr m') 16 = Inr (V4 0x7F000001 8080)"
  using sockaddr_roundtrip [of "V4 0x7F000001 8080" "replicate 128 7" 16]
  by (auto simp: socket_addr_ok_def addr_len_def size_defs)

end
