(* ===== verification/Net.thy ===== *)
theory Net
  imports Sockaddr Pipe
begin

text \<open>
  Sockets as file objects (\<open>api/src/file/net.rs\<close>). The UDP and TCP sockets of \<open>axnet\<close> are external: their
  operations are records on a world \<open>'w\<close>. Each method of \<open>Socket\<close> takes the lock of one of the two and
  forwards to it, or refuses what the kind of socket cannot do.
\<close>

section \<open>The sockets of axnet\<close>

text \<open>What both kinds offer, and what each offers alone; \<open>r_recv_from\<close> is only asked of UDP sockets and
  \<open>r_recv\<close>, \<open>r_listen\<close>, \<open>r_accept\<close> only of TCP sockets.\<close>

record ('k, 'w) sock_ops =
  r_send :: "'k \<Rightarrow> u8 list \<Rightarrow> 'w \<Rightarrow> (ax_error + nat) \<times> 'w"
  r_poll :: "'k \<Rightarrow> 'w \<Rightarrow> ax_error + poll_state"
  r_local_addr :: "'k \<Rightarrow> 'w \<Rightarrow> ax_error + socket_addr"
  r_peer_addr :: "'k \<Rightarrow> 'w \<Rightarrow> ax_error + socket_addr"
  r_bind :: "'k \<Rightarrow> socket_addr \<Rightarrow> 'w \<Rightarrow> (ax_error + unit) \<times> 'w"
  r_connect :: "'k \<Rightarrow> socket_addr \<Rightarrow> 'w \<Rightarrow> (ax_error + unit) \<times> 'w"
  r_shutdown :: "'k \<Rightarrow> 'w \<Rightarrow> (ax_error + unit) \<times> 'w"
  r_set_nonblocking :: "'k \<Rightarrow> bool \<Rightarrow> 'w \<Rightarrow> 'w"

record ('k, 'w) udp_ops = "('k, 'w) sock_ops" +
  r_recv_from :: "'k \<Rightarrow> nat \<Rightarrow> 'w \<Rightarrow> (ax_error + u8 list \<times> socket_addr) \<times> 'w"
  r_send_to :: "'k \<Rightarrow> u8 list \<Rightarrow> socket_addr \<Rightarrow> 'w \<Rightarrow> (ax_error + nat) \<times> 'w"

record ('k, 'w) tcp_ops = "('k, 'w) sock_ops" +
  r_recv :: "'k \<Rightarrow> nat \<Rightarrow> 'w \<Rightarrow> (ax_error + u8 list) \<times> 'w"
  r_listen :: "'k \<Rightarrow> 'w \<Rightarrow> (ax_error + unit) \<times> 'w"
  r_accept :: "'k \<Rightarrow> 'w \<Rightarrow> (ax_error + 'k) \<times> 'w"

record ('u, 'v, 'w) net_ops =
  udp :: "('u, 'w) udp_ops"
  tcp :: "('v, 'w) tcp_ops"

section \<open>Socket\<close>

datatype ('u, 'v) socket = Udp 'u | Tcp 'v

definition ax_map :: "('a \<Rightarrow> 'b) \<Rightarrow> (ax_error + 'a) \<times> 'w \<Rightarrow> 'b res \<times> 'w" where
  "ax_map f p = (case p of (Inl e, w) \<Rightarrow> (Inl (FromAx e), w) | (Inr x, w) \<Rightarrow> (Inr (f x), w))"

definition socket_recv :: "('u, 'v, 'w) net_ops \<Rightarrow> ('u, 'v) socket \<Rightarrow> nat \<Rightarrow> 'w \<Rightarrow> u8 list res \<times> 'w" where
  "socket_recv N s n w =
     (case s of Udp u \<Rightarrow> ax_map fst (r_recv_from (udp N) u n w)
              | Tcp v \<Rightarrow> ax_map id (r_recv (tcp N) v n w))"

definition socket_sendto ::
  "('u, 'v, 'w) net_ops \<Rightarrow> ('u, 'v) socket \<Rightarrow> u8 list \<Rightarrow> socket_addr \<Rightarrow> 'w \<Rightarrow> nat res \<times> 'w" where
  "socket_sendto N s buf addr w =
     (case s of Udp u \<Rightarrow> ax_map id (r_send_to (udp N) u buf addr w)
              | Tcp v \<Rightarrow> (Inl (Errno EISCONN), w))"

definition socket_recvfrom ::
  "('u, 'v, 'w) net_ops \<Rightarrow> ('u, 'v) socket \<Rightarrow> nat \<Rightarrow> 'w \<Rightarrow> (u8 list \<times> socket_addr option) res \<times> 'w" where
  "socket_recvfrom N s n w =
     (case s of Udp u \<Rightarrow> ax_map (\<lambda>(bs, a). (bs, Some a)) (r_recv_from (udp N) u n w)
              | Tcp v \<Rightarrow> ax_map (\<lambda>bs. (bs, None)) (r_recv (tcp N) v n w))"

definition socket_listen :: "('u, 'v, 'w) net_ops \<Rightarrow> ('u, 'v) socket \<Rightarrow> 'w \<Rightarrow> unit res \<times> 'w" where
  "socket_listen N s w =
     (case s of Udp u \<Rightarrow> (Inl (Errno EOPNOTSUPP), w) | Tcp v \<Rightarrow> ax_map id (r_listen (tcp N) v w))"

definition socket_accept :: "('u, 'v, 'w) net_ops \<Rightarrow> ('u, 'v) socket \<Rightarrow> 'w \<Rightarrow> 'v res \<times> 'w" where
  "socket_accept N s w =
     (case s of Udp u \<Rightarrow> (Inl (Errno EOPNOTSUPP), w) | Tcp v \<Rightarrow> ax_map id (r_accept (tcp N) v w))"

definition socket_send :: "('u, 'v, 'w) net_ops \<Rightarrow> ('u, 'v) socket \<Rightarrow> u8 list \<Rightarrow> 'w \<Rightarrow> nat res \<times> 'w" where
  "socket_send N s buf w =
     (case s of Udp u \<Rightarrow> ax_map id (r_send (udp N) u buf w) | Tcp v \<Rightarrow> ax_map id (r_send (tcp N) v buf w))"

definition socket_poll :: "('u, 'v, 'w) net_ops \<Rightarrow> ('u, 'v) socket \<Rightarrow> 'w \<Rightarrow> poll_state res" where
  "socket_poll N s w = (case s of Udp u \<Rightarrow> from_ax (r_poll (udp N) u w) | Tcp v \<Rightarrow> from_ax (r_poll (tcp N) v w))"

definition socket_local_addr :: "('u, 'v, 'w) net_ops \<Rightarrow> ('u, 'v) socket \<Rightarrow> 'w \<Rightarrow> socket_addr res" where
  "socket_local_addr N s w =
     (case s of Udp u \<Rightarrow> from_ax (r_local_addr (udp N) u w) | Tcp v \<Rightarrow> from_ax (r_local_addr (tcp N) v w))"

definition socket_peer_addr :: "('u, 'v, 'w) net_ops \<Rightarrow> ('u, 'v) socket \<Rightarrow> 'w \<Rightarrow> socket_addr res" where
  "socket_peer_addr N s w =
     (case s of Udp u \<Rightarrow> from_ax (r_peer_addr (udp N) u w) | Tcp v \<Rightarrow> from_ax (r_peer_addr (tcp N) v w))"

definition socket_bind :: "('u, 'v, 'w) net_ops \<Rightarrow> ('u, 'v) socket \<Rightarrow> socket_addr \<Rightarrow> 'w \<Rightarrow> unit res \<times> 'w" where
  "socket_bind N s addr w =
     (case s of Udp u \<Rightarrow> ax_map id (r_bind (udp N) u addr w) | Tcp v \<Rightarrow> ax_map id (r_bind (tcp N) v addr w))"

definition socket_connect :: "('u, 'v, 'w) net_ops \<Rightarrow> ('u, 'v) socket \<Rightarrow> socket_addr \<Rightarrow> 'w \<Rightarrow> unit res \<times> 'w" where
  "socket_connect N s addr w =
     (case s of Udp u \<Rightarrow> ax_map id (r_connect (udp N) u addr w) | Tcp v \<Rightarrow> ax_map id (r_connect (tcp N) v addr w))"

definition socket_shutdown :: "('u, 'v, 'w) net_ops \<Rightarrow> ('u, 'v) socket \<Rightarrow> 'w \<Rightarrow> unit res \<times> 'w" where
  "socket_shutdown N s w =
     (case s of Udp u \<Rightarrow> ax_map id (r_shutdown (udp N) u w) | Tcp v \<Rightarrow> ax_map id (r_shutdown (tcp N) v w))"

definition socket_set_nonblocking :: "('u, 'v, 'w) net_ops \<Rightarrow> ('u, 'v) socket \<Rightarrow> bool \<Rightarrow> 'w \<Rightarrow> unit res \<times> 'w" where
  "socket_set_nonblocking N s nb w =
     (Inr (), case s of Udp u \<Rightarrow> r_set_nonblocking (udp N) u nb w | Tcp v \<Rightarrow> r_set_nonblocking (tcp N) v nb w)"

section \<open>Facts for the file objects\<close>

text \<open>A socket reports its failures as errors of \<open>axnet\<close>; it never panics by itself.\<close>

lemma ax_map_no_panic [simp]: "fst (ax_map f p) \<noteq> Inl Panic"
  by (cases p) (auto simp: ax_map_def split: sum.splits)

lemma socket_recv_no_panic [simp]: "fst (socket_recv N s n w) \<noteq> Inl Panic"
  by (auto simp: socket_recv_def split: socket.splits)

lemma socket_send_no_panic [simp]: "fst (socket_send N s buf w) \<noteq> Inl Panic"
  by (auto simp: socket_send_def split: socket.splits)

text \<open>A received datagram is the same for \<open>recv\<close> and \<open>recvfrom\<close>, the latter with the sender's address.\<close>

lemma socket_recv_of_recvfrom:
  "socket_recv N s n w = (case socket_recvfrom N s n w of (r, w') \<Rightarrow> (rbind r (\<lambda>(bs, a). Inr bs), w'))"
  by (auto simp: socket_recv_def socket_recvfrom_def ax_map_def split: socket.splits prod.splits sum.splits)

end
