(* ===== verification/Objects.thy ===== *)
theory Objects
  imports Io Stdio Net
begin

text \<open>
  The methods of the trait \<open>FileLike\<close> for every kind of file object (\<open>api/src/file\<close>), as one definition per
  method: regular files forward to the handle of \<open>axfs\<close>, pipes and the console to their own theories,
  sockets to \<open>Net\<close>. With them the data transfer calls of \<open>Io\<close> run on the objects behind descriptors, and
  the invariant of the file layer can be stated for all calls together.
\<close>

section \<open>The methods\<close>

text \<open>The operations of the external handles on the world \<open>'w\<close>; standard input has its own state.\<close>

record ('f, 'u, 'v, 'w, 'b) dev_ops =
  h_read :: "'f \<Rightarrow> nat \<Rightarrow> 'w \<Rightarrow> (ax_error + u8 list) \<times> 'w"
  h_write :: "'f \<Rightarrow> u8 list \<Rightarrow> 'w \<Rightarrow> (ax_error + nat) \<times> 'w"
  h_read_at :: "'f \<Rightarrow> u64 \<Rightarrow> nat \<Rightarrow> 'w \<Rightarrow> (ax_error + u8 list) \<times> 'w"
  h_write_at :: "'f \<Rightarrow> u64 \<Rightarrow> u8 list \<Rightarrow> 'w \<Rightarrow> (ax_error + nat) \<times> 'w"
  h_truncate :: "'f \<Rightarrow> u64 \<Rightarrow> 'w \<Rightarrow> (ax_error + unit) \<times> 'w"
  h_fsync :: "'f \<Rightarrow> 'w \<Rightarrow> (ax_error + unit) \<times> 'w"
  h_seek :: "'f \<Rightarrow> seek_from \<Rightarrow> 'w \<Rightarrow> (ax_error + u64) \<times> 'w"
  net :: "('u, 'v, 'w) net_ops"
  con :: "'w console"
  stdin_reader :: "'b bufreader"

record ('f, 'd, 's, 'w, 'b) kworld =
  k_files :: "('f, 'd, 's) files"
  k_dev :: 'w
  k_stdin :: 'b

definition set_pipe :: "arc \<Rightarrow> pipe_shared \<Rightarrow> ('f, 'd, 's, 'w, 'b) kworld \<Rightarrow> ('f, 'd, 's, 'w, 'b) kworld" where
  "set_pipe b sh W = W\<lparr>k_files := (k_files W)\<lparr>pipe_bufs := (pipe_bufs (k_files W))(b \<mapsto> sh)\<rparr>\<rparr>"

definition dev_call ::
  "('w \<Rightarrow> 'a res \<times> 'w) \<Rightarrow> ('f, 'd, 's, 'w, 'b) kworld \<Rightarrow> 'a res \<times> ('f, 'd, 's, 'w, 'b) kworld" where
  "dev_call f W = (case f (k_dev W) of (r, w) \<Rightarrow> (r, W\<lparr>k_dev := w\<rparr>))"

text \<open>What the others do while a call waits: moves on the pipe, keys at the console.\<close>

record wait_env =
  w_pipe :: env
  w_keys :: "u8 list list"

text \<open>The methods of the implementors, for regular files on the handle of \<open>axfs\<close>. Those with a default in the trait
  are overridden by regular files only.\<close>

definition fs_file_read ::
  "('f, 'u, 'v, 'w, 'b) dev_ops \<Rightarrow> 'f \<Rightarrow> nat \<Rightarrow> 'w \<Rightarrow> u8 list res \<times> 'w" where
  [simp]: "fs_file_read D f n = (\<lambda>w. ax_map id (h_read D f n w))"

definition fs_file_write ::
  "('f, 'u, 'v, 'w, 'b) dev_ops \<Rightarrow> 'f \<Rightarrow> u8 list \<Rightarrow> 'w \<Rightarrow> nat res \<times> 'w" where
  [simp]: "fs_file_write D f buf = (\<lambda>w. ax_map id (h_write D f buf w))"

definition fs_file_read_at ::
  "('f, 'u, 'v, 'w, 'b) dev_ops \<Rightarrow> 'f \<Rightarrow> u64 \<Rightarrow> nat \<Rightarrow> 'w \<Rightarrow> u8 list res \<times> 'w" where
  [simp]: "fs_file_read_at D f offset n = (\<lambda>w. ax_map id (h_read_at D f offset n w))"

definition fs_file_write_at ::
  "('f, 'u, 'v, 'w, 'b) dev_ops \<Rightarrow> 'f \<Rightarrow> u64 \<Rightarrow> u8 list \<Rightarrow> 'w \<Rightarrow> nat res \<times> 'w" where
  [simp]: "fs_file_write_at D f offset buf = (\<lambda>w. ax_map id (h_write_at D f offset buf w))"

definition fs_file_truncate :: "('f, 'u, 'v, 'w, 'b) dev_ops \<Rightarrow> 'f \<Rightarrow> u64 \<Rightarrow> 'w \<Rightarrow> unit res \<times> 'w" where
  [simp]: "fs_file_truncate D f len = (\<lambda>w. ax_map id (h_truncate D f len w))"

definition fs_file_fsync :: "('f, 'u, 'v, 'w, 'b) dev_ops \<Rightarrow> 'f \<Rightarrow> 'w \<Rightarrow> unit res \<times> 'w" where
  [simp]: "fs_file_fsync D f = (\<lambda>w. ax_map id (h_fsync D f w))"

definition directory_read :: "u8 list res" where
  [simp]: "directory_read = Inl (Errno EBADF)"

definition directory_write :: "nat res" where
  [simp]: "directory_write = Inl (Errno EBADF)"

definition socket_read :: "('u, 'v, 'w) net_ops \<Rightarrow> ('u, 'v) socket \<Rightarrow> nat \<Rightarrow> 'w \<Rightarrow> u8 list res \<times> 'w" where
  [simp]: "socket_read N s n = socket_recv N s n"

definition socket_write :: "('u, 'v, 'w) net_ops \<Rightarrow> ('u, 'v) socket \<Rightarrow> u8 list \<Rightarrow> 'w \<Rightarrow> nat res \<times> 'w" where
  [simp]: "socket_write N s buf = socket_send N s buf"

definition stdin_write :: "nat res" where
  [simp]: "stdin_write = Inl (Errno EPERM)"

definition stdout_read :: "u8 list res" where
  [simp]: "stdout_read = Inl (Errno EPERM)"

definition epoll_read :: "u8 list res" where
  [simp]: "epoll_read = Inl (Errno ENOSYS)"

definition epoll_write :: "nat res" where
  [simp]: "epoll_write = Inl (Errno ENOSYS)"

definition fs_file_set_nonblocking :: "bool \<Rightarrow> unit res" where
  [simp]: "fs_file_set_nonblocking nb = Inr ()"

definition directory_set_nonblocking :: "bool \<Rightarrow> unit res" where
  [simp]: "directory_set_nonblocking nb = Inr ()"

definition pipe_set_nonblocking :: "bool \<Rightarrow> unit res" where
  [simp]: "pipe_set_nonblocking nb = Inr ()"

definition stdin_set_nonblocking :: "bool \<Rightarrow> unit res" where
  [simp]: "stdin_set_nonblocking nb = Inr ()"

definition stdout_set_nonblocking :: "bool \<Rightarrow> unit res" where
  [simp]: "stdout_set_nonblocking nb = Inr ()"

definition epoll_set_nonblocking :: "bool \<Rightarrow> unit res" where
  [simp]: "epoll_set_nonblocking nb = Inr ()"

text \<open>\<open>FileLike::read\<close> into a buffer of \<open>n\<close> bytes; no result while the call waits.\<close>

definition file_read ::
  "('f, 'u, 'v, 'w, 'b) dev_ops \<Rightarrow> wait_env \<Rightarrow> ('f, 'd, ('u, 'v) socket) file_obj \<Rightarrow> nat
   \<Rightarrow> ('f, 'd, ('u, 'v) socket, 'w, 'b) kworld \<Rightarrow> (u8 list res \<times> ('f, 'd, ('u, 'v) socket, 'w, 'b) kworld) option" where
  "file_read D E obj n W =
     (case obj of
        FFile f path \<Rightarrow> Some (dev_call (fs_file_read D f n) W)
      | FDirectory d path ent \<Rightarrow> Some (directory_read, W)
      | FPipe r b \<Rightarrow>
          (case pipe_bufs (k_files W) b of
             None \<Rightarrow> Some (Inl Panic, W)
           | Some sh \<Rightarrow> map_option (\<lambda>(res, sh). (res, set_pipe b sh W)) (pipe_read r (w_pipe E) n sh))
      | FSocket s \<Rightarrow> Some (dev_call (socket_read (net D) s n) W)
      | FStdin \<Rightarrow> map_option (\<lambda>(res, s). (res, W\<lparr>k_stdin := s\<rparr>)) (stdin_read (stdin_reader D) (w_keys E) n (k_stdin W))
      | FStdout \<Rightarrow> Some (stdout_read, W)
      | FEpoll evs \<Rightarrow> Some (epoll_read, W))"

definition file_write ::
  "('f, 'u, 'v, 'w, 'b) dev_ops \<Rightarrow> wait_env \<Rightarrow> ('f, 'd, ('u, 'v) socket) file_obj \<Rightarrow> u8 list
   \<Rightarrow> ('f, 'd, ('u, 'v) socket, 'w, 'b) kworld \<Rightarrow> (nat res \<times> ('f, 'd, ('u, 'v) socket, 'w, 'b) kworld) option" where
  "file_write D E obj buf W =
     (case obj of
        FFile f path \<Rightarrow> Some (dev_call (fs_file_write D f buf) W)
      | FDirectory d path ent \<Rightarrow> Some (directory_write, W)
      | FPipe r b \<Rightarrow>
          (case pipe_bufs (k_files W) b of
             None \<Rightarrow> Some (Inl Panic, W)
           | Some sh \<Rightarrow> map_option (\<lambda>(res, sh). (res, set_pipe b sh W)) (pipe_write r (w_pipe E) buf sh))
      | FSocket s \<Rightarrow> Some (dev_call (socket_write (net D) s buf) W)
      | FStdin \<Rightarrow> Some (stdin_write, W)
      | FStdout \<Rightarrow> Some (dev_call (stdout_write (con D) buf) W)
      | FEpoll evs \<Rightarrow> Some (epoll_write, W))"

text \<open>The methods with a default that only regular files override, and \<open>set_nonblocking\<close>.\<close>

definition obj_read_at ::
  "('f, 'u, 'v, 'w, 'b) dev_ops \<Rightarrow> ('f, 'd, ('u, 'v) socket) file_obj \<Rightarrow> u64 \<Rightarrow> nat
   \<Rightarrow> ('f, 'd, ('u, 'v) socket, 'w, 'b) kworld \<Rightarrow> u8 list res \<times> ('f, 'd, ('u, 'v) socket, 'w, 'b) kworld" where
  "obj_read_at D obj offset n W =
     (case obj of FFile f path \<Rightarrow> dev_call (fs_file_read_at D f offset n) W | _ \<Rightarrow> (Inl (Errno ESPIPE), W))"

definition obj_write_at ::
  "('f, 'u, 'v, 'w, 'b) dev_ops \<Rightarrow> ('f, 'd, ('u, 'v) socket) file_obj \<Rightarrow> u64 \<Rightarrow> u8 list
   \<Rightarrow> ('f, 'd, ('u, 'v) socket, 'w, 'b) kworld \<Rightarrow> nat res \<times> ('f, 'd, ('u, 'v) socket, 'w, 'b) kworld" where
  "obj_write_at D obj offset buf W =
     (case obj of FFile f path \<Rightarrow> dev_call (fs_file_write_at D f offset buf) W | _ \<Rightarrow> (Inl (Errno ESPIPE), W))"

definition obj_truncate ::
  "('f, 'u, 'v, 'w, 'b) dev_ops \<Rightarrow> ('f, 'd, ('u, 'v) socket) file_obj \<Rightarrow> u64
   \<Rightarrow> ('f, 'd, ('u, 'v) socket, 'w, 'b) kworld \<Rightarrow> unit res \<times> ('f, 'd, ('u, 'v) socket, 'w, 'b) kworld" where
  "obj_truncate D obj len W =
     (case obj of FFile f path \<Rightarrow> dev_call (fs_file_truncate D f len) W | _ \<Rightarrow> (Inl (Errno EINVAL), W))"

definition obj_fsync ::
  "('f, 'u, 'v, 'w, 'b) dev_ops \<Rightarrow> ('f, 'd, ('u, 'v) socket) file_obj
   \<Rightarrow> ('f, 'd, ('u, 'v) socket, 'w, 'b) kworld \<Rightarrow> unit res \<times> ('f, 'd, ('u, 'v) socket, 'w, 'b) kworld" where
  "obj_fsync D obj W =
     (case obj of FFile f path \<Rightarrow> dev_call (fs_file_fsync D f) W | _ \<Rightarrow> (Inl (Errno EINVAL), W))"

definition obj_set_nonblocking ::
  "('f, 'u, 'v, 'w, 'b) dev_ops \<Rightarrow> ('f, 'd, ('u, 'v) socket) file_obj \<Rightarrow> bool
   \<Rightarrow> ('f, 'd, ('u, 'v) socket, 'w, 'b) kworld \<Rightarrow> unit res \<times> ('f, 'd, ('u, 'v) socket, 'w, 'b) kworld" where
  "obj_set_nonblocking D obj nb W =
     (case obj of
        FSocket s \<Rightarrow> dev_call (socket_set_nonblocking (net D) s nb) W
      | FFile f path \<Rightarrow> (fs_file_set_nonblocking nb, W)
      | FDirectory d path ent \<Rightarrow> (directory_set_nonblocking nb, W)
      | FPipe r b \<Rightarrow> (pipe_set_nonblocking nb, W)
      | FStdin \<Rightarrow> (stdin_set_nonblocking nb, W)
      | FStdout \<Rightarrow> (stdout_set_nonblocking nb, W)
      | FEpoll evs \<Rightarrow> (epoll_set_nonblocking nb, W))"

text \<open>The methods on references into the heap of objects; a reference without an object does not occur and
  is marked as a panic.\<close>

definition on_obj ::
  "(('f, 'd, 's) file_obj \<Rightarrow> ('f, 'd, 's, 'w, 'b) kworld \<Rightarrow> 'a res \<times> ('f, 'd, 's, 'w, 'b) kworld) \<Rightarrow> arc
   \<Rightarrow> ('f, 'd, 's, 'w, 'b) kworld \<Rightarrow> 'a res \<times> ('f, 'd, 's, 'w, 'b) kworld" where
  "on_obj m a W = (case objs (k_files W) a of None \<Rightarrow> (Inl Panic, W) | Some obj \<Rightarrow> m obj W)"

text \<open>The operations the calls of \<open>Io\<close> use. A read or write that waits for ever has no result: the value
  is then unspecified, and every statement below speaks of calls that return.\<close>

definition obj_io ::
  "('f, 'u, 'v, 'w, 'b) dev_ops \<Rightarrow> wait_env \<Rightarrow> (arc, ('f, 'd, ('u, 'v) socket, 'w, 'b) kworld) io_ops" where
  "obj_io D E =
     \<lparr>io_read = (\<lambda>a n. on_obj (\<lambda>obj W. the (file_read D E obj n W)) a),
      io_write = (\<lambda>a buf. on_obj (\<lambda>obj W. the (file_write D E obj buf W)) a),
      io_read_at = (\<lambda>a offset n. on_obj (\<lambda>obj. obj_read_at D obj offset n) a),
      io_write_at = (\<lambda>a offset buf. on_obj (\<lambda>obj. obj_write_at D obj offset buf) a),
      io_truncate = (\<lambda>a len. on_obj (\<lambda>obj. obj_truncate D obj len) a),
      io_fsync = (\<lambda>a. on_obj (obj_fsync D) a),
      io_seek = (\<lambda>a pos. on_obj (\<lambda>obj W. case obj of
          FFile f path \<Rightarrow> dev_call (\<lambda>w. ax_map id (h_seek D f pos w)) W
        | _ \<Rightarrow> (Inl (Errno EINVAL), W)) a)\<rparr>"

section \<open>The invariant of the file layer\<close>

text \<open>A descriptor refers to an object, a pipe end to a buffer, and every buffer satisfies the invariant of
  the ring.\<close>

definition pipes_ok :: "('f, 'd, 's) files \<Rightarrow> bool" where
  "pipes_ok fs \<longleftrightarrow>
     (\<forall>a r b. objs fs a = Some (FPipe r b) \<longrightarrow> pipe_bufs fs b \<noteq> None) \<and>
     (\<forall>b sh. pipe_bufs fs b = Some sh \<longrightarrow> ring_inv (buffer sh))"

definition files_ok ::
  "('t, arc) flatten_ops \<Rightarrow> ('t \<Rightarrow> bool) \<Rightarrow> ('f, 'd, 's, 'w, 'b) kworld \<Rightarrow> 't \<Rightarrow> bool" where
  "files_ok F okt W t \<longleftrightarrow> okt t \<and> ran (fo_get F t) \<subseteq> dom (objs (k_files W)) \<and> pipes_ok (k_files W)"

definition env_ok :: "wait_env \<Rightarrow> bool" where
  "env_ok E \<longleftrightarrow> (\<forall>f \<in> set (w_pipe E). \<forall>sh. ring_inv (buffer sh) \<longrightarrow> ring_inv (buffer (f sh)))"

subsection \<open>Pipes\<close>

lemma pipe_read_loop_safe:
  assumes "ring_inv (buffer sh)" "0 < n" "\<forall>f \<in> set env. \<forall>sh. ring_inv (buffer sh) \<longrightarrow> ring_inv (buffer (f sh))"
    and "pipe_read_loop env n sh = Some (r, sh')"
  shows "r \<noteq> Inl Panic \<and> ring_inv (buffer sh')"
  using assms
proof (induction env arbitrary: sh)
  case Nil
  obtain bytes rb where "pipe_read_iter n sh = Inr (bytes, sh\<lparr>buffer := rb\<rparr>)" "ring_inv rb"
    using pipe_read_iter_cases [OF Nil.prems(1,2)] by metis
  then show ?case using Nil.prems(4) by (auto split: option.splits)
next
  case (Cons f env)
  obtain bytes rb where "pipe_read_iter n sh = Inr (bytes, sh\<lparr>buffer := rb\<rparr>)" "ring_inv rb"
    using pipe_read_iter_cases [OF Cons.prems(1,2)] by metis
  moreover from this have "ring_inv (buffer (f (sh\<lparr>buffer := rb\<rparr>)))" using Cons.prems(3) by simp
  ultimately show ?case using Cons.prems(2-4) Cons.IH [of "f (sh\<lparr>buffer := rb\<rparr>)"] by (cases bytes) auto
qed

lemma pipe_write_loop_safe:
  assumes "ring_inv (buffer sh)" "ws \<le> length buf"
    "\<forall>f \<in> set env. \<forall>sh. ring_inv (buffer sh) \<longrightarrow> ring_inv (buffer (f sh))"
    and "pipe_write_loop env buf ws sh = Some (r, sh')"
  shows "r \<noteq> Inl Panic \<and> ring_inv (buffer sh')"
  using assms
proof (induction env arbitrary: sh ws)
  case Nil
  obtain fin ws' rb where "pipe_write_iter buf ws sh = Inr (fin, ws', sh\<lparr>buffer := rb\<rparr>)" "ring_inv rb"
    using pipe_write_iter_cases [OF Nil.prems(1,2)] by metis
  then show ?case using Nil.prems(4) by (auto split: bool.splits)
next
  case (Cons f env)
  obtain fin ws' rb where "pipe_write_iter buf ws sh = Inr (fin, ws', sh\<lparr>buffer := rb\<rparr>)" "ring_inv rb" "ws' \<le> length buf"
    using pipe_write_iter_cases [OF Cons.prems(1,2)] by metis
  moreover from this have "ring_inv (buffer (f (sh\<lparr>buffer := rb\<rparr>)))" using Cons.prems(3) by simp
  ultimately show ?case using Cons.prems(3,4) Cons.IH [of "f (sh\<lparr>buffer := rb\<rparr>)" ws'] by (cases fin) auto
qed

lemma pipe_read_safe:
  assumes "ring_inv (buffer sh)" "env_ok E" "pipe_read e (w_pipe E) n sh = Some (r, sh')"
  shows "r \<noteq> Inl Panic \<and> ring_inv (buffer sh')"
  using assms pipe_read_loop_safe [OF assms(1), where n = n and env = "w_pipe E" and r = r and sh' = sh']
  by (auto simp: pipe_read_def env_ok_def split: if_splits)

lemma pipe_write_safe:
  assumes "ring_inv (buffer sh)" "env_ok E" "pipe_write e (w_pipe E) buf sh = Some (r, sh')"
  shows "r \<noteq> Inl Panic \<and> ring_inv (buffer sh')"
  using assms pipe_write_loop_safe [OF assms(1), where ws = 0 and env = "w_pipe E" and buf = buf and r = r and sh' = sh']
  by (auto simp: pipe_write_def env_ok_def split: if_splits)

subsection \<open>Reading and writing objects\<close>

lemma dev_call_files [simp]: "k_files (snd (dev_call f W)) = k_files W"
  by (simp add: dev_call_def split: prod.splits)

lemma dev_call_no_panic: "(\<And>w. fst (f w) \<noteq> Inl Panic) \<Longrightarrow> fst (dev_call f W) \<noteq> Inl Panic"
  by (simp add: dev_call_def split: prod.splits) (metis fst_conv)

lemma set_pipe_files [simp]:
  "objs (k_files (set_pipe b sh W)) = objs (k_files W)"
  "pipe_bufs (k_files (set_pipe b sh W)) = (pipe_bufs (k_files W))(b \<mapsto> sh)"
  by (simp_all add: set_pipe_def)

lemma pipes_ok_set_pipe:
  "pipes_ok (k_files W) \<Longrightarrow> ring_inv (buffer sh) \<Longrightarrow> pipes_ok (k_files (set_pipe b sh W))"
  by (auto simp: pipes_ok_def)

lemma read_blocked_no_panic: "read_blocked R typed n s = Some (r, s') \<Longrightarrow> r \<noteq> Inl Panic"
proof -
  have retry: "stdin_retry R typed n s = Some (r, s') \<Longrightarrow> r \<noteq> Inl Panic" for s
    by (induction typed arbitrary: s; subst (asm) stdin_retry.simps)
      (auto split: prod.splits sum.splits if_splits)
  assume "read_blocked R typed n s = Some (r, s')"
  with retry show ?thesis by (auto simp: read_blocked_def split: prod.splits sum.splits if_splits)
qed

definition keeps_files :: "('f, 'd, 's, 'w, 'b) kworld \<Rightarrow> ('f, 'd, 's, 'w, 'b) kworld \<Rightarrow> bool" where
  "keeps_files W W' \<longleftrightarrow> objs (k_files W') = objs (k_files W) \<and> pipes_ok (k_files W')"

lemma file_read_safe:
  assumes "pipes_ok (k_files W)" "objs (k_files W) a = Some obj" "env_ok E" "file_read D E obj n W = Some (r, W')"
  shows "r \<noteq> Inl Panic \<and> keeps_files W W'"
proof (cases obj)
  case (FPipe e b)
  with assms(1,2) obtain sh where sh: "pipe_bufs (k_files W) b = Some sh" "ring_inv (buffer sh)"
    unfolding pipes_ok_def by blast
  with assms FPipe obtain sh' where "pipe_read e (w_pipe E) n sh = Some (r, sh')" "W' = set_pipe b sh' W"
    by (auto simp: file_read_def)
  then show ?thesis
    using pipe_read_safe [OF sh(2) assms(3)] pipes_ok_set_pipe [OF assms(1)] by (auto simp: keeps_files_def)
next
  case (FFile f p)
  then have "(r, W') = dev_call (\<lambda>w. ax_map id (h_read D f n w)) W" using assms(4) by (simp add: file_read_def)
  then show ?thesis using assms(1) dev_call_files dev_call_no_panic ax_map_no_panic
    by (metis fst_conv snd_conv keeps_files_def)
next
  case (FSocket so)
  then have "(r, W') = dev_call (socket_recv (net D) so n) W" using assms(4) by (simp add: file_read_def)
  then show ?thesis using assms(1) dev_call_files dev_call_no_panic socket_recv_no_panic
    by (metis fst_conv snd_conv keeps_files_def)
next
  case FStdin
  then show ?thesis using assms(1,4) by (auto simp: file_read_def keeps_files_def dest: read_blocked_no_panic)
qed (use assms in \<open>auto simp: file_read_def keeps_files_def\<close>)

lemma file_write_safe:
  assumes "pipes_ok (k_files W)" "objs (k_files W) a = Some obj" "env_ok E" "file_write D E obj buf W = Some (r, W')"
  shows "r \<noteq> Inl Panic \<and> keeps_files W W'"
proof (cases obj)
  case (FPipe e b)
  with assms(1,2) obtain sh where sh: "pipe_bufs (k_files W) b = Some sh" "ring_inv (buffer sh)"
    unfolding pipes_ok_def by blast
  with assms FPipe obtain sh' where "pipe_write e (w_pipe E) buf sh = Some (r, sh')" "W' = set_pipe b sh' W"
    by (auto simp: file_write_def)
  then show ?thesis
    using pipe_write_safe [OF sh(2) assms(3)] pipes_ok_set_pipe [OF assms(1)] by (auto simp: keeps_files_def)
next
  case (FFile f p)
  then have "(r, W') = dev_call (\<lambda>w. ax_map id (h_write D f buf w)) W" using assms(4) by (simp add: file_write_def)
  then show ?thesis using assms(1) dev_call_files dev_call_no_panic ax_map_no_panic
    by (metis fst_conv snd_conv keeps_files_def)
next
  case (FSocket so)
  then have "(r, W') = dev_call (socket_send (net D) so buf) W" using assms(4) by (simp add: file_write_def)
  then show ?thesis using assms(1) dev_call_files dev_call_no_panic socket_send_no_panic
    by (metis fst_conv snd_conv keeps_files_def)
next
  case FStdout
  then have "(r, W') = dev_call (stdout_raw_write (con D) buf) W" using assms(4) by (simp add: file_write_def)
  then show ?thesis using assms(1)
    by (auto simp: keeps_files_def dev_call_def stdout_raw_write_def console_write_bytes_def)
qed (use assms in \<open>auto simp: file_write_def keeps_files_def\<close>)

subsection \<open>The descriptor table\<close>

text \<open>No call on the table adds a reference that was not there, except the one it is given.\<close>

definition table_step :: "('t, arc) flatten_ops \<Rightarrow> ('t \<Rightarrow> bool) \<Rightarrow> arc set \<Rightarrow> 't \<Rightarrow> 't \<Rightarrow> bool" where
  "table_step F okt A t t' \<longleftrightarrow> okt t' \<and> ran (fo_get F t') \<subseteq> ran (fo_get F t) \<union> A"

lemma ran_upd_subset: "ran (m(i \<mapsto> x)) \<subseteq> ran m \<union> {x}" "ran (m(i := None)) \<subseteq> ran m"
  by (auto simp: ran_def split: if_splits)

lemma add_file_like_table:
  assumes "flatten_spec F okt" "okt t" "add_file_like F t a = (r, t')"
  shows "table_step F okt {a} t t'"
proof (cases "fo_add F t a")
  case None
  with assms show ?thesis by (auto simp: add_file_like_def table_step_def)
next
  case (Some p)
  then obtain i where "fo_add F t a = Some (i, t')"
    using assms(3) by (cases p) (simp add: add_file_like_def)
  from flatten_add(3,4) [OF assms(1,2) this] show ?thesis
    by (auto simp: table_step_def dest!: subsetD [OF ran_upd_subset(1)])
qed

lemma close_file_like_table:
  assumes "flatten_spec F okt" "okt t" "close_file_like F t fd = (r, t')"
  shows "table_step F okt {} t t'"
proof -
  have "t' = t \<or> t' = snd (fo_remove F t (fd_index fd))"
    using assms(3) by (auto simp: close_file_like_def split: prod.splits option.splits)
  then show ?thesis
    using flatten_remove [OF assms(1,2), of "fd_index fd"] assms(2)
    by (auto simp: table_step_def dest!: subsetD [OF ran_upd_subset(2)])
qed

lemma dup_fd_table:
  assumes "flatten_spec F okt" "okt t" "dup_fd F t fd = (r, t')"
  shows "table_step F okt {} t t'"
proof (cases "get_file_like F t fd")
  case (Inl e)
  with assms show ?thesis by (simp add: dup_fd_def table_step_def)
next
  case (Inr a)
  then have a: "a \<in> ran (fo_get F t)" by (auto simp: get_file_like_def ran_def res_simps)
  obtain r1 t1 where add: "add_file_like F t a = (r1, t1)" by fastforce
  then have "t' = t1" using assms(3) Inr by (cases r1) (auto simp: dup_fd_def)
  with add_file_like_table [OF assms(1,2) add] a show ?thesis by (auto simp: table_step_def)
qed

lemma sys_dup2_table:
  assumes "flatten_spec F okt" "okt t" "sys_dup2 F t fd fd' = (r, t')"
  shows "table_step F okt {} t t'"
proof (cases "fo_get F t (fd_index fd)")
  case None
  with assms show ?thesis by (simp add: sys_dup2_def table_step_def)
next
  case (Some a)
  let ?t = "snd (fo_remove F t (fd_index fd'))"
  note rm = flatten_remove [OF assms(1,2), of "fd_index fd'"]
  have a: "a \<in> ran (fo_get F t)" using Some by (auto simp: ran_def)
  have "t' = t \<or> t' = ?t \<or> (okt t' \<and> fo_get F t' = (fo_get F ?t)(fd_index fd' \<mapsto> a))"
    using assms(3) Some flatten_add_at [OF assms(1) rm(2), of "fd_index fd'" a]
    by (cases "fd_index fd' < AX_FILE_LIMIT")
      (auto simp: sys_dup2_def Let_def rm(3) split: if_splits)
  then show ?thesis
    using a rm assms(2) ran_upd_subset [of "fo_get F t" "fd_index fd'"] ran_upd_subset(1) [of "fo_get F ?t" "fd_index fd'" a]
    unfolding table_step_def by fastforce
qed

lemma files_ok_table:
  "files_ok F okt W t \<Longrightarrow> table_step F okt {} t t' \<Longrightarrow> files_ok F okt W t'"
  by (auto simp: files_ok_def table_step_def)

lemma table_calls_ok:
  assumes "flatten_spec F okt" "files_ok F okt W t"
  shows "close_file_like F t fd = (r, t') \<Longrightarrow> files_ok F okt W t'"
    "dup_fd F t fd = (rc, t') \<Longrightarrow> files_ok F okt W t'"
    "sys_dup2 F t fd fd' = (rc, t') \<Longrightarrow> files_ok F okt W t'"
proof -
  have "okt t" using assms(2) by (simp add: files_ok_def)
  note t = this
  show "close_file_like F t fd = (r, t') \<Longrightarrow> files_ok F okt W t'"
    by (rule files_ok_table [OF assms(2) close_file_like_table [OF assms(1) t]])
  show "dup_fd F t fd = (rc, t') \<Longrightarrow> files_ok F okt W t'"
    by (rule files_ok_table [OF assms(2) dup_fd_table [OF assms(1) t]])
  show "sys_dup2 F t fd fd' = (rc, t') \<Longrightarrow> files_ok F okt W t'"
    by (rule files_ok_table [OF assms(2) sys_dup2_table [OF assms(1) t]])
qed

lemma sys_pipe2_files_ok:
  assumes "flatten_spec F okt" "files_ok F okt W t" "a \<noteq> b" "{a, b} \<inter> dom (objs (k_files W)) = {}"
    "c \<notin> dom (pipe_bufs (k_files W))"
    and call: "sys_pipe2 F (a, b, c) user (k_files W, t) = (r, (fs', t'))"
  shows "files_ok F okt (W\<lparr>k_files := fs'\<rparr>) t'"
proof -
  have ok: "okt t" "ran (fo_get F t) \<subseteq> dom (objs (k_files W))" "pipes_ok (k_files W)"
    using assms(2) by (auto simp: files_ok_def)
  note out = sys_pipe2_outcome [OF assms(1) ok(1) assms(3), where c = c and user = user and fs = "k_files W"]
  show ?thesis
  proof (cases r)
    case (Inl e)
    with out call ok show ?thesis by (simp add: files_ok_def)
  next
    case (Inr p)
    with out call obtain rfd wfd where o: "okt t'" "fo_get F t' = (fo_get F t)(fd_index rfd \<mapsto> a, fd_index wfd \<mapsto> b)"
      "objs fs' = (objs (k_files W))(a \<mapsto> FPipe True c, b \<mapsto> FPipe False c)"
      "pipe_bufs fs' = (pipe_bufs (k_files W))(c \<mapsto> \<lparr>buffer = ring_new, strong_count = 2\<rparr>)"
      by (cases p) auto
    have "ran (fo_get F t') \<subseteq> dom (objs fs')"
      using ok(2) unfolding o(2,3) by (auto dest!: subsetD [OF ran_upd_subset(1)])
    moreover have "pipes_ok fs'" using ok(3) unfolding pipes_ok_def o(3,4) by auto
    ultimately show ?thesis using o(1) by (simp add: files_ok_def)
  qed
qed

subsection \<open>Methods that only reach external handles\<close>

lemma dev_methods_files [simp]:
  "k_files (snd (obj_read_at D obj off n W)) = k_files W" "k_files (snd (obj_write_at D obj off bs W)) = k_files W"
  "k_files (snd (obj_truncate D obj len W)) = k_files W" "k_files (snd (obj_fsync D obj W)) = k_files W"
  "k_files (snd (obj_set_nonblocking D obj nb W)) = k_files W"
  by (auto simp: obj_read_at_def obj_write_at_def obj_truncate_def obj_fsync_def obj_set_nonblocking_def
      split: file_obj.splits)

lemma files_ok_cong: "files_ok F okt W t \<Longrightarrow> k_files W' = k_files W \<Longrightarrow> files_ok F okt W' t"
  by (simp add: files_ok_def)

lemma on_obj_files:
  assumes "\<And>obj. k_files (snd (m obj W)) = k_files W"
  shows "k_files (snd (on_obj m a W)) = k_files W"
  using assms by (simp add: on_obj_def split: option.splits)

section \<open>The calls together\<close>

definition read_returns ::
  "('t, arc) flatten_ops \<Rightarrow> ('f, 'u, 'v, 'w, 'b) dev_ops \<Rightarrow> wait_env \<Rightarrow> 't
   \<Rightarrow> ('f, 'd, ('u, 'v) socket, 'w, 'b) kworld \<Rightarrow> i32 \<Rightarrow> nat \<Rightarrow> bool" where
  "read_returns F D E t W fd n =
     (case obj_of_fd F (objs (k_files W)) t fd of Inl e \<Rightarrow> True | Inr (a, obj) \<Rightarrow> file_read D E obj n W \<noteq> None)"

definition write_returns ::
  "('t, arc) flatten_ops \<Rightarrow> ('f, 'u, 'v, 'w, 'b) dev_ops \<Rightarrow> wait_env \<Rightarrow> 't
   \<Rightarrow> ('f, 'd, ('u, 'v) socket, 'w, 'b) kworld \<Rightarrow> i32 \<Rightarrow> u8 list \<Rightarrow> bool" where
  "write_returns F D E t W fd bs =
     (case obj_of_fd F (objs (k_files W)) t fd of Inl e \<Rightarrow> True | Inr (a, obj) \<Rightarrow> file_write D E obj bs W \<noteq> None)"

lemma fd_object:
  assumes "files_ok F okt W t" "get_file_like F t fd = Inr a"
  obtains obj where "objs (k_files W) a = Some obj" "obj_of_fd F (objs (k_files W)) t fd = Inr (a, obj)"
proof -
  have "a \<in> ran (fo_get F t)" using assms(2) by (auto simp: get_file_like_def ran_def res_simps)
  then obtain obj where "objs (k_files W) a = Some obj" using assms(1) by (auto simp: files_ok_def)
  then show ?thesis using that assms(2) by (simp add: obj_of_fd_def)
qed

lemma keeps_files_ok: "files_ok F okt W t \<Longrightarrow> keeps_files W W' \<Longrightarrow> files_ok F okt W' t"
  by (simp add: files_ok_def keeps_files_def)

lemma sys_read_safe:
  assumes "files_ok F okt W t" "env_ok E" "read_returns F D E t W fd (unat len)"
    and "\<And>b l. chk b l \<noteq> Inl Panic"
  shows "fst (sys_read F (obj_io D E) t chk fd buf len \<lparr>world = W, stores = st\<rparr>) \<noteq> Inl Panic"
    "files_ok F okt (world (snd (sys_read F (obj_io D E) t chk fd buf len \<lparr>world = W, stores = st\<rparr>))) t"
proof -
  let ?call = "sys_read F (obj_io D E) t chk fd buf len \<lparr>world = W, stores = st\<rparr>"
  have "fst ?call \<noteq> Inl Panic \<and> files_ok F okt (world (snd ?call)) t"
  proof (cases "rbind (chk buf len) (\<lambda>_. get_file_like F t fd)")
    case (Inl e)
    then have "e \<noteq> Panic" using assms(4) by (auto simp: get_file_like_def res_simps ok_or_def split: option.splits)
    with Inl assms(1) show ?thesis by (simp add: sys_read_def)
  next
    case (Inr a)
    then obtain obj where obj: "objs (k_files W) a = Some obj" "obj_of_fd F (objs (k_files W)) t fd = Inr (a, obj)"
      using fd_object [OF assms(1)] by (auto simp: res_simps)
    obtain r W' where r: "file_read D E obj (unat len) W = Some (r, W')"
      using assms(3) obj(2) by (auto simp: read_returns_def)
    have "r \<noteq> Inl Panic \<and> keeps_files W W'"
      using file_read_safe [OF _ obj(1) assms(2) r] assms(1) by (simp add: files_ok_def)
    with r obj(1) Inr keeps_files_ok [OF assms(1)] show ?thesis
      by (cases r) (auto simp: sys_read_def on_world_def obj_io_def on_obj_def)
  qed
  then show "fst ?call \<noteq> Inl Panic" "files_ok F okt (world (snd ?call)) t" by blast+
qed

lemma sys_write_safe:
  assumes "files_ok F okt W t" "env_ok E" "\<And>bs. load buf len = Inr bs \<Longrightarrow> write_returns F D E t W fd bs"
    and "\<And>b l. load b l \<noteq> Inl Panic"
  shows "fst (sys_write F (obj_io D E) t load fd buf len \<lparr>world = W, stores = st\<rparr>) \<noteq> Inl Panic"
    "files_ok F okt (world (snd (sys_write F (obj_io D E) t load fd buf len \<lparr>world = W, stores = st\<rparr>))) t"
proof -
  let ?call = "sys_write F (obj_io D E) t load fd buf len \<lparr>world = W, stores = st\<rparr>"
  have "fst ?call \<noteq> Inl Panic \<and> files_ok F okt (world (snd ?call)) t"
  proof (cases "rbind (load buf len) (\<lambda>bs. rbind (get_file_like F t fd) (\<lambda>f. Inr (f, bs)))")
    case (Inl e)
    then have "e \<noteq> Panic" using assms(4) by (auto simp: get_file_like_def res_simps ok_or_def split: option.splits)
    with Inl assms(1) show ?thesis by (simp add: sys_write_def)
  next
    case (Inr p)
    then obtain a bs where p: "p = (a, bs)" "load buf len = Inr bs" "get_file_like F t fd = Inr a"
      by (auto simp: res_simps)
    then obtain obj where obj: "objs (k_files W) a = Some obj" "obj_of_fd F (objs (k_files W)) t fd = Inr (a, obj)"
      using fd_object [OF assms(1)] by metis
    obtain r W' where r: "file_write D E obj bs W = Some (r, W')"
      using assms(3) [OF p(2)] obj(2) by (auto simp: write_returns_def)
    have "r \<noteq> Inl Panic \<and> keeps_files W W'"
      using file_write_safe [OF _ obj(1) assms(2) r] assms(1) by (simp add: files_ok_def)
    with r obj(1) p Inr keeps_files_ok [OF assms(1)] show ?thesis
      by (cases r) (auto simp: sys_write_def on_world_def obj_io_def on_obj_def)
  qed
  then show "fst ?call \<noteq> Inl Panic" "files_ok F okt (world (snd ?call)) t" by blast+
qed

text \<open>One call of any process on the file layer: the table \<open>t\<close> is that of the caller. Calls that allocate
  take fresh references; calls that transfer data have returned.\<close>

inductive file_step ::
  "('t, arc) flatten_ops \<Rightarrow> ('f, 'u, 'v, 'w, 'b) dev_ops \<Rightarrow> ('f, 'd, ('u, 'v) socket, 'w, 'b) kworld \<times> 't
   \<Rightarrow> ('f, 'd, ('u, 'v) socket, 'w, 'b) kworld \<times> 't \<Rightarrow> bool"
  for F D where
  step_pipe2: "a \<noteq> b \<Longrightarrow> {a, b} \<inter> dom (objs (k_files W)) = {} \<Longrightarrow> c \<notin> dom (pipe_bufs (k_files W)) \<Longrightarrow>
     sys_pipe2 F (a, b, c) user (k_files W, t) = (r, (fs', t')) \<Longrightarrow> file_step F D (W, t) (W\<lparr>k_files := fs'\<rparr>, t')"
| step_close: "sys_close F t fd = (rc, t') \<Longrightarrow> file_step F D (W, t) (W, t')"
| step_dup: "sys_dup F t fd = (rc, t') \<Longrightarrow> file_step F D (W, t) (W, t')"
| step_dup2: "sys_dup2 F t fd fd' = (rc, t') \<Longrightarrow> file_step F D (W, t) (W, t')"
| step_fcntl: "sys_fcntl F (\<lambda>a nb. on_obj (\<lambda>obj. obj_set_nonblocking D obj nb) a) (t, W) fd cmd arg = (rc, (t', W')) \<Longrightarrow>
     file_step F D (W, t) (W', t')"
| step_read: "env_ok E \<Longrightarrow> (\<And>b l. chk b l \<noteq> Inl Panic) \<Longrightarrow> read_returns F D E t W fd (unat len) \<Longrightarrow>
     sys_read F (obj_io D E) t chk fd buf len \<lparr>world = W, stores = st\<rparr> = (rn, s') \<Longrightarrow> file_step F D (W, t) (world s', t)"
| step_write: "env_ok E \<Longrightarrow> (\<And>b l. load b l \<noteq> Inl Panic) \<Longrightarrow> (\<And>bs. load buf len = Inr bs \<Longrightarrow> write_returns F D E t W fd bs) \<Longrightarrow>
     sys_write F (obj_io D E) t load fd buf len \<lparr>world = W, stores = st\<rparr> = (rn, s') \<Longrightarrow> file_step F D (W, t) (world s', t)"
| step_pread64: "sys_pread64 F (obj_io D E) t chk fd buf len off \<lparr>world = W, stores = st\<rparr> = (rn, s') \<Longrightarrow>
     file_step F D (W, t) (world s', t)"
| step_pwrite64: "sys_pwrite64 F (obj_io D E) t load fd buf len off \<lparr>world = W, stores = st\<rparr> = (rn, s') \<Longrightarrow>
     file_step F D (W, t) (world s', t)"
| step_ftruncate: "sys_ftruncate F (obj_io D E) t fd off W = (rc, W') \<Longrightarrow> file_step F D (W, t) (W', t)"
| step_fsync: "sys_fsync F (obj_io D E) t fd W = (rc, W') \<Longrightarrow> file_step F D (W, t) (W', t)"

lemma transfer_at_files:
  "k_files (world (snd (sys_pread64 F (obj_io D E) t chk fd buf len off s))) = k_files (world s)"
  "k_files (world (snd (sys_pwrite64 F (obj_io D E) t load fd buf len off s))) = k_files (world s)"
  "k_files (snd (sys_ftruncate F (obj_io D E) t fd len' W)) = k_files W"
  "k_files (snd (sys_fsync F (obj_io D E) t fd W)) = k_files W"
proof -
  have w: "k_files (world (snd (on_world f s))) = k_files (world s)"
    if "k_files (snd (f (world s))) = k_files (world s)" for f :: "_ \<Rightarrow> 'z res \<times> _" and s
    using that by (cases "f (world s)") (simp add: on_world_def)
  have b: "k_files (world (snd (sbind p g))) = k_files (world (snd p))"
    if "\<And>x s. k_files (world (snd (g x s))) = k_files (world s)" for p :: "'y res \<times> _" and g :: "_ \<Rightarrow> _ \<Rightarrow> 'z res \<times> _"
    using that by (cases p; cases "fst p") auto
  have b': "k_files (snd (sbind p g)) = k_files (snd p)"
    if "\<And>x W. k_files (snd (g x W)) = k_files W" for p :: "'y res \<times> _" and g :: "_ \<Rightarrow> _ \<Rightarrow> 'z res \<times> _"
    using that by (cases p; cases "fst p") auto
  show "k_files (world (snd (sys_pread64 F (obj_io D E) t chk fd buf len off s))) = k_files (world s)"
    unfolding sys_pread64_def by (subst b) (auto simp: b w obj_io_def on_obj_files)
  show "k_files (world (snd (sys_pwrite64 F (obj_io D E) t load fd buf len off s))) = k_files (world s)"
    unfolding sys_pwrite64_def by (subst b) (auto simp: w obj_io_def on_obj_files split: prod.splits)
  show "k_files (snd (sys_ftruncate F (obj_io D E) t fd len' W)) = k_files W"
    unfolding sys_ftruncate_def by (subst b') (auto simp: b' obj_io_def on_obj_files)
  show "k_files (snd (sys_fsync F (obj_io D E) t fd W)) = k_files W"
    unfolding sys_fsync_def by (subst b') (auto simp: b' obj_io_def on_obj_files)
qed

lemma sys_fcntl_files_ok:
  assumes "flatten_spec F okt" "files_ok F okt W t"
    and "sys_fcntl F (\<lambda>a nb. on_obj (\<lambda>obj. obj_set_nonblocking D obj nb) a) (t, W) fd cmd arg = (r, (t', W'))"
  shows "files_ok F okt W' t'"
proof (cases "cmd = 0 \<or> cmd = 1030")
  case True
  then have "dup_fd F t fd = (r, t')" "W' = W" using assms(3) by (auto simp: sys_fcntl_def split: prod.splits)
  then show ?thesis using table_calls_ok(2) [OF assms(1,2)] by simp
next
  case False
  then have "t' = t" "k_files W' = k_files W"
    using assms(3) on_obj_files [where m = "\<lambda>obj. obj_set_nonblocking D obj (0 < arg AND 0x800)" and W = W]
    by (auto simp: sys_fcntl_def split: if_splits sum.splits prod.splits) (metis dev_methods_files(5) snd_conv)+
  then show ?thesis using files_ok_cong [OF assms(2)] by simp
qed

lemma file_step_ok:
  assumes "flatten_spec F okt" "file_step F D s s'" "files_ok F okt (fst s) (snd s)"
  shows "files_ok F okt (fst s') (snd s')"
  using assms(2,3)
proof cases
  case (step_pipe2 a b W c user t r fs' t')
  then show ?thesis using sys_pipe2_files_ok [OF assms(1)] assms(3) by simp
next
  case (step_close t fd rc t' W)
  obtain r1 where "close_file_like F t fd = (r1, t')"
    using step_close(3) by (cases "close_file_like F t fd"; cases "fst (close_file_like F t fd)") (auto simp: sys_close_def)
  then show ?thesis using table_calls_ok(1) [OF assms(1)] assms(3) step_close(1,2) by simp
next
  case (step_dup t fd rc t' W)
  then show ?thesis using table_calls_ok(2) [OF assms(1)] assms(3) by (simp add: sys_dup_def)
next
  case (step_dup2 t fd fd' rc t' W)
  then show ?thesis using table_calls_ok(3) [OF assms(1)] assms(3) by simp
next
  case (step_fcntl t W fd cmd arg rc t' W')
  then show ?thesis using sys_fcntl_files_ok [OF assms(1)] assms(3) by simp
next
  case (step_read E chk t W fd len buf st rn s')
  then show ?thesis using sys_read_safe(2) [of F okt W t E D fd len chk buf st] assms(3) by simp
next
  case (step_write E load buf len t W fd st rn s')
  then show ?thesis using sys_write_safe(2) [of F okt W t E load buf len D fd st] assms(3) by simp
next
  case (step_pread64 E t chk fd buf len off W st rn s')
  then show ?thesis
    using transfer_at_files(1) [of F D E t chk fd buf len off "\<lparr>world = W, stores = st\<rparr>"] files_ok_cong assms(3) by fastforce
next
  case (step_pwrite64 E t load fd buf len off W st rn s')
  then show ?thesis
    using transfer_at_files(2) [of F D E t load fd buf len off "\<lparr>world = W, stores = st\<rparr>"] files_ok_cong assms(3) by fastforce
next
  case (step_ftruncate E t fd off W rc W')
  then show ?thesis using transfer_at_files(3) [of F D E t fd off W] files_ok_cong assms(3) by fastforce
next
  case (step_fsync E t fd W rc W')
  then show ?thesis using transfer_at_files(4) [of F D E t fd W] files_ok_cong assms(3) by fastforce
qed

text \<open>The file layer after start-up: the console objects at descriptors 0, 1 and 2, and no pipe.\<close>

definition boot_files :: "('f, 'd, 's) files" where
  "boot_files = \<lparr>objs = [0 \<mapsto> FStdin, 1 \<mapsto> FStdout, 2 \<mapsto> FStdout], pipe_bufs = Map.empty\<rparr>"

lemma init_stdio_table:
  assumes "flatten_spec F okt"
  shows "\<exists>t. init_stdio F a b c = Inr t \<and> okt t \<and> fo_get F t = [0 \<mapsto> a, 1 \<mapsto> b, 2 \<mapsto> c]"
proof -
  obtain t0 where t0: "fo_add_at F (fo_new F) 0 a = Some (0, t0)" "okt t0" "fo_get F t0 = [0 \<mapsto> a]"
    using flatten_add_at(1) [OF assms flatten_new(1) [OF assms], of 0 a] flatten_new(2) [OF assms] by auto
  obtain t1 where t1: "fo_add_at F t0 1 b = Some (1, t1)" "okt t1" "fo_get F t1 = [0 \<mapsto> a, 1 \<mapsto> b]"
    using flatten_add_at(1) [OF assms t0(2), of 1 b] t0(3) by auto
  obtain t2 where "fo_add_at F t1 2 c = Some (2, t2)" "okt t2" "fo_get F t2 = [0 \<mapsto> a, 1 \<mapsto> b, 2 \<mapsto> c]"
    using flatten_add_at(1) [OF assms t1(2), of 2 c] t1(3) by auto
  with t0 t1 show ?thesis by (simp add: init_stdio_def)
qed

lemma boot_files_ok:
  assumes "flatten_spec F okt" "init_stdio F 0 1 2 = Inr t" "k_files W = boot_files"
  shows "files_ok F okt W t"
  using init_stdio_table [OF assms(1), of 0 1 2] assms(2,3)
  by (auto simp: files_ok_def pipes_ok_def boot_files_def ran_def split: if_splits)

lemma file_steps_ok:
  assumes "flatten_spec F okt" "(file_step F D)\<^sup>*\<^sup>* s s'" "files_ok F okt (fst s) (snd s)"
  shows "files_ok F okt (fst s') (snd s')"
  using assms(2,3) by (induction rule: rtranclp_induct) (auto dest: file_step_ok [OF assms(1)])


text \<open>Devices without content, for concrete runs: empty files, sockets that deliver nothing, a console that
  collects its output and a keyboard queue.\<close>

definition null_sock :: "(unit, u8 list) sock_ops" where
  "null_sock =
     \<lparr>r_send = (\<lambda>k bs w. (Inr (length bs), w)), r_poll = (\<lambda>k w. Inr \<lparr>ps_readable = False, ps_writable = True\<rparr>),
      r_local_addr = (\<lambda>k w. Inl InvalidInput), r_peer_addr = (\<lambda>k w. Inl InvalidInput), r_bind = (\<lambda>k a w. (Inr (), w)),
      r_connect = (\<lambda>k a w. (Inr (), w)), r_shutdown = (\<lambda>k w. (Inr (), w)), r_set_nonblocking = (\<lambda>k b w. w)\<rparr>"

definition null_dev :: "(unit, unit, unit, u8 list, u8 list) dev_ops" where
  "null_dev =
     \<lparr>h_read = (\<lambda>f n w. (Inr [], w)), h_write = (\<lambda>f bs w. (Inr (length bs), w)), h_read_at = (\<lambda>f off n w. (Inr [], w)),
      h_write_at = (\<lambda>f off bs w. (Inr (length bs), w)), h_truncate = (\<lambda>f l w. (Inr (), w)), h_fsync = (\<lambda>f w. (Inr (), w)),
      h_seek = (\<lambda>f p w. (Inr 0, w)),
      net = \<lparr>udp = sock_ops.extend null_sock
               (udp_ops.fields (\<lambda>k n w. (Inl InvalidInput, w)) (\<lambda>k bs a w. (Inr (length bs), w))),
             tcp = sock_ops.extend null_sock
               (tcp_ops.fields (\<lambda>k n w. (Inr [], w)) (\<lambda>k w. (Inr (), w)) (\<lambda>k w. (Inl InvalidInput, w)))\<rparr>,
      con = \<lparr>con_read = (\<lambda>n w. ([], w)), con_write = (\<lambda>bs w. w @ bs)\<rparr>, stdin_reader = queue_reader\<rparr>"

definition boot_world :: "(unit, unit, (unit, unit) socket, u8 list, u8 list) kworld" where
  "boot_world = \<lparr>k_files = boot_files, k_dev = [], k_stdin = [104, 105]\<rparr>"


end
