(* ===== verification/Syscall.thy ===== *)
theory Syscall
  imports Objects Time_Stat Bytes
begin

text \<open>
  The system call entry (\<open>src/syscall.rs\<close>): the call number and the argument registers are decoded into a
  call of one handler with its arguments cast to the handler's types, the handler runs between the two
  switches of the time accounting, and its result becomes the return value. The names of the calls come
  from the crate \<open>syscalls\<close>, the error numbers from \<open>axerrno\<close>: both are parameters.
\<close>

section \<open>Calls\<close>

text \<open>One constructor per handler, with the parameters of its signature; pointers are addresses. The
  arguments of \<open>Sys_clone\<close> are flags, stack, parent tid, child tid and tls.\<close>

type_synonym ptr = usize

datatype fs_ctl_call =
    Sys_ioctl i32 usize ptr | Sys_chdir ptr | Sys_mkdirat i32 ptr u32 | Sys_getdents64 i32 ptr usize
  | Sys_linkat i32 ptr i32 ptr i32 | Sys_link ptr ptr | Sys_unlinkat i32 ptr u32 | Sys_unlink ptr
  | Sys_getcwd ptr usize | Sys_symlink ptr ptr | Sys_symlinkat ptr i32 ptr | Sys_readlink ptr ptr usize
  | Sys_readlinkat i32 ptr ptr usize

datatype fd_call =
    Sys_openat i32 ptr i32 u32 | Sys_open ptr i32 u32 | Sys_close i32 | Sys_dup i32 | Sys_dup2 i32 i32
  | Sys_fcntl i32 i32 usize

datatype io_call =
    Sys_read i32 ptr usize | Sys_readv i32 ptr usize | Sys_write i32 ptr usize | Sys_writev i32 ptr usize
  | Sys_lseek i32 i64 i32 | Sys_copy_file_range i32 ptr i32 ptr usize u32 | Sys_splice i32 ptr i32 ptr usize u32
  | Sys_pread64 i32 ptr usize u64 | Sys_pwrite64 i32 ptr usize u64 | Sys_ftruncate i32 u64 | Sys_fsync i32 | Sys_sync

datatype fs_call =
    Sys_mount ptr ptr ptr i32 ptr | Sys_umount2 ptr i32 | Sys_pipe2 ptr i32 | Sys_stat ptr ptr | Sys_fstat i32 ptr
  | Sys_lstat ptr ptr | Sys_fstatat i32 ptr ptr u32 | Sys_statx i32 ptr u32 u32 ptr | Sys_faccessat i32 ptr u32 u32
  | Sys_access ptr u32

datatype mm_call =
    Sys_brk usize | Sys_mmap usize usize u32 u32 i32 isize | Sys_munmap usize usize | Sys_mprotect usize usize u32
  | Sys_shmget i32 usize i32 | Sys_shmat i32 usize i32 | Sys_shmdt usize | Sys_shmctl i32 i32 ptr

datatype task_call =
    Sys_getpid | Sys_getppid | Sys_gettid | Sys_getpgid u32 | Sys_setpgid u32 u32 | Sys_sched_yield
  | Sys_nanosleep ptr ptr | Sys_execve ptr ptr ptr | Sys_set_tid_address usize | Sys_arch_prctl i32 usize
  | Sys_clone u32 usize usize usize usize | Sys_fork | Sys_exit i32 | Sys_exit_group i32 | Sys_waitpid i32 ptr u32

datatype signal_call =
    Sys_rt_sigprocmask i32 ptr ptr usize | Sys_rt_sigaction u32 ptr ptr usize | Sys_rt_sigpending ptr usize
  | Sys_rt_sigreturn | Sys_rt_sigtimedwait ptr ptr ptr usize | Sys_rt_sigsuspend ptr usize | Sys_kill i32 u32
  | Sys_tkill u32 u32 | Sys_tgkill u32 u32 u32 | Sys_rt_sigqueueinfo u32 u32 ptr usize
  | Sys_rt_tgsigqueueinfo u32 u32 u32 ptr usize | Sys_sigaltstack ptr ptr | Sys_futex ptr u32 u32 ptr ptr u32

datatype sys_call =
    Sys_getuid | Sys_geteuid | Sys_getgid | Sys_getegid | Sys_uname ptr | Sys_gettimeofday ptr | Sys_times ptr
  | Sys_clock_gettime i32 ptr

datatype mpx_call =
    Sys_poll ptr usize i32 | Sys_ppoll ptr usize ptr ptr | Sys_select i32 ptr ptr ptr ptr
  | Sys_pselect6 i32 ptr ptr ptr ptr ptr | Sys_epoll_create1 i32 | Sys_epoll_ctl i32 i32 i32 ptr
  | Sys_epoll_pwait i32 ptr i32 i32 ptr

datatype call =
    FsCtl fs_ctl_call | Fd fd_call | Io io_call | Fs fs_call | Mm mm_call | Task task_call | Sig signal_call
  | Sys sys_call | Mpx mpx_call

section \<open>Decoding\<close>

record regs =
  arg0 :: usize
  arg1 :: usize
  arg2 :: usize
  arg3 :: usize
  arg4 :: usize
  arg5 :: usize

datatype arch = X86_64 | Riscv64 | Aarch64 | Loongarch64

text \<open>The arms of the match, by the name of the call; arms that exist only on x86-64 ask the architecture.\<close>

definition decode_fs_ctl :: "arch \<Rightarrow> string \<Rightarrow> regs \<Rightarrow> fs_ctl_call option" where
  "decode_fs_ctl A n r =
     (if n = ''ioctl'' then Some (Sys_ioctl (ucast (arg0 r)) (arg1 r) (arg2 r))
      else if n = ''chdir'' then Some (Sys_chdir (arg0 r))
      else if n = ''mkdirat'' then Some (Sys_mkdirat (ucast (arg0 r)) (arg1 r) (ucast (arg2 r)))
      else if n = ''getdents64'' then Some (Sys_getdents64 (ucast (arg0 r)) (arg1 r) (arg2 r))
      else if n = ''linkat'' then Some (Sys_linkat (ucast (arg0 r)) (arg1 r) (ucast (arg2 r)) (arg3 r) (ucast (arg4 r)))
      else if A = X86_64 \<and> n = ''link'' then Some (Sys_link (arg0 r) (arg1 r))
      else if n = ''unlinkat'' then Some (Sys_unlinkat (ucast (arg0 r)) (arg1 r) (ucast (arg2 r)))
      else if A = X86_64 \<and> n = ''unlink'' then Some (Sys_unlink (arg0 r))
      else if n = ''getcwd'' then Some (Sys_getcwd (arg0 r) (arg1 r))
      else if A = X86_64 \<and> n = ''symlink'' then Some (Sys_symlink (arg0 r) (arg1 r))
      else if n = ''symlinkat'' then Some (Sys_symlinkat (arg0 r) (ucast (arg1 r)) (arg2 r))
      else if A = X86_64 \<and> n = ''readlink'' then Some (Sys_readlink (arg0 r) (arg1 r) (arg2 r))
      else if n = ''readlinkat'' then Some (Sys_readlinkat (ucast (arg0 r)) (arg1 r) (arg2 r) (arg3 r))
      else None)"

definition decode_fd :: "arch \<Rightarrow> string \<Rightarrow> regs \<Rightarrow> fd_call option" where
  "decode_fd A n r =
     (if n = ''openat'' then Some (Sys_openat (ucast (arg0 r)) (arg1 r) (ucast (arg2 r)) (ucast (arg3 r)))
      else if A = X86_64 \<and> n = ''open'' then Some (Sys_open (arg0 r) (ucast (arg1 r)) (ucast (arg2 r)))
      else if n = ''close'' then Some (Sys_close (ucast (arg0 r)))
      else if n = ''dup'' then Some (Sys_dup (ucast (arg0 r)))
      else if A = X86_64 \<and> n = ''dup2'' then Some (Sys_dup2 (ucast (arg0 r)) (ucast (arg1 r)))
      else if n = ''dup3'' then Some (Sys_dup2 (ucast (arg0 r)) (ucast (arg1 r)))
      else if n = ''fcntl'' then Some (Sys_fcntl (ucast (arg0 r)) (ucast (arg1 r)) (arg2 r))
      else None)"

definition decode_io :: "string \<Rightarrow> regs \<Rightarrow> io_call option" where
  "decode_io n r =
     (if n = ''read'' then Some (Sys_read (ucast (arg0 r)) (arg1 r) (arg2 r))
      else if n = ''readv'' then Some (Sys_readv (ucast (arg0 r)) (arg1 r) (arg2 r))
      else if n = ''write'' then Some (Sys_write (ucast (arg0 r)) (arg1 r) (arg2 r))
      else if n = ''writev'' then Some (Sys_writev (ucast (arg0 r)) (arg1 r) (arg2 r))
      else if n = ''lseek'' then Some (Sys_lseek (ucast (arg0 r)) (arg1 r) (ucast (arg2 r)))
      else if n = ''copy_file_range'' then
        Some (Sys_copy_file_range (ucast (arg0 r)) (arg1 r) (ucast (arg2 r)) (arg3 r) (arg4 r) (ucast (arg5 r)))
      else if n = ''splice'' then
        Some (Sys_splice (ucast (arg0 r)) (arg1 r) (ucast (arg2 r)) (arg3 r) (arg4 r) (ucast (arg5 r)))
      else if n = ''pread64'' then Some (Sys_pread64 (ucast (arg0 r)) (arg1 r) (arg2 r) (arg3 r))
      else if n = ''pwrite64'' then Some (Sys_pwrite64 (ucast (arg0 r)) (arg1 r) (arg2 r) (arg3 r))
      else if n = ''ftruncate'' then Some (Sys_ftruncate (ucast (arg0 r)) (arg1 r))
      else if n = ''fsync'' then Some (Sys_fsync (ucast (arg0 r)))
      else if n = ''sync'' then Some Sys_sync
      else None)"

definition decode_fs :: "arch \<Rightarrow> string \<Rightarrow> regs \<Rightarrow> fs_call option" where
  "decode_fs A n r =
     (if n = ''mount'' then Some (Sys_mount (arg0 r) (arg1 r) (arg2 r) (ucast (arg3 r)) (arg4 r))
      else if n = ''umount2'' then Some (Sys_umount2 (arg0 r) (ucast (arg1 r)))
      else if n = ''pipe2'' then Some (Sys_pipe2 (arg0 r) (ucast (arg1 r)))
      else if A = X86_64 \<and> n = ''pipe'' then Some (Sys_pipe2 (arg0 r) 0)
      else if A = X86_64 \<and> n = ''stat'' then Some (Sys_stat (arg0 r) (arg1 r))
      else if n = ''fstat'' then Some (Sys_fstat (ucast (arg0 r)) (arg1 r))
      else if A = X86_64 \<and> n = ''lstat'' then Some (Sys_lstat (arg0 r) (arg1 r))
      else if A = X86_64 \<and> n = ''newfstatat'' then Some (Sys_fstatat (ucast (arg0 r)) (arg1 r) (arg2 r) (ucast (arg3 r)))
      else if A \<noteq> X86_64 \<and> n = ''fstatat'' then Some (Sys_fstatat (ucast (arg0 r)) (arg1 r) (arg2 r) (ucast (arg3 r)))
      else if n = ''statx'' then Some (Sys_statx (ucast (arg0 r)) (arg1 r) (ucast (arg2 r)) (ucast (arg3 r)) (arg4 r))
      else if n = ''faccessat'' then Some (Sys_faccessat (ucast (arg0 r)) (arg1 r) (ucast (arg2 r)) (ucast (arg3 r)))
      else if A = X86_64 \<and> n = ''access'' then Some (Sys_access (arg0 r) (ucast (arg1 r)))
      else None)"

definition decode_mm :: "string \<Rightarrow> regs \<Rightarrow> mm_call option" where
  "decode_mm n r =
     (if n = ''brk'' then Some (Sys_brk (arg0 r))
      else if n = ''mmap'' then
        Some (Sys_mmap (arg0 r) (arg1 r) (ucast (arg2 r)) (ucast (arg3 r)) (ucast (arg4 r)) (arg5 r))
      else if n = ''munmap'' then Some (Sys_munmap (arg0 r) (arg1 r))
      else if n = ''mprotect'' then Some (Sys_mprotect (arg0 r) (arg1 r) (ucast (arg2 r)))
      else if n = ''shmget'' then Some (Sys_shmget (ucast (arg0 r)) (arg1 r) (ucast (arg2 r)))
      else if n = ''shmat'' then Some (Sys_shmat (ucast (arg0 r)) (arg1 r) (ucast (arg2 r)))
      else if n = ''shmdt'' then Some (Sys_shmdt (arg0 r))
      else if n = ''shmctl'' then Some (Sys_shmctl (ucast (arg0 r)) (ucast (arg1 r)) (arg2 r))
      else None)"

text \<open>On x86-64 and loongarch64 \<open>sys_clone\<close> takes the child tid before the tls, elsewhere after it; the
  registers are passed by position.\<close>

definition decode_task :: "arch \<Rightarrow> string \<Rightarrow> regs \<Rightarrow> task_call option" where
  "decode_task A n r =
     (if n = ''getpid'' then Some Sys_getpid
      else if n = ''getppid'' then Some Sys_getppid
      else if n = ''gettid'' then Some Sys_gettid
      else if n = ''getpgid'' then Some (Sys_getpgid (ucast (arg0 r)))
      else if n = ''setpgid'' then Some (Sys_setpgid (ucast (arg0 r)) (ucast (arg1 r)))
      else if n = ''sched_yield'' then Some Sys_sched_yield
      else if n = ''nanosleep'' then Some (Sys_nanosleep (arg0 r) (arg1 r))
      else if n = ''execve'' then Some (Sys_execve (arg0 r) (arg1 r) (arg2 r))
      else if n = ''set_tid_address'' then Some (Sys_set_tid_address (arg0 r))
      else if A = X86_64 \<and> n = ''arch_prctl'' then Some (Sys_arch_prctl (ucast (arg0 r)) (arg1 r))
      else if n = ''clone'' then
        (if A = X86_64 \<or> A = Loongarch64 then Some (Sys_clone (ucast (arg0 r)) (arg1 r) (arg2 r) (arg3 r) (arg4 r))
         else Some (Sys_clone (ucast (arg0 r)) (arg1 r) (arg2 r) (arg4 r) (arg3 r)))
      else if A = X86_64 \<and> n = ''fork'' then Some Sys_fork
      else if n = ''exit'' then Some (Sys_exit (ucast (arg0 r)))
      else if n = ''exit_group'' then Some (Sys_exit_group (ucast (arg0 r)))
      else if n = ''wait4'' then Some (Sys_waitpid (ucast (arg0 r)) (arg1 r) (ucast (arg2 r)))
      else None)"

definition decode_signal :: "string \<Rightarrow> regs \<Rightarrow> signal_call option" where
  "decode_signal n r =
     (if n = ''rt_sigprocmask'' then Some (Sys_rt_sigprocmask (ucast (arg0 r)) (arg1 r) (arg2 r) (arg3 r))
      else if n = ''rt_sigaction'' then Some (Sys_rt_sigaction (ucast (arg0 r)) (arg1 r) (arg2 r) (arg3 r))
      else if n = ''rt_sigpending'' then Some (Sys_rt_sigpending (arg0 r) (arg1 r))
      else if n = ''rt_sigreturn'' then Some Sys_rt_sigreturn
      else if n = ''rt_sigtimedwait'' then Some (Sys_rt_sigtimedwait (arg0 r) (arg1 r) (arg2 r) (arg3 r))
      else if n = ''rt_sigsuspend'' then Some (Sys_rt_sigsuspend (arg0 r) (arg1 r))
      else if n = ''kill'' then Some (Sys_kill (ucast (arg0 r)) (ucast (arg1 r)))
      else if n = ''tkill'' then Some (Sys_tkill (ucast (arg0 r)) (ucast (arg1 r)))
      else if n = ''tgkill'' then Some (Sys_tgkill (ucast (arg0 r)) (ucast (arg1 r)) (ucast (arg2 r)))
      else if n = ''rt_sigqueueinfo'' then Some (Sys_rt_sigqueueinfo (ucast (arg0 r)) (ucast (arg1 r)) (arg2 r) (arg3 r))
      else if n = ''rt_tgsigqueueinfo'' then
        Some (Sys_rt_tgsigqueueinfo (ucast (arg0 r)) (ucast (arg1 r)) (ucast (arg2 r)) (arg3 r) (arg4 r))
      else if n = ''sigaltstack'' then Some (Sys_sigaltstack (arg0 r) (arg1 r))
      else if n = ''futex'' then
        Some (Sys_futex (arg0 r) (ucast (arg1 r)) (ucast (arg2 r)) (arg3 r) (arg4 r) (ucast (arg5 r)))
      else None)"

definition decode_sys :: "string \<Rightarrow> regs \<Rightarrow> sys_call option" where
  "decode_sys n r =
     (if n = ''getuid'' then Some Sys_getuid
      else if n = ''geteuid'' then Some Sys_geteuid
      else if n = ''getgid'' then Some Sys_getgid
      else if n = ''getegid'' then Some Sys_getegid
      else if n = ''uname'' then Some (Sys_uname (arg0 r))
      else if n = ''gettimeofday'' then Some (Sys_gettimeofday (arg0 r))
      else if n = ''times'' then Some (Sys_times (arg0 r))
      else if n = ''clock_gettime'' then Some (Sys_clock_gettime (ucast (arg0 r)) (arg1 r))
      else None)"

definition decode_mpx :: "arch \<Rightarrow> string \<Rightarrow> regs \<Rightarrow> mpx_call option" where
  "decode_mpx A n r =
     (if A = X86_64 \<and> n = ''poll'' then Some (Sys_poll (arg0 r) (arg1 r) (ucast (arg2 r)))
      else if n = ''ppoll'' then Some (Sys_ppoll (arg0 r) (arg1 r) (arg2 r) (arg3 r))
      else if A = X86_64 \<and> n = ''select'' then Some (Sys_select (ucast (arg0 r)) (arg1 r) (arg2 r) (arg3 r) (arg4 r))
      else if n = ''pselect6'' then Some (Sys_pselect6 (ucast (arg0 r)) (arg1 r) (arg2 r) (arg3 r) (arg4 r) (arg5 r))
      else if n = ''epoll_create1'' then Some (Sys_epoll_create1 (ucast (arg0 r)))
      else if n = ''epoll_ctl'' then Some (Sys_epoll_ctl (ucast (arg0 r)) (ucast (arg1 r)) (ucast (arg2 r)) (arg3 r))
      else if n = ''epoll_pwait'' then Some (Sys_epoll_pwait (ucast (arg0 r)) (arg1 r) (ucast (arg2 r)) (ucast (arg3 r)) (arg4 r))
      else None)"

text \<open>The first arm that matches.\<close>

fun first_some :: "'a option list \<Rightarrow> 'a option" where
  "first_some [] = None"
| "first_some (None # xs) = first_some xs"
| "first_some (Some x # xs) = Some x"

definition decode :: "arch \<Rightarrow> string \<Rightarrow> regs \<Rightarrow> call option" where
  "decode A n r = first_some
     [map_option FsCtl (decode_fs_ctl A n r), map_option Fd (decode_fd A n r), map_option Io (decode_io n r),
      map_option Fs (decode_fs A n r), map_option Mm (decode_mm n r), map_option Task (decode_task A n r),
      map_option Sig (decode_signal n r), map_option Sys (decode_sys n r), map_option Mpx (decode_mpx A n r)]"

section \<open>The entry\<close>

text \<open>\<open>Sysno::from\<close> and the error numbers (\<open>LinuxError::code\<close>, and the same after the conversion of an
  \<open>AxError\<close>).\<close>

record sys_env =
  sysno_from :: "u32 \<Rightarrow> string res"
  err_code :: "linux_error \<Rightarrow> i32"
  ax_code :: "ax_error \<Rightarrow> i32"

text \<open>\<open>result.unwrap_or_else(|err| -err.code() as _)\<close>; a panic has no return value.\<close>

definition unwrap_result :: "sys_env \<Rightarrow> isize res \<Rightarrow> isize res" where
  "unwrap_result Y res =
     (case res of
        Inr v \<Rightarrow> Inr v
      | Inl (Errno e) \<Rightarrow> Inr (scast (- err_code Y e))
      | Inl (FromAx e) \<Rightarrow> Inr (scast (- ax_code Y e))
      | Inl Panic \<Rightarrow> Inl Panic)"

text \<open>The accounting of the current task at the two borders.\<close>

definition time_stat_from_user_to_kernel :: "usize \<Rightarrow> time_stat \<Rightarrow> time_stat" where
  "time_stat_from_user_to_kernel now ts = switch_into_kernel_mode now ts"

definition time_stat_from_kernel_to_user :: "usize \<Rightarrow> time_stat \<Rightarrow> time_stat" where
  "time_stat_from_kernel_to_user now ts = switch_into_user_mode now ts"

text \<open>\<open>handle_syscall\<close>: \<open>run\<close> executes a call, with no result when it does not return (\<open>exit\<close>, or waiting for
  ever); \<open>t0\<close> and \<open>t1\<close> are the readings of the clock on entry and on return.\<close>

definition handle_syscall ::
  "sys_env \<Rightarrow> arch \<Rightarrow> (call \<Rightarrow> 'k \<Rightarrow> (isize res \<times> 'k) option) \<Rightarrow> usize \<Rightarrow> usize \<Rightarrow> usize \<Rightarrow> regs \<Rightarrow> time_stat \<times> 'k
   \<Rightarrow> (isize res \<times> time_stat \<times> 'k) option" where
  "handle_syscall Y A run t0 t1 syscall_num r s =
     (case s of (ts, k) \<Rightarrow>
      case sysno_from Y (ucast syscall_num) of
        Inl e \<Rightarrow> Some (Inl e, ts, k)
      | Inr sysno \<Rightarrow>
          (let ts = time_stat_from_user_to_kernel t0 ts in
           case (case decode A sysno r of None \<Rightarrow> Some (Inl (Errno ENOSYS), k) | Some c \<Rightarrow> run c k) of
             None \<Rightarrow> None
           | Some (res, k) \<Rightarrow>
               (case unwrap_result Y res of
                  Inl e \<Rightarrow> Some (Inl e, ts, k)
                | Inr ans \<Rightarrow> Some (Inr ans, time_stat_from_kernel_to_user t1 ts, k))))"

section \<open>The calls on the file layer\<close>

text \<open>What the calls on descriptors do to the file layer of the calling process: the world of \<open>Objects\<close>, the
  descriptor table, the bytes stored for the user, and the next fresh reference. User memory is the check
  of a writable buffer and the contents of a readable one; the handlers of the other calls run on other
  states and are the argument \<open>other\<close>.\<close>

record umem =
  um_check :: "usize \<Rightarrow> usize \<Rightarrow> unit res"
  um_load :: "usize \<Rightarrow> usize \<Rightarrow> u8 list res"

record ('f, 'd, 's, 'w, 'b, 't) file_state =
  fl_world :: "('f, 'd, 's, 'w, 'b) kworld"
  fl_table :: 't
  fl_stores :: "(usize \<times> u8 list) list"
  fl_next :: arc

definition ret_table ::
  "isize res \<times> 't \<Rightarrow> ('f, 'd, 's, 'w, 'b, 't) file_state \<Rightarrow> isize res \<times> ('f, 'd, 's, 'w, 'b, 't) file_state" where
  "ret_table p S = (case p of (r, t) \<Rightarrow> (r, S\<lparr>fl_table := t\<rparr>))"

definition ret_io ::
  "nat res \<times> ('f, 'd, 's, 'w, 'b) kworld io_state \<Rightarrow> ('f, 'd, 's, 'w, 'b, 't) file_state
   \<Rightarrow> isize res \<times> ('f, 'd, 's, 'w, 'b, 't) file_state" where
  "ret_io p S = (case p of (r, s) \<Rightarrow>
     (rbind r (\<lambda>n. Inr (word_of_nat n)), S\<lparr>fl_world := world s, fl_stores := stores s\<rparr>))"

definition io_of :: "('f, 'd, 's, 'w, 'b, 't) file_state \<Rightarrow> ('f, 'd, 's, 'w, 'b) kworld io_state" where
  "io_of S = \<lparr>world = fl_world S, stores = fl_stores S\<rparr>"

definition run_fd ::
  "('t, arc) flatten_ops \<Rightarrow> ('f, 'u, 'v, 'w, 'b) dev_ops \<Rightarrow> fd_call \<Rightarrow> ('f, 'd, ('u, 'v) socket, 'w, 'b, 't) file_state
   \<Rightarrow> (isize res \<times> ('f, 'd, ('u, 'v) socket, 'w, 'b, 't) file_state) option" where
  "run_fd F D c S =
     (case c of
        Sys_close fd \<Rightarrow> Some (ret_table (sys_close F (fl_table S) fd) S)
      | Sys_dup fd \<Rightarrow> Some (ret_table (sys_dup F (fl_table S) fd) S)
      | Sys_dup2 fd fd' \<Rightarrow> Some (ret_table (sys_dup2 F (fl_table S) fd fd') S)
      | Sys_fcntl fd cmd arg \<Rightarrow>
          (case sys_fcntl F (\<lambda>a nb. on_obj (\<lambda>obj. obj_set_nonblocking D obj nb) a) (fl_table S, fl_world S) fd cmd arg of
             (r, (t, W)) \<Rightarrow> Some (r, S\<lparr>fl_table := t, fl_world := W\<rparr>))
      | _ \<Rightarrow> None)"

definition run_io ::
  "('t, arc) flatten_ops \<Rightarrow> ('f, 'u, 'v, 'w, 'b) dev_ops \<Rightarrow> wait_env \<Rightarrow> umem \<Rightarrow> io_call
   \<Rightarrow> ('f, 'd, ('u, 'v) socket, 'w, 'b, 't) file_state
   \<Rightarrow> (isize res \<times> ('f, 'd, ('u, 'v) socket, 'w, 'b, 't) file_state) option" where
  "run_io F D E U c S =
     (let Fio = obj_io D E; t = fl_table S; W = fl_world S in
      case c of
        Sys_read fd ubuf len \<Rightarrow>
          if is_ok (um_check U ubuf len) \<and> \<not> read_returns F D E t W fd (unat len) then None
          else Some (ret_io (sys_read F Fio t (um_check U) fd ubuf len (io_of S)) S)
      | Sys_write fd ubuf len \<Rightarrow>
          (case um_load U ubuf len of
             Inr bs \<Rightarrow> if write_returns F D E t W fd bs
                      then Some (ret_io (sys_write F Fio t (um_load U) fd ubuf len (io_of S)) S) else None
           | Inl e \<Rightarrow> Some (Inl e, S))
      | Sys_pread64 fd ubuf len off \<Rightarrow> Some (ret_io (sys_pread64 F Fio t (um_check U) fd ubuf len off (io_of S)) S)
      | Sys_pwrite64 fd ubuf len off \<Rightarrow> Some (ret_io (sys_pwrite64 F Fio t (um_load U) fd ubuf len off (io_of S)) S)
      | Sys_ftruncate fd len \<Rightarrow> (case sys_ftruncate F Fio t fd len W of (r, W) \<Rightarrow> Some (r, S\<lparr>fl_world := W\<rparr>))
      | Sys_fsync fd \<Rightarrow> (case sys_fsync F Fio t fd W of (r, W) \<Rightarrow> Some (r, S\<lparr>fl_world := W\<rparr>))
      | Sys_sync \<Rightarrow> (case sys_sync F Fio t W of (r, W) \<Rightarrow> Some (r, S\<lparr>fl_world := W\<rparr>))
      | _ \<Rightarrow> None)"

text \<open>The user's array of two descriptors is eight bytes, written as two little-endian words.\<close>

definition run_pipe2 ::
  "('t, arc) flatten_ops \<Rightarrow> umem \<Rightarrow> ptr \<Rightarrow> ('f, 'd, 's, 'w, 'b, 't) file_state
   \<Rightarrow> isize res \<times> ('f, 'd, 's, 'w, 'b, 't) file_state" where
  "run_pipe2 F U p S =
     (let a = fl_next S in
      case sys_pipe2 F (a, a + 1, a) (um_check U p 8) (k_files (fl_world S), fl_table S) of
        (Inl e, (fs, t)) \<Rightarrow> (Inl e, S\<lparr>fl_world := (fl_world S)\<lparr>k_files := fs\<rparr>, fl_table := t, fl_next := a + 2\<rparr>)
      | (Inr (rfd, wfd), (fs, t)) \<Rightarrow>
          (Inr 0, S\<lparr>fl_world := (fl_world S)\<lparr>k_files := fs\<rparr>, fl_table := t, fl_next := a + 2,
             fl_stores := fl_stores S @ [(p, le_bytes 4 (unat rfd) @ le_bytes 4 (unat wfd))]\<rparr>))"

definition on_files :: "call \<Rightarrow> bool" where
  "on_files c =
     (case c of
        Fd d \<Rightarrow> (case d of Sys_openat _ _ _ _ \<Rightarrow> False | Sys_open _ _ _ \<Rightarrow> False | _ \<Rightarrow> True)
      | Io i \<Rightarrow> (case i of Sys_read _ _ _ \<Rightarrow> True | Sys_write _ _ _ \<Rightarrow> True | Sys_pread64 _ _ _ _ \<Rightarrow> True
          | Sys_pwrite64 _ _ _ _ \<Rightarrow> True | Sys_ftruncate _ _ \<Rightarrow> True | Sys_fsync _ \<Rightarrow> True | Sys_sync \<Rightarrow> True | _ \<Rightarrow> False)
      | Fs f \<Rightarrow> (case f of Sys_pipe2 _ _ \<Rightarrow> True | _ \<Rightarrow> False)
      | _ \<Rightarrow> False)"

definition run_files ::
  "('t, arc) flatten_ops \<Rightarrow> ('f, 'u, 'v, 'w, 'b) dev_ops \<Rightarrow> wait_env \<Rightarrow> umem
   \<Rightarrow> (call \<Rightarrow> ('f, 'd, ('u, 'v) socket, 'w, 'b, 't) file_state \<Rightarrow> (isize res \<times> ('f, 'd, ('u, 'v) socket, 'w, 'b, 't) file_state) option)
   \<Rightarrow> call \<Rightarrow> ('f, 'd, ('u, 'v) socket, 'w, 'b, 't) file_state
   \<Rightarrow> (isize res \<times> ('f, 'd, ('u, 'v) socket, 'w, 'b, 't) file_state) option" where
  "run_files F D E U other c S =
     (if \<not> on_files c then other c S
      else case c of
        Fd d \<Rightarrow> run_fd F D d S
      | Io i \<Rightarrow> run_io F D E U i S
      | Fs f \<Rightarrow> (case f of Sys_pipe2 p flags \<Rightarrow> Some (run_pipe2 F U p S) | _ \<Rightarrow> None)
      | _ \<Rightarrow> None)"

section \<open>Properties\<close>

text \<open>What \<open>axerrno\<close> documents: error numbers are those of Linux, between 1 and 133.\<close>

definition errno_spec :: "sys_env \<Rightarrow> bool" where
  "errno_spec Y \<longleftrightarrow>
     (\<forall>e. 1 \<le> sint (err_code Y e) \<and> sint (err_code Y e) \<le> 133) \<and>
     (\<forall>e. 1 \<le> sint (ax_code Y e) \<and> sint (ax_code Y e) \<le> 133) \<and> err_code Y ENOSYS = 38"

lemma sint_scast_neg:
  fixes c :: i32
  assumes "1 \<le> sint c" "sint c \<le> 133"
  shows "sint (scast (- c) :: isize) = - sint c"
proof -
  have "sint (- c) = - sint c"
    using assms by (simp add: sint_word_ariths signed_take_bit_int_eq_self)
  moreover have "sint (scast (- c) :: isize) = sint (- c)"
    using sint_ge [of "- c"] sint_lt [of "- c"] by (simp add: signed_scast_eq signed_take_bit_int_eq_self)
  ultimately show ?thesis by simp
qed

lemma unwrap_result_error:
  assumes "errno_spec Y" "e \<noteq> Panic"
  shows "\<exists>v. unwrap_result Y (Inl e) = Inr v \<and> - 133 \<le> sint v \<and> sint v \<le> - 1"
  using assms sint_scast_neg by (cases e) (auto simp: unwrap_result_def errno_spec_def)

text \<open>C17. The system call entry: only the low 32 bits of the call number count; a known number without an arm
  returns -38 and leaves the kernel's state alone; otherwise the handler of the call runs exactly once on
  the decoded arguments, its success value is returned as it is, its error as a negative number of at
  least -133, and in each case the task's system time grows by exactly the time between entry and return.
  Nothing is returned when the handler does not return.\<close>

theorem handle_syscall_spec:
  assumes "errno_spec Y" and "sysno_from Y (ucast num) = Inr name"
  shows "\<exists>ts1 ts2. stime_ns ts2 = stime_ns ts + (t1 - t0) \<and>
    handle_syscall Y A run t0 t1 num r (ts, k) = handle_syscall Y A run t0 t1 (num AND 0xFFFFFFFF) r (ts, k) \<and>
    (case decode A name r of
       None \<Rightarrow> handle_syscall Y A run t0 t1 num r (ts, k) = Some (Inr (- 38), ts2, k)
     | Some c \<Rightarrow>
         (case run c k of
            None \<Rightarrow> handle_syscall Y A run t0 t1 num r (ts, k) = None
          | Some (Inr v, k') \<Rightarrow> handle_syscall Y A run t0 t1 num r (ts, k) = Some (Inr v, ts2, k')
          | Some (Inl e, k') \<Rightarrow>
              if e = Panic then handle_syscall Y A run t0 t1 num r (ts, k) = Some (Inl Panic, ts1, k')
              else \<exists>v. handle_syscall Y A run t0 t1 num r (ts, k) = Some (Inr v, ts2, k') \<and> - 133 \<le> sint v \<and> sint v \<le> - 1))"
proof -
  let ?ts1 = "time_stat_from_user_to_kernel t0 ts"
  let ?ts2 = "time_stat_from_kernel_to_user t1 ?ts1"
  have t: "stime_ns ?ts2 = stime_ns ts + (t1 - t0)"
    by (simp add: time_stat_from_kernel_to_user_def time_stat_from_user_to_kernel_def switch_into_user_mode_def
        switch_into_kernel_mode_def Let_def)
  have m: "(0xFFFFFFFF :: usize) = mask 32" by (simp add: mask_eq_exp_minus_1)
  have "(ucast (num AND 0xFFFFFFFF) :: u32) = ucast num"
    unfolding m by (rule bit_word_eqI) (auto simp: bit_simps)
  then have low: "handle_syscall Y A run t0 t1 num r (ts, k) = handle_syscall Y A run t0 t1 (num AND 0xFFFFFFFF) r (ts, k)"
    by (simp add: handle_syscall_def)
  have sys: "handle_syscall Y A run t0 t1 num r (ts, k) =
      (case (case decode A name r of None \<Rightarrow> Some (Inl (Errno ENOSYS), k) | Some c \<Rightarrow> run c k) of
         None \<Rightarrow> None
       | Some (res, k) \<Rightarrow>
           (case unwrap_result Y res of Inl e \<Rightarrow> Some (Inl e, ?ts1, k) | Inr ans \<Rightarrow> Some (Inr ans, ?ts2, k)))"
    using assms(2) by (simp add: handle_syscall_def Let_def)
  have err: "\<exists>v. unwrap_result Y (Inl e) = Inr v \<and> - 133 \<le> sint v \<and> sint v \<le> - 1" if "e \<noteq> Panic" for e
    using unwrap_result_error [OF assms(1) that] .
  have nosys: "unwrap_result Y (Inl (Errno ENOSYS)) = Inr (- 38)" "unwrap_result Y (Inl Panic) = Inl Panic"
    using assms(1) by (simp_all add: unwrap_result_def errno_spec_def)
  have ok: "unwrap_result Y (Inr v) = Inr v" for v by (simp add: unwrap_result_def)
  have "case decode A name r of
       None \<Rightarrow> handle_syscall Y A run t0 t1 num r (ts, k) = Some (Inr (- 38), ?ts2, k)
     | Some c \<Rightarrow>
         (case run c k of
            None \<Rightarrow> handle_syscall Y A run t0 t1 num r (ts, k) = None
          | Some (Inr v, k') \<Rightarrow> handle_syscall Y A run t0 t1 num r (ts, k) = Some (Inr v, ?ts2, k')
          | Some (Inl e, k') \<Rightarrow>
              if e = Panic then handle_syscall Y A run t0 t1 num r (ts, k) = Some (Inl Panic, ?ts1, k')
              else \<exists>v. handle_syscall Y A run t0 t1 num r (ts, k) = Some (Inr v, ?ts2, k') \<and> - 133 \<le> sint v \<and> sint v \<le> - 1)"
  proof (cases "decode A name r")
    case None
    then show ?thesis unfolding sys by (simp add: nosys)
  next
    case (Some c)
    show ?thesis
    proof (cases "run c k")
      case None
      with Some show ?thesis unfolding sys by simp
    next
      case run: (Some p)
      obtain res k' where p: "p = (res, k')" by fastforce
      show ?thesis
      proof (cases res)
        case (Inr v)
        with Some run p show ?thesis unfolding sys by (simp add: ok)
      next
        case (Inl e)
        with Some run p nosys err [of e] show ?thesis unfolding sys by (cases "e = Panic") auto
      qed
    qed
  qed
  with t low show ?thesis by blast
qed

text \<open>The Linux error numbers, and the call numbers of riscv64 that the examples use.\<close>

definition linux_code :: "linux_error \<Rightarrow> i32" where
  "linux_code e =
     (case e of EPERM \<Rightarrow> 1 | ENOENT \<Rightarrow> 2 | ESRCH \<Rightarrow> 3 | EINTR \<Rightarrow> 4 | ENOEXEC \<Rightarrow> 8 | EBADF \<Rightarrow> 9 | ECHILD \<Rightarrow> 10
      | EAGAIN \<Rightarrow> 11 | ENOMEM \<Rightarrow> 12 | EACCES \<Rightarrow> 13 | EFAULT \<Rightarrow> 14 | EEXIST \<Rightarrow> 17 | ENODEV \<Rightarrow> 19 | ENOTDIR \<Rightarrow> 20
      | EISDIR \<Rightarrow> 21 | EINVAL \<Rightarrow> 22 | EMFILE \<Rightarrow> 24 | ESPIPE \<Rightarrow> 29 | EPIPE \<Rightarrow> 32 | ERANGE \<Rightarrow> 34 | ENOSYS \<Rightarrow> 38
      | EIDRM \<Rightarrow> 43 | EILSEQ \<Rightarrow> 84 | EAFNOSUPPORT \<Rightarrow> 97 | EOPNOTSUPP \<Rightarrow> 95 | EISCONN \<Rightarrow> 106)"

definition riscv_env :: sys_env where
  "riscv_env =
     \<lparr>sysno_from = (\<lambda>n. if n = 59 then Inr ''pipe2'' else if n = 63 then Inr ''read'' else if n = 64 then Inr ''write''
        else if n = 57 then Inr ''close'' else if n = 17 then Inr ''getcwd'' else Inr ''io_setup''),
      err_code = linux_code, ax_code = (\<lambda>e. 22)\<rparr>"

lemma riscv_env_spec: "errno_spec riscv_env"
proof -
  have "1 \<le> sint (linux_code e) \<and> sint (linux_code e) \<le> 133" for e
    by (cases e) (simp_all add: linux_code_def)
  then show ?thesis by (simp add: errno_spec_def riscv_env_def linux_code_def)
qed

theorem handle_syscall_spec_witness:
  "errno_spec riscv_env \<and>
   (\<exists>ts. handle_syscall riscv_env Riscv64 (\<lambda>c k. Some (Inl (Errno EBADF), k + 1)) 100 150 0 \<lparr>arg0 = 0, arg1 = 0, arg2 = 0,
      arg3 = 0, arg4 = 0, arg5 = 0\<rparr> (time_stat_new, 7 :: nat) = Some (Inr (- 38), ts, 7) \<and> stime_ns ts = 50)"
proof -
  let ?r = "\<lparr>arg0 = 0, arg1 = 0, arg2 = 0, arg3 = 0, arg4 = 0, arg5 = 0\<rparr>"
  have n: "sysno_from riscv_env (ucast (0 :: usize)) = Inr ''io_setup''" by (simp add: riscv_env_def)
  have d: "decode Riscv64 ''io_setup'' ?r = None"
    by (simp add: decode_def decode_fs_ctl_def decode_fd_def decode_io_def decode_fs_def decode_mm_def decode_task_def
        decode_signal_def decode_sys_def decode_mpx_def)
  show ?thesis
    using handle_syscall_spec [OF riscv_env_spec n, where ts = time_stat_new and k = "7 :: nat" and r = ?r
        and ?t0.0 = 100 and ?t1.0 = 150 and A = Riscv64 and run = "\<lambda>c k. Some (Inl (Errno EBADF), k + 1)"] riscv_env_spec
    unfolding d by (auto simp: time_stat_new_def)
qed

end
