(* ===== verification/Ownership.thy ===== *)
theory Ownership
  imports Objects Clone "HOL-Library.Multiset"
begin

text \<open>
  Who keeps a file object alive. Descriptor tables hold \<open>Arc<dyn FileLike>\<close>: copying an entry increments a
  count, removing one decrements it, and the last reference drops the object; dropping a pipe end gives
  up its reference to the buffer, whose count is what \<open>Pipe::closed\<close> looks at. The operations of
  \<open>api/src/file/mod.rs\<close> and \<open>api/src/imp/fs/fd_ops.rs\<close> are repeated here with the copies and drops of
  references written out; forgetting the counts gives back the operations of \<open>Fd_Table\<close>. The locale
  \<open>counted_refs\<close> is the contract of reference counting, and its client lemmas show that every operation on a
  table neither loses nor invents a reference.
\<close>

section \<open>Counted objects\<close>

record ('f, 'd, 's) owned =
  ow_files :: "('f, 'd, 's) files"
  ow_counts :: "arc \<Rightarrow> nat"

text \<open>Giving up one reference to a pipe buffer, and what goes with the last reference to an object.\<close>

definition drop_buffer :: "arc \<Rightarrow> ('f, 'd, 's) files \<Rightarrow> ('f, 'd, 's) files" where
  "drop_buffer b fs =
     (case pipe_bufs fs b of
        None \<Rightarrow> fs
      | Some sh \<Rightarrow>
          if strong_count sh \<le> 1 then fs\<lparr>pipe_bufs := (pipe_bufs fs)(b := None)\<rparr>
          else fs\<lparr>pipe_bufs := (pipe_bufs fs)(b \<mapsto> sh\<lparr>strong_count := strong_count sh - 1\<rparr>)\<rparr>)"

definition drop_object :: "arc \<Rightarrow> ('f, 'd, 's) files \<Rightarrow> ('f, 'd, 's) files" where
  "drop_object a fs =
     (let fs' = fs\<lparr>objs := (objs fs)(a := None)\<rparr> in
      case objs fs a of Some (FPipe r b) \<Rightarrow> drop_buffer b fs' | _ \<Rightarrow> fs')"

definition arc_clone :: "arc \<Rightarrow> ('f, 'd, 's) owned \<Rightarrow> ('f, 'd, 's) owned" where
  "arc_clone a w = w\<lparr>ow_counts := (ow_counts w)(a := ow_counts w a + 1)\<rparr>"

definition arc_drop :: "arc \<Rightarrow> ('f, 'd, 's) owned \<Rightarrow> ('f, 'd, 's) owned" where
  "arc_drop a w =
     (if ow_counts w a \<le> 1
      then \<lparr>ow_files = drop_object a (ow_files w), ow_counts = (ow_counts w)(a := 0)\<rparr>
      else w\<lparr>ow_counts := (ow_counts w)(a := ow_counts w a - 1)\<rparr>)"

definition arc_new :: "arc \<Rightarrow> ('f, 'd, 's) file_obj \<Rightarrow> ('f, 'd, 's) owned \<Rightarrow> ('f, 'd, 's) owned" where
  "arc_new a obj w =
     \<lparr>ow_files = (ow_files w)\<lparr>objs := (objs (ow_files w))(a \<mapsto> obj)\<rparr>, ow_counts = (ow_counts w)(a := 1)\<rparr>"

section \<open>Tables with the references written out\<close>

text \<open>\<open>cln\<close> and \<open>drp\<close> copy and drop a reference.\<close>

definition own_close ::
  "('t, 'a) flatten_ops \<Rightarrow> ('a \<Rightarrow> 'o \<Rightarrow> 'o) \<Rightarrow> 't \<Rightarrow> i32 \<Rightarrow> 'o \<Rightarrow> unit res \<times> 't \<times> 'o" where
  "own_close F drp t fd w =
     (case fo_remove F t (fd_index fd) of
        (None, t') \<Rightarrow> (Inl (Errno EBADF), t', w)
      | (Some f, t') \<Rightarrow> (Inr (), t', drp f w))"

text \<open>\<open>add_file_like\<close> takes the reference over; when it fails, the reference is dropped.\<close>

definition own_add ::
  "('t, 'a) flatten_ops \<Rightarrow> ('a \<Rightarrow> 'o \<Rightarrow> 'o) \<Rightarrow> 't \<Rightarrow> 'a \<Rightarrow> 'o \<Rightarrow> i32 res \<times> 't \<times> 'o" where
  "own_add F drp t f w =
     (case add_file_like F t f of
        (Inl e, t') \<Rightarrow> (Inl e, t', drp f w)
      | (Inr fd, t') \<Rightarrow> (Inr fd, t', w))"

definition own_dup ::
  "('t, 'a) flatten_ops \<Rightarrow> ('a \<Rightarrow> 'o \<Rightarrow> 'o) \<Rightarrow> ('a \<Rightarrow> 'o \<Rightarrow> 'o) \<Rightarrow> 't \<Rightarrow> i32 \<Rightarrow> 'o \<Rightarrow> isize res \<times> 't \<times> 'o" where
  "own_dup F cln drp t old_fd w =
     (case get_file_like F t old_fd of
        Inl e \<Rightarrow> (Inl e, t, w)
      | Inr f \<Rightarrow>
          (case own_add F drp t f (cln f w) of (r, t', w') \<Rightarrow> (rbind r (\<lambda>new_fd. Inr (scast new_fd)), t', w')))"

definition own_dup2 ::
  "('t, 'a) flatten_ops \<Rightarrow> ('a \<Rightarrow> 'o \<Rightarrow> 'o) \<Rightarrow> ('a \<Rightarrow> 'o \<Rightarrow> 'o) \<Rightarrow> 't \<Rightarrow> i32 \<Rightarrow> i32 \<Rightarrow> 'o \<Rightarrow> isize res \<times> 't \<times> 'o" where
  "own_dup2 F cln drp t old_fd new_fd w =
     (case fo_get F t (fd_index old_fd) of
        None \<Rightarrow> (Inl (Errno EBADF), t, w)
      | Some f \<Rightarrow>
          let w1 = cln f w in
          if old_fd \<noteq> new_fd then
            (case fo_remove F t (fd_index new_fd) of (old, t1) \<Rightarrow>
             let w2 = (case old of None \<Rightarrow> w1 | Some g \<Rightarrow> drp g w1) in
             case fo_add_at F t1 (fd_index new_fd) f of
               None \<Rightarrow> (Inl Panic, t1, w2)
             | Some (_, t2) \<Rightarrow> (Inr (scast new_fd), t2, w2))
          else (Inr (scast new_fd), t, drp f w1))"

definition own_copy_one ::
  "('t, 'a) flatten_ops \<Rightarrow> ('a \<Rightarrow> 'o \<Rightarrow> 'o) \<Rightarrow> ('a \<Rightarrow> 'o \<Rightarrow> 'o) \<Rightarrow> 't \<Rightarrow> 't res \<times> 'o \<Rightarrow> nat \<Rightarrow> 't res \<times> 'o" where
  "own_copy_one F cln drp t s i =
     (case s of
        (Inl e, w) \<Rightarrow> (Inl e, w)
      | (Inr new_table, w) \<Rightarrow>
          (case fo_get F t i of
             None \<Rightarrow> (Inl Panic, w)
           | Some f \<Rightarrow>
               (case fo_add_at F new_table i f of
                  None \<Rightarrow> (Inr new_table, drp f (cln f w))
                | Some (_, t') \<Rightarrow> (Inr t', cln f w))))"

definition own_copy_inner ::
  "('t, 'a) flatten_ops \<Rightarrow> ('a \<Rightarrow> 'o \<Rightarrow> 'o) \<Rightarrow> ('a \<Rightarrow> 'o \<Rightarrow> 'o) \<Rightarrow> 't \<Rightarrow> 'o \<Rightarrow> 't res \<times> 'o" where
  "own_copy_inner F cln drp t w = foldl (own_copy_one F cln drp t) (Inr (fo_new F), w) (fo_ids F t)"

definition own_clear_one ::
  "('t, 'a) flatten_ops \<Rightarrow> ('a \<Rightarrow> 'o \<Rightarrow> 'o) \<Rightarrow> 't \<times> 'o \<Rightarrow> nat \<Rightarrow> 't \<times> 'o" where
  "own_clear_one F drp s i =
     (case s of (t, w) \<Rightarrow>
      case fo_remove F t i of (None, t') \<Rightarrow> (t', w) | (Some f, t') \<Rightarrow> (t', drp f w))"

definition own_clear :: "('t, 'a) flatten_ops \<Rightarrow> ('a \<Rightarrow> 'o \<Rightarrow> 'o) \<Rightarrow> 't \<Rightarrow> 'o \<Rightarrow> 't \<times> 'o" where
  "own_clear F drp t w = foldl (own_clear_one F drp) (t, w) (fo_ids F t)"

text \<open>\<open>sys_pipe2\<close>: the two ends at \<open>a\<close> and \<open>b\<close> hold the buffer at \<open>c\<close>.\<close>

definition own_pipe ::
  "arc \<Rightarrow> arc \<Rightarrow> arc \<Rightarrow> ('f, 'd, 's) owned \<Rightarrow> ('f, 'd, 's) owned" where
  "own_pipe a b c w =
     (case pipe_new of (r_end, w_end, sh) \<Rightarrow>
      let w1 = w\<lparr>ow_files := (ow_files w)\<lparr>pipe_bufs := (pipe_bufs (ow_files w))(c \<mapsto> sh)\<rparr>\<rparr>
      in arc_new b (FPipe w_end c) (arc_new a (FPipe r_end c) w1))"

definition own_pipe2 ::
  "('t, arc) flatten_ops \<Rightarrow> arc \<times> arc \<times> arc \<Rightarrow> unit res \<Rightarrow> 't \<Rightarrow> ('f, 'd, 's) owned
   \<Rightarrow> (i32 \<times> i32) res \<times> 't \<times> ('f, 'd, 's) owned" where
  "own_pipe2 F fresh user t w =
     (case fresh of (a, b, c) \<Rightarrow>
      case user of
        Inl e \<Rightarrow> (Inl e, t, w)
      | Inr _ \<Rightarrow>
          (case own_add F arc_drop t a (own_pipe a b c w) of
             (Inl e, t1, w1) \<Rightarrow> (Inl e, t1, arc_drop b w1)
           | (Inr read_fd, t1, w1) \<Rightarrow>
               (case own_add F arc_drop t1 b w1 of
                  (Inl e, t2, w2) \<Rightarrow>
                    (case own_close F arc_drop t2 read_fd w2 of
                       (Inl _, t3, w3) \<Rightarrow> (Inl Panic, t3, w3)
                     | (Inr _, t3, w3) \<Rightarrow> (Inl e, t3, w3))
                | (Inr write_fd, t2, w2) \<Rightarrow> (Inr (read_fd, write_fd), t2, w2))))"

subsection \<open>Forgetting the counts\<close>

text \<open>Results and tables are those of the operations without counts.\<close>

lemma own_ops_forget:
  "(case own_close F drp t fd w of (r, t', w') \<Rightarrow> (r, t')) = close_file_like F t fd"
  "(case own_dup F cln drp t fd w of (r, t', w') \<Rightarrow> (r, t')) = dup_fd F t fd"
  "(case own_dup2 F cln drp t fd fd' w of (r, t', w') \<Rightarrow> (r, t')) = sys_dup2 F t fd fd'"
  by (auto simp: own_close_def close_file_like_def own_dup_def own_add_def dup_fd_def own_dup2_def sys_dup2_def
      Let_def split: prod.splits option.splits sum.splits)

lemma own_copy_inner_forget: "fst (own_copy_inner F cln drp t w) = copy_inner F t"
proof -
  have "fst (foldl (own_copy_one F cln drp t) s ids) = foldl (copy_one F t) (fst s) ids" for s ids
    by (induction ids arbitrary: s)
      (auto simp: own_copy_one_def copy_one_def split: prod.splits sum.splits option.splits)
  then show ?thesis by (simp add: own_copy_inner_def copy_inner_def)
qed

lemma own_clear_forget: "fst (own_clear F drp t w) = fd_clear F t"
proof -
  have "fst (foldl (own_clear_one F drp) s ids) = foldl (\<lambda>t id. snd (fo_remove F t id)) (fst s) ids" for s ids
    by (induction ids arbitrary: s) (auto simp: own_clear_one_def split: prod.splits option.splits)
  then show ?thesis by (simp add: own_clear_def fd_clear_def)
qed

lemma own_pipe2_forget:
  "(case own_pipe2 F fresh user t w of (r, t', w') \<Rightarrow> (r, t')) = (case sys_pipe2 F fresh user (fs, t) of (r, (fs', t')) \<Rightarrow> (r, t'))"
  by (auto simp: own_pipe2_def sys_pipe2_def own_add_def own_close_def close_file_like_def pipe_new_def Let_def
      split: prod.splits option.splits sum.splits)

section \<open>The references of a table\<close>

definition slot_refs :: "('k \<rightharpoonup> 'a) \<Rightarrow> 'a multiset" where
  "slot_refs m = image_mset (\<lambda>i. the (m i)) (mset_set (dom m))"

lemma slot_refs_empty [simp]: "slot_refs Map.empty = {#}"
  by (simp add: slot_refs_def)

lemma slot_refs_add:
  assumes "finite (dom m)" "m i = None"
  shows "slot_refs (m(i \<mapsto> a)) = add_mset a (slot_refs m)"
proof -
  have i: "i \<notin> dom m" using assms(2) by auto
  then have "image_mset (\<lambda>j. the ((m(i \<mapsto> a)) j)) (mset_set (dom m)) = image_mset (\<lambda>j. the (m j)) (mset_set (dom m))"
    using assms(1) by (intro image_mset_cong) auto
  with i assms(1) show ?thesis by (simp add: slot_refs_def)
qed

lemma slot_refs_del:
  assumes "finite (dom m)" "m i = Some a"
  shows "slot_refs m = add_mset a (slot_refs (m(i := None)))"
  using slot_refs_add [of "m(i := None)" i a] assms by (simp add: fun_upd_idem)

lemma set_slot_refs: "finite (dom m) \<Longrightarrow> set_mset (slot_refs m) = ran m"
  by (force simp: slot_refs_def ran_def)

lemma flatten_finite:
  assumes "flatten_spec F okt" "okt t"
  shows "finite (dom (fo_get F t))"
proof (rule finite_subset)
  show "dom (fo_get F t) \<subseteq> {..<AX_FILE_LIMIT}" using flatten_limit [OF assms] by blast
qed simp

section \<open>The contract of counting\<close>

text \<open>\<open>inv M w\<close>: in the state \<open>w\<close> the references in existence are \<open>M\<close>. A reference can be copied by who holds one,
  and given up.\<close>

locale counted_refs =
  fixes inv :: "'a multiset \<Rightarrow> 'o \<Rightarrow> bool"
    and cln :: "'a \<Rightarrow> 'o \<Rightarrow> 'o"
    and drp :: "'a \<Rightarrow> 'o \<Rightarrow> 'o"
  assumes clone_inv: "inv M w \<Longrightarrow> a \<in># M \<Longrightarrow> inv (add_mset a M) (cln a w)"
    and drop_inv: "inv (add_mset a M) w \<Longrightarrow> inv M (drp a w)"
begin

text \<open>In each lemma \<open>R\<close> are the references held elsewhere, in other tables and by calls in progress.\<close>

lemma own_close_inv:
  assumes "flatten_spec F okt" "okt t" "inv (slot_refs (fo_get F t) + R) w"
    and "own_close F drp t fd w = (r, t', w')"
  shows "okt t' \<and> inv (slot_refs (fo_get F t') + R) w'"
proof -
  let ?i = "fd_index fd"
  note rm = flatten_remove [OF assms(1,2), of ?i]
  note fin = flatten_finite [OF assms(1,2)]
  show ?thesis
  proof (cases "fo_get F t ?i")
    case None
    then have "fo_get F (snd (fo_remove F t ?i)) = fo_get F t" using rm(3) by (simp add: fun_upd_idem)
    moreover have "t' = snd (fo_remove F t ?i)" "w' = w"
      using assms(4) None rm(1) by (auto simp: own_close_def split: prod.splits)
    ultimately show ?thesis using assms(3) rm(2) by simp
  next
    case (Some f)
    then have "t' = snd (fo_remove F t ?i)" "w' = drp f w"
      using assms(4) rm(1) by (auto simp: own_close_def split: prod.splits)
    moreover have "inv (slot_refs ((fo_get F t)(?i := None)) + R) (drp f w)"
      using assms(3) slot_refs_del [OF fin Some] by (intro drop_inv) simp
    ultimately show ?thesis using rm(2,3) by simp
  qed
qed

lemma own_add_inv:
  assumes "flatten_spec F okt" "okt t" "inv (add_mset f (slot_refs (fo_get F t) + R)) w"
    and "own_add F drp t f w = (r, t', w')"
  shows "okt t' \<and> inv (slot_refs (fo_get F t') + R) w'"
proof (cases "fo_add F t f")
  case None
  then have "t' = t" "w' = drp f w" using assms(4) by (auto simp: own_add_def add_file_like_def)
  then show ?thesis using assms(2) drop_inv [OF assms(3)] by simp
next
  case (Some p)
  then obtain i where i: "fo_add F t f = Some (i, t')" "w' = w"
    using assms(4) by (cases p) (auto simp: own_add_def add_file_like_def)
  note add = flatten_add [OF assms(1,2) i(1)]
  show ?thesis
    using assms(3) add(3,4) i(2) slot_refs_add [OF flatten_finite [OF assms(1,2)] add(2)] by simp
qed

lemma own_dup_inv:
  assumes "flatten_spec F okt" "okt t" "inv (slot_refs (fo_get F t) + R) w"
    and "own_dup F cln drp t fd w = (r, t', w')"
  shows "okt t' \<and> inv (slot_refs (fo_get F t') + R) w'"
proof (cases "get_file_like F t fd")
  case (Inl e)
  then show ?thesis using assms by (simp add: own_dup_def)
next
  case (Inr f)
  then have "f \<in> ran (fo_get F t)" by (auto simp: get_file_like_def ran_def res_simps)
  then have "f \<in># slot_refs (fo_get F t) + R"
    using set_slot_refs [OF flatten_finite [OF assms(1,2)]] by auto
  then have inv: "inv (add_mset f (slot_refs (fo_get F t) + R)) (cln f w)" using clone_inv [OF assms(3)] by simp
  obtain r1 where "own_add F drp t f (cln f w) = (r1, t', w')"
    using assms(4) Inr by (auto simp: own_dup_def split: prod.splits)
  then show ?thesis using own_add_inv [OF assms(1,2) inv] by simp
qed

lemma own_dup2_inv:
  assumes "flatten_spec F okt" "okt t" "inv (slot_refs (fo_get F t) + R) w"
    and "own_dup2 F cln drp t fd fd' w = (r, t', w')" and "r \<noteq> Inl Panic"
  shows "okt t' \<and> inv (slot_refs (fo_get F t') + R) w'"
proof (cases "fo_get F t (fd_index fd)")
  case None
  then show ?thesis using assms by (simp add: own_dup2_def)
next
  case (Some f)
  let ?i = "fd_index fd'" and ?m = "fo_get F t"
  note fin = flatten_finite [OF assms(1,2)] and rm = flatten_remove [OF assms(1,2), of ?i]
  have "f \<in># slot_refs ?m + R" using Some set_slot_refs [OF fin] by (auto simp: ran_def)
  then have inv: "inv (add_mset f (slot_refs ?m + R)) (cln f w)" using clone_inv [OF assms(3)] by simp
  show ?thesis
  proof (cases "fd = fd'")
    case True
    then have "t' = t" "w' = drp f (cln f w)" using assms(4) Some by (auto simp: own_dup2_def Let_def)
    then show ?thesis using assms(2) drop_inv [OF inv] by simp
  next
    case False
    let ?w = "case ?m ?i of None \<Rightarrow> cln f w | Some g \<Rightarrow> drp g (cln f w)"
    have "inv (add_mset f (slot_refs (?m(?i := None)) + R)) ?w"
    proof (cases "?m ?i")
      case None
      with inv show ?thesis by (simp add: fun_upd_idem)
    next
      case (Some g)
      have "inv (add_mset g (add_mset f (slot_refs (?m(?i := None)) + R))) (cln f w)"
        using inv slot_refs_del [OF fin Some] by (simp add: add_mset_commute)
      with drop_inv Some show ?thesis by simp
    qed
    moreover obtain t2 where "fo_add_at F (snd (fo_remove F t ?i)) ?i f = Some (?i, t2)" "t' = t2" "w' = ?w"
      "okt t2" "fo_get F t2 = (?m(?i := None))(?i \<mapsto> f)"
      using assms(4,5) False Some rm flatten_add_at [OF assms(1) rm(2), of ?i f]
      by (cases "?i < AX_FILE_LIMIT") (auto simp: own_dup2_def Let_def split: prod.splits)
    ultimately show ?thesis using slot_refs_add [of "?m(?i := None)" ?i f] fin by simp
  qed
qed

lemma own_copy_fold_inv:
  assumes "flatten_spec F okt" "okt t" "okt n" "set ids \<subseteq> dom (fo_get F t)"
    and "inv (slot_refs (fo_get F n) + (slot_refs (fo_get F t) + R)) w"
    and "foldl (own_copy_one F cln drp t) (Inr n, w) ids = (Inr n', w')"
  shows "okt n' \<and> inv (slot_refs (fo_get F n') + (slot_refs (fo_get F t) + R)) w'"
  using assms(3-6)
proof (induction ids arbitrary: n w)
  case (Cons i ids)
  then obtain f where f: "fo_get F t i = Some f" by auto
  then have mem: "f \<in># slot_refs (fo_get F n) + (slot_refs (fo_get F t) + R)"
    using set_slot_refs [OF flatten_finite [OF assms(1,2)]] by (auto simp: ran_def)
  note inv = clone_inv [OF Cons.prems(3) mem]
  show ?case
  proof (cases "i < AX_FILE_LIMIT \<and> fo_get F n i = None")
    case True
    then obtain n1 where n1: "fo_add_at F n i f = Some (i, n1)" "okt n1" "fo_get F n1 = (fo_get F n)(i \<mapsto> f)"
      using flatten_add_at(1) [OF assms(1) Cons.prems(1), of i f] by blast
    then have "inv (slot_refs (fo_get F n1) + (slot_refs (fo_get F t) + R)) (cln f w)"
      using inv slot_refs_add [OF flatten_finite [OF assms(1) Cons.prems(1)], of i f] True by simp
    then show ?thesis using Cons.IH [OF n1(2) _ _] Cons.prems(2,4) f n1(1) by (simp add: own_copy_one_def)
  next
    case False
    then have "fo_add_at F n i f = None" using flatten_add_at(2) [OF assms(1) Cons.prems(1), of i f] by blast
    then show ?thesis using Cons.IH [OF Cons.prems(1) _ drop_inv [OF inv]] Cons.prems(2,4) f by (simp add: own_copy_one_def)
  qed
qed simp

lemma own_copy_inner_inv:
  assumes "flatten_spec F okt" "okt t" "inv (slot_refs (fo_get F t) + R) w"
    and "own_copy_inner F cln drp t w = (Inr t', w')"
  shows "okt t' \<and> inv (slot_refs (fo_get F t') + (slot_refs (fo_get F t) + R)) w'"
proof -
  have "inv (slot_refs (fo_get F (fo_new F)) + (slot_refs (fo_get F t) + R)) w"
    using assms(3) flatten_new(2) [OF assms(1)] by simp
  then show ?thesis
    using own_copy_fold_inv [OF assms(1,2) flatten_new(1) [OF assms(1)], of "fo_ids F t"] flatten_ids [OF assms(1,2)] assms(4)
    by (simp add: own_copy_inner_def)
qed

lemma own_clear_inv:
  assumes "flatten_spec F okt" "okt t" "inv (slot_refs (fo_get F t) + R) w"
    and "own_clear F drp t w = (t', w')"
  shows "okt t' \<and> inv (slot_refs (fo_get F t') + R) w'"
proof -
  have "okt t' \<and> inv (slot_refs (fo_get F t') + R) w'"
    if "okt t" "inv (slot_refs (fo_get F t) + R) w" "foldl (own_clear_one F drp) (t, w) ids = (t', w')" for t w ids
    using that
  proof (induction ids arbitrary: t w)
    case (Cons i ids)
    note rm = flatten_remove [OF assms(1) Cons.prems(1), of i]
    show ?case
    proof (cases "fo_get F t i")
      case None
      then have "own_clear_one F drp (t, w) i = (snd (fo_remove F t i), w)"
        using rm(1) by (auto simp: own_clear_one_def split: prod.splits)
      with None Cons.IH [OF rm(2), of w] Cons.prems(2,3) rm(3) show ?thesis by (simp add: fun_upd_idem)
    next
      case (Some f)
      then have "own_clear_one F drp (t, w) i = (snd (fo_remove F t i), drp f w)"
        using rm(1) by (auto simp: own_clear_one_def split: prod.splits)
      moreover have "inv (slot_refs ((fo_get F t)(i := None)) + R) (drp f w)"
        using Cons.prems(2) slot_refs_del [OF flatten_finite [OF assms(1) Cons.prems(1)] Some] by (intro drop_inv) simp
      ultimately show ?thesis using Cons.IH [OF rm(2), unfolded rm(3)] Cons.prems(3) by (simp del: fun_upd_apply)
    qed
  qed simp
  with assms show ?thesis by (auto simp: own_clear_def)
qed

end

section \<open>Objects, pipe buffers and their counts\<close>

text \<open>Each buffer has at most one read end and one write end, and its count is the number of those that live.\<close>

definition has_end :: "('f, 'd, 's) files \<Rightarrow> bool \<Rightarrow> arc \<Rightarrow> bool" where
  "has_end fs r b \<longleftrightarrow> (\<exists>a. objs fs a = Some (FPipe r b))"

definition buffer_ok :: "('f, 'd, 's) files \<Rightarrow> arc \<Rightarrow> bool" where
  "buffer_ok fs b \<longleftrightarrow>
     (case pipe_bufs fs b of
        None \<Rightarrow> \<not> has_end fs True b \<and> \<not> has_end fs False b
      | Some sh \<Rightarrow> ring_inv (buffer sh) \<and> 0 < strong_count sh \<and>
          strong_count sh = of_bool (has_end fs True b) + of_bool (has_end fs False b))"

definition ends_ok :: "('f, 'd, 's) files \<Rightarrow> bool" where
  "ends_ok fs \<longleftrightarrow>
     (\<forall>a a' r b. objs fs a = Some (FPipe r b) \<longrightarrow> objs fs a' = Some (FPipe r b) \<longrightarrow> a = a') \<and> (\<forall>b. buffer_ok fs b)"

definition owned_ok :: "arc multiset \<Rightarrow> ('f, 'd, 's) owned \<Rightarrow> bool" where
  "owned_ok M w \<longleftrightarrow> ow_counts w = count M \<and> dom (objs (ow_files w)) = set_mset M \<and> ends_ok (ow_files w)"

lemma has_end_cong: "objs fs' = objs fs \<Longrightarrow> has_end fs' = has_end fs"
  by (simp add: has_end_def fun_eq_iff)

lemma has_end_upd:
  assumes "objs fs' = (objs fs)(a := x)" "x \<noteq> Some (FPipe r b)" "objs fs a \<noteq> Some (FPipe r b)"
  shows "has_end fs' r b = has_end fs r b"
  using assms unfolding has_end_def by (metis fun_upd_apply)

lemma buffer_ok_cong:
  "\<forall>r. has_end fs' r b = has_end fs r b \<Longrightarrow> pipe_bufs fs' b = pipe_bufs fs b \<Longrightarrow> buffer_ok fs' b = buffer_ok fs b"
  by (cases "pipe_bufs fs b") (simp_all add: buffer_ok_def)

lemma end_buffer:
  assumes "ends_ok fs" "has_end fs r b"
  obtains sh where "pipe_bufs fs b = Some sh" "ring_inv (buffer sh)"
    "strong_count sh = of_bool (has_end fs True b) + of_bool (has_end fs False b)"
proof -
  have ok: "buffer_ok fs b" using assms(1) by (simp add: ends_ok_def)
  show ?thesis
  proof (cases "pipe_bufs fs b")
    case None
    with ok assms(2) show ?thesis by (cases r) (simp_all add: buffer_ok_def)
  next
    case (Some sh)
    with ok that show ?thesis by (simp add: buffer_ok_def)
  qed
qed

lemma ends_ok_drop_plain:
  assumes "ends_ok fs" "\<And>r b. objs fs a \<noteq> Some (FPipe r b)"
  shows "ends_ok (fs\<lparr>objs := (objs fs)(a := None)\<rparr>)"
proof -
  have "has_end (fs\<lparr>objs := (objs fs)(a := None)\<rparr>) r b = has_end fs r b" for r b
    using assms(2) by (intro has_end_upd [of _ _ a None]) auto
  then have "buffer_ok (fs\<lparr>objs := (objs fs)(a := None)\<rparr>) b" for b
    using assms(1) buffer_ok_cong [of "fs\<lparr>objs := (objs fs)(a := None)\<rparr>" b fs] by (simp add: ends_ok_def)
  then show ?thesis using assms(1) by (auto simp: ends_ok_def)
qed

lemma ends_ok_drop_pipe:
  assumes "ends_ok fs" "objs fs a = Some (FPipe r b)"
  shows "ends_ok (drop_buffer b (fs\<lparr>objs := (objs fs)(a := None)\<rparr>))"
proof -
  let ?fs = "fs\<lparr>objs := (objs fs)(a := None)\<rparr>"
  let ?gs = "drop_buffer b ?fs"
  have uniq: "a' = a" if "objs fs a' = Some (FPipe r b)" for a'
    using assms that unfolding ends_ok_def by blast
  have obj: "objs ?gs = (objs fs)(a := None)" by (simp add: drop_buffer_def split: option.splits)
  have h: "has_end ?gs r' c \<longleftrightarrow> has_end fs r' c \<and> \<not> (r' = r \<and> c = b)" for r' c
  proof (cases "r' = r \<and> c = b")
    case True
    then show ?thesis using uniq obj by (auto simp: has_end_def)
  next
    case False
    then show ?thesis using has_end_upd [OF obj, of r' c] assms(2) by auto
  qed
  have e: "has_end fs r b" using assms(2) by (auto simp: has_end_def)
  obtain sh where sh: "pipe_bufs fs b = Some sh" "ring_inv (buffer sh)"
    "strong_count sh = of_bool (has_end fs True b) + of_bool (has_end fs False b)"
    using end_buffer [OF assms(1) e] by blast
  have "buffer_ok ?gs c" for c
  proof (cases "c = b")
    case True
    have "pipe_bufs ?gs b = (if has_end fs (\<not> r) b then Some (sh\<lparr>strong_count := 1\<rparr>) else None)"
      using sh e by (cases r) (auto simp: drop_buffer_def)
    then show ?thesis using True sh(2) h by (cases r) (simp_all add: buffer_ok_def)
  next
    case False
    then have "pipe_bufs ?gs c = pipe_bufs fs c" "\<And>r'. has_end ?gs r' c = has_end fs r' c"
      using h by (auto simp: drop_buffer_def split: option.splits)
    moreover have "buffer_ok fs c" using assms(1) by (simp add: ends_ok_def)
    ultimately show ?thesis using buffer_ok_cong by blast
  qed
  then show ?thesis using assms(1) obj by (auto simp: ends_ok_def)
qed

lemma ends_ok_drop_object: "ends_ok fs \<Longrightarrow> ends_ok (drop_object a fs)"
  using ends_ok_drop_plain [of fs a] ends_ok_drop_pipe [of fs a]
  by (auto simp: drop_object_def Let_def split: option.splits file_obj.splits)

lemma objs_drop_object [simp]: "objs (drop_object a fs) = (objs fs)(a := None)"
  by (auto simp: drop_object_def drop_buffer_def Let_def split: option.splits file_obj.splits)

lemma arc_clone_ok: "owned_ok M w \<Longrightarrow> a \<in># M \<Longrightarrow> owned_ok (add_mset a M) (arc_clone a w)"
  by (auto simp: owned_ok_def arc_clone_def fun_eq_iff)

lemma arc_drop_ok:
  assumes "owned_ok (add_mset a M) w"
  shows "owned_ok M (arc_drop a w)"
proof (cases "a \<in># M")
  case True
  then have "\<not> ow_counts w a \<le> 1" using assms by (simp add: owned_ok_def)
  then have "arc_drop a w = w\<lparr>ow_counts := (ow_counts w)(a := ow_counts w a - 1)\<rparr>" by (simp add: arc_drop_def)
  then show ?thesis using assms True by (auto simp: owned_ok_def fun_eq_iff)
next
  case False
  then have "count M a = 0" by (simp add: not_in_iff)
  then show ?thesis
    using assms False ends_ok_drop_object [of "ow_files w" a]
    by (auto simp: owned_ok_def arc_drop_def fun_eq_iff)
qed

interpretation arcs: counted_refs owned_ok arc_clone arc_drop
  by unfold_locales (fact arc_clone_ok arc_drop_ok)+

text \<open>New objects: a plain one, and the two ends of a pipe.\<close>

lemma arc_new_ok:
  assumes "owned_ok M w" "a \<notin># M" "\<And>r b. obj \<noteq> FPipe r b"
  shows "owned_ok (add_mset a M) (arc_new a obj w)"
proof -
  have a: "objs (ow_files w) a = None" using assms(1,2) by (auto simp: owned_ok_def)
  let ?fs = "(ow_files w)\<lparr>objs := (objs (ow_files w))(a \<mapsto> obj)\<rparr>"
  have "has_end ?fs r b = has_end (ow_files w) r b" for r b
    using a assms(3) by (intro has_end_upd [of _ _ a "Some obj"]) auto
  then have "buffer_ok ?fs b" for b
    using assms(1) buffer_ok_cong [of ?fs b "ow_files w"] by (simp add: owned_ok_def ends_ok_def)
  then have "ends_ok ?fs" using assms(1,3) by (auto simp: owned_ok_def ends_ok_def split: if_splits)
  moreover have "count M a = 0" using assms(2) by (simp add: not_in_iff)
  ultimately show ?thesis using assms(1) by (auto simp: owned_ok_def arc_new_def fun_eq_iff)
qed

lemma own_pipe_ok:
  assumes "owned_ok M w" "a \<noteq> b" "a \<notin># M" "b \<notin># M" "c \<notin> dom (pipe_bufs (ow_files w))"
  shows "owned_ok (add_mset a (add_mset b M)) (own_pipe a b c w)"
proof -
  let ?fs = "ow_files w"
  let ?gs = "ow_files (own_pipe a b c w)"
  have none: "objs ?fs a = None" "objs ?fs b = None" using assms(1,3,4) by (auto simp: owned_ok_def)
  have gs: "objs ?gs = (objs ?fs)(a \<mapsto> FPipe True c, b \<mapsto> FPipe False c)"
    "pipe_bufs ?gs = (pipe_bufs ?fs)(c \<mapsto> \<lparr>buffer = ring_new, strong_count = 2\<rparr>)"
    by (simp_all add: own_pipe_def pipe_new_def arc_new_def)
  have noc: "\<not> has_end ?fs r c" for r
    using assms(1,5) unfolding owned_ok_def ends_ok_def buffer_ok_def by (cases r) (auto split: option.splits)
  have h: "has_end ?gs r d \<longleftrightarrow> d = c \<or> has_end ?fs r d" for r d
  proof
    show "d = c \<or> has_end ?fs r d" if "has_end ?gs r d"
      using that unfolding has_end_def gs by (auto split: if_splits)
    assume "d = c \<or> has_end ?fs r d"
    then show "has_end ?gs r d"
    proof
      assume "d = c"
      then have "objs ?gs (if r then a else b) = Some (FPipe r d)" using assms(2) gs(1) by simp
      then show ?thesis by (auto simp: has_end_def)
    next
      assume "has_end ?fs r d"
      then obtain x where "objs ?fs x = Some (FPipe r d)" by (auto simp: has_end_def)
      then have "objs ?gs x = Some (FPipe r d)" using none gs(1) by auto
      then show ?thesis by (auto simp: has_end_def)
    qed
  qed
  have "buffer_ok ?gs d" for d
  proof (cases "d = c")
    case True
    then show ?thesis using h by (simp add: buffer_ok_def gs(2))
  next
    case False
    moreover have "buffer_ok ?fs d" using assms(1) by (simp add: owned_ok_def ends_ok_def)
    ultimately show ?thesis using buffer_ok_cong [of ?gs d ?fs] by (simp add: gs(2) h)
  qed
  moreover have "x = y" if "objs ?gs x = Some (FPipe r d)" "objs ?gs y = Some (FPipe r d)" for x y r d
  proof (cases "d = c")
    case True
    then show ?thesis using that noc unfolding gs(1) by (auto simp: has_end_def split: if_splits)
  next
    case False
    then have "objs ?fs x = Some (FPipe r d)" "objs ?fs y = Some (FPipe r d)"
      using that unfolding gs(1) by (auto split: if_splits)
    then show ?thesis using assms(1) unfolding owned_ok_def ends_ok_def by blast
  qed
  ultimately have "ends_ok ?gs" by (simp add: ends_ok_def)
  moreover have "count M a = 0" "count M b = 0" using assms(3,4) by (simp_all add: not_in_iff)
  ultimately show ?thesis
    using assms(1,2) gs(1) by (auto simp: owned_ok_def own_pipe_def pipe_new_def arc_new_def fun_eq_iff)
qed

lemma own_pipe2_inv:
  assumes "flatten_spec F okt" "okt t" "owned_ok (slot_refs (fo_get F t) + R) w" "a \<noteq> b"
    and "{a, b} \<inter> dom (objs (ow_files w)) = {}" "c \<notin> dom (pipe_bufs (ow_files w))"
    and "own_pipe2 F (a, b, c) user t w = (r, t', w')"
  shows "r \<noteq> Inl Panic \<or> user = Inl Panic" "okt t' \<and> owned_ok (slot_refs (fo_get F t') + R) w'"
proof -
  let ?M = "slot_refs (fo_get F t) + R"
  have "a \<notin># ?M" "b \<notin># ?M" using assms(3,5) unfolding owned_ok_def by blast+
  then have "owned_ok (add_mset a (add_mset b ?M)) (own_pipe a b c w)"
    using own_pipe_ok [OF assms(3,4) _ _ assms(6)] by simp
  then have ok: "owned_ok (add_mset a (slot_refs (fo_get F t) + add_mset b R)) (own_pipe a b c w)" by simp
  obtain r1 t1 w1 where add1: "own_add F arc_drop t a (own_pipe a b c w) = (r1, t1, w1)" using prod_cases3 by blast
  note t1 = arcs.own_add_inv [OF assms(1,2) ok add1]
  have "(r \<noteq> Inl Panic \<or> user = Inl Panic) \<and> okt t' \<and> owned_ok (slot_refs (fo_get F t') + R) w'"
  proof (cases user)
    case (Inl e)
    with assms(2,3,7) show ?thesis by (auto simp: own_pipe2_def)
  next
    case user: (Inr u)
    show ?thesis
    proof (cases r1)
      case (Inl e)
      then have "r = Inl e" "t' = t1" "w' = arc_drop b w1"
        using assms(7) user add1 by (simp_all add: own_pipe2_def)
      moreover have "e \<noteq> Panic"
        using add1 Inl by (auto simp: own_add_def add_file_like_def split: option.splits)
      ultimately show ?thesis using t1 arc_drop_ok [of b "slot_refs (fo_get F t1) + R" w1] by simp
    next
      case r1: (Inr rfd)
      have ok1: "owned_ok (add_mset b (slot_refs (fo_get F t1) + R)) w1" using t1 by simp
      obtain r2 t2 w2 where add2: "own_add F arc_drop t1 b w1 = (r2, t2, w2)" using prod_cases3 by blast
      note t2 = arcs.own_add_inv [OF assms(1) _ ok1 add2]
      show ?thesis
      proof (cases r2)
        case (Inr wfd)
        then have "r = Inr (rfd, wfd)" "t' = t2" "w' = w2"
          using assms(7) user add1 r1 add2 by (simp_all add: own_pipe2_def)
        then show ?thesis using t1 t2 by simp
      next
        case (Inl e)
        have e: "e \<noteq> Panic" "t2 = t1"
          using add2 Inl by (auto simp: own_add_def add_file_like_def split: prod.splits option.splits)
        have "add_file_like F t a = (Inr rfd, t1)"
          using add1 r1 by (auto simp: own_add_def split: prod.splits sum.splits)
        note a1 = add_file_like_spec [OF assms(1,2) this]
        obtain r3 t3 w3 where close: "own_close F arc_drop t2 rfd w2 = (r3, t3, w3)" using prod_cases3 by blast
        have "r3 = Inr ()"
          using close e(2) a1(4) flatten_remove(1) [OF assms(1) a1(1), of "fd_index rfd"]
          by (auto simp: own_close_def split: prod.splits option.splits)
        then have "r = Inl e" "t' = t3" "w' = w3"
          using assms(7) user add1 r1 add2 Inl close by (simp_all add: own_pipe2_def)
        moreover have "okt t2" "owned_ok (slot_refs (fo_get F t2) + R) w2" using t1 t2 by simp_all
        ultimately show ?thesis using e(1) arcs.own_close_inv [OF assms(1) _ _ close] by simp
      qed
    qed
  qed
  then show "r \<noteq> Inl Panic \<or> user = Inl Panic" "okt t' \<and> owned_ok (slot_refs (fo_get F t') + R) w'" by blast+
qed

end
