(* ===== verification/System.thy ===== *)
theory System
  imports Ownership
begin

text \<open>
  The file layer with all processes: the state of \<open>Clone\<close> (processes, threads, descriptor tables), the
  counted objects of \<open>Ownership\<close>, and the calls of \<open>read\<close> and \<open>write\<close> that are in progress. A step is one
  system call of one thread, or one turn of the loop of a blocking call, so closing, forking and exiting
  interleave with calls that wait. A call in progress holds a reference to its object, as the local
  variable that \<open>get_file_like\<close> returns does.
\<close>

section \<open>State\<close>

text \<open>A blocked \<open>read\<close> has its object and the size of its buffer; a \<open>write\<close> its object, its bytes and, once it has
  passed the checks at its start, the number of bytes written.\<close>

datatype pending = PRead arc nat | PWrite arc "u8 list" "nat option"

fun call_obj :: "pending \<Rightarrow> arc" where
  "call_obj (PRead a n) = a"
| "call_obj (PWrite a bs ws) = a"

datatype ret = RRead "u8 list res" | RWrite "nat res"

record ('as, 't, 'act, 'w, 'f, 'd, 's, 'v, 'b) system =
  sy_k :: "('as, 't, 'act, 'w) kstate"
  sy_own :: "('f, 'd, 's) owned"
  sy_dev :: 'v
  sy_stdin :: 'b
  sy_calls :: "pid \<rightharpoonup> pending"
  sy_rets :: "(pid \<times> ret) list"

abbreviation sys_files :: "('as, 't, 'act, 'w, 'f, 'd, 's, 'v, 'b) system \<Rightarrow> ('f, 'd, 's) files" where
  "sys_files S \<equiv> ow_files (sy_own S)"

definition sys_world :: "('as, 't, 'act, 'w, 'f, 'd, 's, 'v, 'b) system \<Rightarrow> ('f, 'd, 's, 'v, 'b) kworld" where
  "sys_world S = \<lparr>k_files = sys_files S, k_dev = sy_dev S, k_stdin = sy_stdin S\<rparr>"

definition put_world ::
  "('f, 'd, 's, 'v, 'b) kworld \<Rightarrow> ('as, 't, 'act, 'w, 'f, 'd, 's, 'v, 'b) system \<Rightarrow> ('as, 't, 'act, 'w, 'f, 'd, 's, 'v, 'b) system" where
  "put_world W S = S\<lparr>sy_own := (sy_own S)\<lparr>ow_files := k_files W\<rparr>, sy_dev := k_dev W, sy_stdin := k_stdin W\<rparr>"

text \<open>The descriptor table of a thread, and its reference in the store.\<close>

definition thread_fds :: "('as, 't, 'act, 'w) kstate \<Rightarrow> pid \<Rightarrow> (arc \<times> 't) option" where
  "thread_fds K tid =
     (case threads K tid of
        None \<Rightarrow> None
      | Some td \<Rightarrow>
          (case procs K (td_process td) of
             None \<Rightarrow> None
           | Some pd \<Rightarrow> map_option (Pair (pd_fds pd)) (fd_tables K (pd_fds pd))))"

definition put_table ::
  "arc \<Rightarrow> 't \<Rightarrow> ('f, 'd, 's) owned \<Rightarrow> ('as, 't, 'act, 'w, 'f, 'd, 's, 'v, 'b) system \<Rightarrow> ('as, 't, 'act, 'w, 'f, 'd, 's, 'v, 'b) system" where
  "put_table x t w S = S\<lparr>sy_k := (sy_k S)\<lparr>fd_tables := (fd_tables (sy_k S))(x \<mapsto> t)\<rparr>, sy_own := w\<rparr>"

section \<open>One turn of a blocking call\<close>

text \<open>For a pipe, one iteration under the lock of the buffer; for another object the whole call, given the keys
  that are typed meanwhile. No result while the call goes on.\<close>

definition read_turn ::
  "('f, 'u, 'v, 'w, 'b) dev_ops \<Rightarrow> u8 list list \<Rightarrow> ('f, 'd, ('u, 'v) socket) file_obj \<Rightarrow> nat
   \<Rightarrow> ('f, 'd, ('u, 'v) socket, 'w, 'b) kworld \<Rightarrow> u8 list res option \<times> ('f, 'd, ('u, 'v) socket, 'w, 'b) kworld" where
  "read_turn D keys obj n W =
     (case obj of
        FPipe r b \<Rightarrow>
          if \<not> r then (Some (Inl (Errno EPERM)), W)
          else if n = 0 then (Some (Inr []), W)
          else
            (case pipe_bufs (k_files W) b of
               None \<Rightarrow> (Some (Inl Panic), W)
             | Some sh \<Rightarrow>
                 (case pipe_read_iter n sh of
                    Inl e \<Rightarrow> (Some (Inl e), W)
                  | Inr (out, sh') \<Rightarrow> (map_option Inr out, set_pipe b sh' W)))
      | _ \<Rightarrow>
          (case file_read D \<lparr>w_pipe = [], w_keys = keys\<rparr> obj n W of
             None \<Rightarrow> (None, W)
           | Some (r, W') \<Rightarrow> (Some r, W')))"

text \<open>The turn of a \<open>write\<close> ends the call with a result or leaves the number of bytes written.\<close>

definition write_turn ::
  "('f, 'u, 'v, 'w, 'b) dev_ops \<Rightarrow> ('f, 'd, ('u, 'v) socket) file_obj \<Rightarrow> u8 list \<Rightarrow> nat option
   \<Rightarrow> ('f, 'd, ('u, 'v) socket, 'w, 'b) kworld \<Rightarrow> (nat res + nat option) \<times> ('f, 'd, ('u, 'v) socket, 'w, 'b) kworld" where
  "write_turn D obj bs ws W =
     (case obj of
        FPipe r b \<Rightarrow>
          (case pipe_bufs (k_files W) b of
             None \<Rightarrow> (Inl (Inl Panic), W)
           | Some sh \<Rightarrow>
               (case ws of
                  None \<Rightarrow>
                    (if \<not> writable r then Inl (Inl (Errno EPERM))
                     else if closed sh then Inl (Inl (Errno EPIPE))
                     else if bs = [] then Inl (Inr 0)
                     else Inr (Some 0), W)
                | Some k \<Rightarrow>
                    (case pipe_write_iter bs k sh of
                       Inl e \<Rightarrow> (Inl (Inl e), W)
                     | Inr (fin, k', sh') \<Rightarrow> (if fin then Inl (Inr k') else Inr (Some k'), set_pipe b sh' W))))
      | _ \<Rightarrow>
          (case file_write D \<lparr>w_pipe = [], w_keys = []\<rparr> obj bs W of
             None \<Rightarrow> (Inr ws, W)
           | Some (r, W') \<Rightarrow> (Inl r, W')))"

text \<open>The end of a call: the reference it held is dropped.\<close>

definition finish_call ::
  "pid \<Rightarrow> arc \<Rightarrow> ret \<Rightarrow> ('as, 't, 'act, 'w, 'f, 'd, 's, 'v, 'b) system \<Rightarrow> ('as, 't, 'act, 'w, 'f, 'd, 's, 'v, 'b) system" where
  "finish_call tid a r S =
     S\<lparr>sy_own := arc_drop a (sy_own S), sy_calls := (sy_calls S)(tid := None), sy_rets := sy_rets S @ [(tid, r)]\<rparr>"

section \<open>Forking and exiting\<close>

text \<open>The references a clone copies: those of the table it made, when it made one.\<close>

definition clone_refs ::
  "('t, arc) flatten_ops \<Rightarrow> ('as, 'act, 'w) clone_env \<Rightarrow> ('as, 't, 'act, 'w) kstate \<Rightarrow> 't \<Rightarrow> ('f, 'd, 's) owned \<Rightarrow> ('f, 'd, 's) owned" where
  "clone_refs F C K' t w =
     (if fd_tables K' (fresh_fd C) = None then w else snd (own_copy_inner F arc_clone arc_drop t w))"

text \<open>\<open>do_exit\<close> of a thread: the table is cleared by the last thread of a process, whoever else uses the table.\<close>

definition last_thread :: "('as, 't, 'act, 'w) kstate \<Rightarrow> pid \<Rightarrow> bool" where
  "last_thread K tid \<longleftrightarrow>
     (\<forall>tid' td'. threads K tid' = Some td' \<longrightarrow> map_option td_process (threads K tid) = Some (td_process td') \<longrightarrow> tid' = tid)"

definition exit_thread ::
  "('t, arc) flatten_ops \<Rightarrow> exit_effect list \<Rightarrow> pid \<Rightarrow> arc \<Rightarrow> 't \<Rightarrow> ('as, 't, 'act, 'w, 'f, 'd, 's, 'v, 'b) system
   \<Rightarrow> ('as, 't, 'act, 'w, 'f, 'd, 's, 'v, 'b) system" where
  "exit_thread F effects tid x t S =
     (let S1 = (if FdTableClear \<in> set effects
                then case own_clear F arc_drop t (sy_own S) of (t', w') \<Rightarrow> put_table x t' w' S else S)
      in S1\<lparr>sy_k := (sy_k S1)\<lparr>threads := (threads (sy_k S1))(tid := None)\<rparr>\<rparr>)"

section \<open>Steps\<close>

inductive sys_step ::
  "('t, arc) flatten_ops \<Rightarrow> ('f, 'u, 'sv, 'v, 'b) dev_ops
   \<Rightarrow> ('as, 't, 'act, 'w, 'f, 'd, ('u, 'sv) socket, 'v, 'b) system
   \<Rightarrow> ('as, 't, 'act, 'w, 'f, 'd, ('u, 'sv) socket, 'v, 'b) system \<Rightarrow> bool"
  for F D where
  sys_step_close: "sy_calls S tid = None \<Longrightarrow> thread_fds (sy_k S) tid = Some (x, t) \<Longrightarrow>
     own_close F arc_drop t fd (sy_own S) = (r, t', w') \<Longrightarrow> sys_step F D S (put_table x t' w' S)"
| sys_step_dup: "sy_calls S tid = None \<Longrightarrow> thread_fds (sy_k S) tid = Some (x, t) \<Longrightarrow>
     own_dup F arc_clone arc_drop t fd (sy_own S) = (ri, t', w') \<Longrightarrow> sys_step F D S (put_table x t' w' S)"
| sys_step_dup2: "sy_calls S tid = None \<Longrightarrow> thread_fds (sy_k S) tid = Some (x, t) \<Longrightarrow>
     own_dup2 F arc_clone arc_drop t fd fd' (sy_own S) = (ri, t', w') \<Longrightarrow> ri \<noteq> Inl Panic \<Longrightarrow>
     sys_step F D S (put_table x t' w' S)"
| sys_step_open: "sy_calls S tid = None \<Longrightarrow> thread_fds (sy_k S) tid = Some (x, t) \<Longrightarrow>
     objs (sys_files S) a = None \<Longrightarrow> (\<And>e b. obj \<noteq> FPipe e b) \<Longrightarrow>
     own_add F arc_drop t a (arc_new a obj (sy_own S)) = (rf, t', w') \<Longrightarrow> sys_step F D S (put_table x t' w' S)"
| sys_step_pipe2: "sy_calls S tid = None \<Longrightarrow> thread_fds (sy_k S) tid = Some (x, t) \<Longrightarrow> a \<noteq> b \<Longrightarrow>
     {a, b} \<inter> dom (objs (sys_files S)) = {} \<Longrightarrow> c \<notin> dom (pipe_bufs (sys_files S)) \<Longrightarrow>
     own_pipe2 F (a, b, c) user t (sy_own S) = (rp, t', w') \<Longrightarrow> sys_step F D S (put_table x t' w' S)"
| sys_step_read: "sy_calls S tid = None \<Longrightarrow> thread_fds (sy_k S) tid = Some (x, t) \<Longrightarrow> get_file_like F t fd = Inr a \<Longrightarrow>
     sys_step F D S (S\<lparr>sy_own := arc_clone a (sy_own S), sy_calls := (sy_calls S)(tid \<mapsto> PRead a n)\<rparr>)"
| sys_step_read_turn: "sy_calls S tid = Some (PRead a n) \<Longrightarrow> objs (sys_files S) a = Some obj \<Longrightarrow>
     read_turn D keys obj n (sys_world S) = (out, W) \<Longrightarrow>
     sys_step F D S (case out of None \<Rightarrow> put_world W S | Some r \<Rightarrow> finish_call tid a (RRead r) (put_world W S))"
| sys_step_write: "sy_calls S tid = None \<Longrightarrow> thread_fds (sy_k S) tid = Some (x, t) \<Longrightarrow> get_file_like F t fd = Inr a \<Longrightarrow>
     sys_step F D S (S\<lparr>sy_own := arc_clone a (sy_own S), sy_calls := (sy_calls S)(tid \<mapsto> PWrite a bs None)\<rparr>)"
| sys_step_write_turn: "sy_calls S tid = Some (PWrite a bs ws) \<Longrightarrow> objs (sys_files S) a = Some obj \<Longrightarrow>
     write_turn D obj bs ws (sys_world S) = (out, W) \<Longrightarrow>
     sys_step F D S (case out of Inl r \<Rightarrow> finish_call tid a (RWrite r) (put_world W S)
       | Inr ws' \<Rightarrow> (put_world W S)\<lparr>sy_calls := (sy_calls S)(tid \<mapsto> PWrite a bs ws')\<rparr>)"
| sys_step_clone: "sy_calls S tid = None \<Longrightarrow> threads (sy_k S) tid = Some td \<Longrightarrow> thread_fds (sy_k S) tid = Some (x, t) \<Longrightarrow>
     fd_tables (sy_k S) (fresh_fd C) = None \<Longrightarrow> threads (sy_k S) child = None \<Longrightarrow> procs (sy_k S) child = None \<Longrightarrow>
     sys_clone P X F C tf (td_process td) child flags stack ptid pchk ctid cchk tls (sy_k S) = (rc, K') \<Longrightarrow>
     sys_step F D S (S\<lparr>sy_k := K', sy_own := clone_refs F C K' t (sy_own S)\<rparr>)"
| sys_step_exit: "sy_calls S tid = None \<Longrightarrow> thread_fds (sy_k S) tid = Some (x, t) \<Longrightarrow>
     ex_last ctx \<longleftrightarrow> last_thread (sy_k S) tid \<Longrightarrow>
     sys_step F D S (exit_thread F (do_exit code gexit ctx) tid x t S)"

section \<open>No reference is lost or invented\<close>

text \<open>The references in existence: those in the tables and those of calls in progress.\<close>

definition table_refs :: "('t, arc) flatten_ops \<Rightarrow> (arc \<rightharpoonup> 't) \<Rightarrow> arc multiset" where
  "table_refs F T = (\<Sum>x \<in> dom T. slot_refs (fo_get F (the (T x))))"

definition call_refs :: "(pid \<rightharpoonup> pending) \<Rightarrow> arc multiset" where
  "call_refs calls = slot_refs (map_option call_obj \<circ> calls)"

text \<open>The position of a \<open>write\<close> in progress stays within its bytes.\<close>

definition call_ok :: "pending \<Rightarrow> bool" where
  "call_ok c = (case c of PRead a n \<Rightarrow> True | PWrite a bs ws \<Rightarrow> (case ws of None \<Rightarrow> True | Some k \<Rightarrow> k \<le> length bs))"

definition sys_ok ::
  "('t, arc) flatten_ops \<Rightarrow> ('t \<Rightarrow> bool) \<Rightarrow> ('as, 't, 'act, 'w, 'f, 'd, 's, 'v, 'b) system \<Rightarrow> bool" where
  "sys_ok F okt S \<longleftrightarrow>
     finite (dom (fd_tables (sy_k S))) \<and> (\<forall>t \<in> ran (fd_tables (sy_k S)). okt t) \<and>
     finite (dom (sy_calls S)) \<and> (\<forall>c \<in> ran (sy_calls S). call_ok c) \<and>
     owned_ok (table_refs F (fd_tables (sy_k S)) + call_refs (sy_calls S)) (sy_own S)"

lemma table_refs_split:
  assumes "finite (dom T)" "T x = Some t"
  shows "table_refs F T = slot_refs (fo_get F t) + table_refs F (T(x := None))"
    and "table_refs F (T(x \<mapsto> t')) = slot_refs (fo_get F t') + table_refs F (T(x := None))"
proof -
  have x: "x \<in> dom T" "dom (T(x := None)) = dom T - {x}" "dom (T(x \<mapsto> t')) = dom T" using assms(2) by auto
  have c: "(\<Sum>y \<in> dom T - {x}. slot_refs (fo_get F (the ((T(x := v)) y)))) =
      (\<Sum>y \<in> dom T - {x}. slot_refs (fo_get F (the (T y))))" for v
    by (intro sum.cong) auto
  show "table_refs F T = slot_refs (fo_get F t) + table_refs F (T(x := None))"
    unfolding table_refs_def sum.remove [OF assms(1) x(1)] x(2) c using assms(2) by simp
  show "table_refs F (T(x \<mapsto> t')) = slot_refs (fo_get F t') + table_refs F (T(x := None))"
    unfolding table_refs_def x(2,3) sum.remove [OF assms(1) x(1)] c by simp
qed

lemma table_refs_new:
  assumes "finite (dom T)" "T x = None"
  shows "table_refs F (T(x \<mapsto> t')) = slot_refs (fo_get F t') + table_refs F T"
  using table_refs_split(2) [of "T(x \<mapsto> t')" x t' F t'] assms by (simp add: fun_upd_idem)

lemma call_refs_begin:
  assumes "finite (dom calls)" "calls tid = None"
  shows "call_refs (calls(tid \<mapsto> c)) = add_mset (call_obj c) (call_refs calls)"
proof -
  have "map_option call_obj \<circ> calls(tid \<mapsto> c) = (map_option call_obj \<circ> calls)(tid \<mapsto> call_obj c)" by (simp add: fun_eq_iff)
  moreover have "dom (map_option call_obj \<circ> calls) = dom calls" by auto
  ultimately show ?thesis using slot_refs_add [of "map_option call_obj \<circ> calls" tid] assms by (simp add: call_refs_def)
qed

lemma call_refs_end:
  assumes "finite (dom calls)" "calls tid = Some c"
  shows "call_refs calls = add_mset (call_obj c) (call_refs (calls(tid := None)))"
  using call_refs_begin [of "calls(tid := None)" tid c] assms by (simp add: fun_upd_idem)

lemma call_refs_same:
  "calls tid = Some c \<Longrightarrow> call_obj c' = call_obj c \<Longrightarrow> call_refs (calls(tid \<mapsto> c')) = call_refs calls"
proof -
  assume "calls tid = Some c" "call_obj c' = call_obj c"
  then have "map_option call_obj \<circ> calls(tid \<mapsto> c') = map_option call_obj \<circ> calls" by (auto simp: fun_eq_iff)
  then show ?thesis by (simp add: call_refs_def)
qed

lemma thread_fds_table: "thread_fds K tid = Some (x, t) \<Longrightarrow> fd_tables K x = Some t"
  by (auto simp: thread_fds_def split: option.splits)

text \<open>A call that replaces the table of its process, and accounts for its references.\<close>

lemma sys_ok_put_table:
  assumes "sys_ok F okt S" "thread_fds (sy_k S) tid = Some (x, t)"
    and "\<And>R. owned_ok (slot_refs (fo_get F t) + R) (sy_own S) \<Longrightarrow> okt t' \<and> owned_ok (slot_refs (fo_get F t') + R) w'"
  shows "sys_ok F okt (put_table x t' w' S)"
proof -
  let ?T = "fd_tables (sy_k S)" and ?c = "call_refs (sy_calls S)"
  have fin: "finite (dom ?T)" and t: "?T x = Some t"
    using assms(1) thread_fds_table [OF assms(2)] by (simp_all add: sys_ok_def)
  have "okt t' \<and> owned_ok (slot_refs (fo_get F t') + (table_refs F (?T(x := None)) + ?c)) w'"
    using assms(1) table_refs_split(1) [OF fin t, of F] by (intro assms(3)) (simp add: sys_ok_def ac_simps)
  then show ?thesis
    using assms(1) table_refs_split(2) [OF fin t, of F t']
    by (auto simp: sys_ok_def put_table_def ac_simps ran_def split: if_splits)
qed

lemma sys_ok_table:
  assumes "sys_ok F okt S" "thread_fds (sy_k S) tid = Some (x, t)"
  shows "okt t" "a \<in> ran (fo_get F t) \<Longrightarrow> flatten_spec F okt \<Longrightarrow> a \<in># table_refs F (fd_tables (sy_k S))"
proof -
  have T: "fd_tables (sy_k S) x = Some t" "finite (dom (fd_tables (sy_k S)))"
    using thread_fds_table [OF assms(2)] assms(1) by (simp_all add: sys_ok_def)
  then show okt: "okt t" using assms(1) by (auto simp: sys_ok_def ran_def)
  assume a: "a \<in> ran (fo_get F t)" and F: "flatten_spec F okt"
  then show "a \<in># table_refs F (fd_tables (sy_k S))"
    using table_refs_split(1) [OF T(2,1), of F] set_slot_refs [OF flatten_finite [OF F okt]] by auto
qed

lemma sys_ok_begin:
  assumes "flatten_spec F okt" "sys_ok F okt S" "sy_calls S tid = None" "thread_fds (sy_k S) tid = Some (x, t)"
    and "get_file_like F t fd = Inr (call_obj c)" "call_ok c"
  shows "sys_ok F okt (S\<lparr>sy_own := arc_clone (call_obj c) (sy_own S), sy_calls := (sy_calls S)(tid \<mapsto> c)\<rparr>)"
proof -
  have "call_obj c \<in> ran (fo_get F t)" using assms(5) by (auto simp: get_file_like_def ran_def res_simps)
  then have "call_obj c \<in># table_refs F (fd_tables (sy_k S))" using sys_ok_table(2) [OF assms(2,4)] assms(1) by simp
  then show ?thesis
    using assms(2,6) call_refs_begin [of "sy_calls S" tid c] assms(3) ran_map_upd [of "sy_calls S" tid c]
      arc_clone_ok [of "table_refs F (fd_tables (sy_k S)) + call_refs (sy_calls S)" "sy_own S" "call_obj c"]
    by (simp add: sys_ok_def)
qed

text \<open>A turn changes at most the contents of one pipe buffer.\<close>

definition same_ends :: "('f, 'd, 's) files \<Rightarrow> ('f, 'd, 's) files \<Rightarrow> bool" where
  "same_ends fs fs' \<longleftrightarrow> objs fs' = objs fs \<and> (ends_ok fs \<longrightarrow> ends_ok fs')"

lemma same_ends_refl: "same_ends fs fs"
  by (simp add: same_ends_def)

lemma same_ends_set_pipe:
  assumes "pipe_bufs (k_files W) b = Some sh" "strong_count sh' = strong_count sh" "ring_inv (buffer sh')"
  shows "same_ends (k_files W) (k_files (set_pipe b sh' W))"
proof -
  have h: "has_end (k_files (set_pipe b sh' W)) = has_end (k_files W)" by (rule has_end_cong) simp
  have "buffer_ok (k_files (set_pipe b sh' W)) c" if ok: "buffer_ok (k_files W) c" for c
  proof (cases "c = b")
    case True
    then have "0 < strong_count sh \<and>
        strong_count sh = of_bool (has_end (k_files W) True b) + of_bool (has_end (k_files W) False b)"
      using ok unfolding True buffer_ok_def assms(1) option.case by blast
    then show ?thesis
      unfolding True buffer_ok_def set_pipe_files fun_upd_same option.case h assms(2) using assms(3) by blast
  next
    case False
    with ok show ?thesis using buffer_ok_cong [of "k_files (set_pipe b sh' W)" c "k_files W"] by (simp add: h)
  qed
  then show ?thesis by (auto simp: same_ends_def ends_ok_def)
qed

lemma file_read_same_files:
  assumes "file_read D \<lparr>w_pipe = [], w_keys = keys\<rparr> obj n W = Some (r, W')" "\<And>e b. obj \<noteq> FPipe e b"
  shows "k_files W' = k_files W"
  using assms dev_call_files by (cases obj) (auto simp: file_read_def dest!: arg_cong [where f = snd] sym [of _ "(r, W')"])

lemma file_write_same_files:
  assumes "file_write D \<lparr>w_pipe = [], w_keys = keys\<rparr> obj bs W = Some (r, W')" "\<And>e b. obj \<noteq> FPipe e b"
  shows "k_files W' = k_files W"
  using assms dev_call_files by (cases obj) (auto simp: file_write_def dest!: arg_cong [where f = snd] sym [of _ "(r, W')"])

lemma read_turn_same_ends:
  assumes "ends_ok (k_files W)" "objs (k_files W) a = Some obj" "read_turn D keys obj n W = (out, W')"
  shows "same_ends (k_files W) (k_files W')"
proof (cases "\<exists>e b. obj = FPipe e b")
  case True
  then obtain e b where obj: "obj = FPipe e b" by blast
  then have "has_end (k_files W) e b" using assms(2) by (auto simp: has_end_def)
  with assms(1) obtain sh where sh: "pipe_bufs (k_files W) b = Some sh" "ring_inv (buffer sh)" by (metis end_buffer)
  show ?thesis
  proof (cases "e \<and> n \<noteq> 0")
    case True
    then obtain bytes rb where "pipe_read_iter n sh = Inr (bytes, sh\<lparr>buffer := rb\<rparr>)" "ring_inv rb"
      using pipe_read_iter_cases [OF sh(2)] by blast
    moreover from this have "W' = set_pipe b (sh\<lparr>buffer := rb\<rparr>) W"
      using assms(3) True obj sh(1) by (simp add: read_turn_def)
    ultimately show ?thesis using same_ends_set_pipe [OF sh(1)] by simp
  next
    case False
    then have "W' = W" using assms(3) obj by (auto simp: read_turn_def split: if_splits)
    then show ?thesis by (simp add: same_ends_refl)
  qed
next
  case False
  then have "k_files W' = k_files W"
    using assms(3) file_read_same_files [of D keys obj n W]
    by (auto simp: read_turn_def split: file_obj.splits option.splits)
  then show ?thesis by (simp add: same_ends_def)
qed

lemma write_turn_same_ends:
  assumes "ends_ok (k_files W)" "objs (k_files W) a = Some obj" "write_turn D obj bs ws W = (out, W')"
    and "call_ok (PWrite a bs ws)"
  shows "same_ends (k_files W) (k_files W') \<and> (\<forall>ws'. out = Inr ws' \<longrightarrow> call_ok (PWrite a bs ws'))"
proof (cases "\<exists>e b. obj = FPipe e b")
  case True
  then obtain e b where obj: "obj = FPipe e b" by blast
  then have "has_end (k_files W) e b" using assms(2) by (auto simp: has_end_def)
  with assms(1) obtain sh where sh: "pipe_bufs (k_files W) b = Some sh" "ring_inv (buffer sh)" by (metis end_buffer)
  show ?thesis
  proof (cases ws)
    case None
    then have "W' = W" "\<forall>ws'. out = Inr ws' \<longrightarrow> ws' = Some 0"
      using assms(3) obj sh(1) by (auto simp: write_turn_def split: if_splits)
    then show ?thesis by (auto simp: same_ends_refl call_ok_def)
  next
    case (Some k)
    then have "k \<le> length bs" using assms(4) by (simp add: call_ok_def)
    then obtain fin k' rb where it: "pipe_write_iter bs k sh = Inr (fin, k', sh\<lparr>buffer := rb\<rparr>)" "ring_inv rb" "k' \<le> length bs"
      using pipe_write_iter_cases [OF sh(2)] by metis
    then have "W' = set_pipe b (sh\<lparr>buffer := rb\<rparr>) W" "out = (if fin then Inl (Inr k') else Inr (Some k'))"
      using assms(3) Some obj sh(1) by (simp_all add: write_turn_def)
    then show ?thesis using same_ends_set_pipe [OF sh(1)] it(2,3) by (simp add: call_ok_def)
  qed
next
  case False
  then have "k_files W' = k_files W" "\<forall>ws'. out = Inr ws' \<longrightarrow> ws' = ws"
    using assms(3) file_write_same_files [of D "[]" obj bs W]
    by (auto simp: write_turn_def split: file_obj.splits option.splits)
  then show ?thesis using assms(4) by (auto simp: same_ends_def)
qed

lemma owned_ok_same_ends:
  "owned_ok M w \<Longrightarrow> same_ends (ow_files w) fs \<Longrightarrow> owned_ok M (w\<lparr>ow_files := fs\<rparr>)"
  by (simp add: owned_ok_def same_ends_def)

lemma sys_ok_put_world:
  "sys_ok F okt S \<Longrightarrow> same_ends (sys_files S) (k_files W) \<Longrightarrow> sys_ok F okt (put_world W S)"
  by (simp add: sys_ok_def put_world_def owned_ok_same_ends)

lemma sys_ok_finish:
  assumes "sys_ok F okt S" "sy_calls S tid = Some c"
  shows "sys_ok F okt (finish_call tid (call_obj c) r S)"
proof -
  have "\<forall>c' \<in> ran ((sy_calls S)(tid := None)). call_ok c'"
    using assms(1) by (auto simp: sys_ok_def ran_def split: if_splits)
  then show ?thesis
    using assms call_refs_end [of "sy_calls S" tid c] arc_drop_ok [of "call_obj c" "_ + call_refs ((sy_calls S)(tid := None))" "sy_own S"]
    by (simp add: sys_ok_def finish_call_def)
qed

subsection \<open>Forking\<close>

text \<open>A clone leaves the tables alone, or adds one: a copy of the caller's at the fresh reference.\<close>

lemma clone_process_tables:
  assumes "procs S cur = Some pd" "fd_tables S (pd_fds pd) = Some t" "clone_process P X F C flags sig cur tid S = (r, S')"
  shows "fd_tables S' = fd_tables S \<or> (\<exists>t'. copy_inner F t = Inr t' \<and> fd_tables S' = (fd_tables S)(fresh_fd C \<mapsto> t'))"
  using assms
  by (auto simp: clone_process_def clone_aspace_def clone_actions_def clone_fds_def clone_cwd_def Let_def
      split: if_splits sum.splits option.splits)

lemma sys_clone_tables:
  assumes "procs S cur = Some pd" "fd_tables S (pd_fds pd) = Some t"
    and "sys_clone P X F C tf cur tid flags stack ptid pchk ctid cchk tls S = (r, S')"
  shows "fd_tables S' = fd_tables S \<or> (\<exists>t'. copy_inner F t = Inr t' \<and> fd_tables S' = (fd_tables S)(fresh_fd C \<mapsto> t'))"
proof -
  define fl where "fl = flags AND NOT 0xFF AND CloneFlags_all"
  define sig where "sig = sig_repr C (ucast (flags AND 0xFF))"
  define S0 where "S0 = (if has_flag fl CLONE_PARENT_SETTID then S\<lparr>tid_stores := tid_stores S @ [(ptid, tid)]\<rparr> else S)"
  have S: "procs S0 cur = Some pd" "fd_tables S0 (pd_fds pd) = Some t" "fd_tables S0 = fd_tables S"
    using assms(1,2) by (simp_all add: S0_def)
  obtain r1 S1 where cp: "clone_process P X F C fl sig cur tid S0 = (r1, S1)" by fastforce
  have "fd_tables S' = fd_tables S \<or> fd_tables S' = fd_tables S1"
    using assms(3) S(3)
    unfolding sys_clone_def Let_def fl_def [symmetric] sig_def [symmetric] S0_def [symmetric] sbind_pair cp
    by (cases r1) (auto simp: cp split: if_splits sum.splits)
  then show ?thesis using clone_process_tables [OF S(1,2) cp] S(3) by auto
qed

lemma sys_ok_clone:
  assumes "flatten_spec F okt" "sys_ok F okt S" "threads (sy_k S) tid = Some td" "thread_fds (sy_k S) tid = Some (x, t)"
    and "fd_tables (sy_k S) (fresh_fd C) = None"
    and "sys_clone P X F C tf (td_process td) child flags stack ptid pchk ctid cchk tls (sy_k S) = (rc, K')"
  shows "sys_ok F okt (S\<lparr>sy_k := K', sy_own := clone_refs F C K' t (sy_own S)\<rparr>)"
proof -
  let ?T = "fd_tables (sy_k S)" and ?c = "call_refs (sy_calls S)"
  obtain pd where pd: "procs (sy_k S) (td_process td) = Some pd" "pd_fds pd = x" and t: "?T x = Some t"
    using assms(3,4) by (auto simp: thread_fds_def split: option.splits)
  have fin: "finite (dom ?T)" and okt: "okt t" using assms(2) t by (auto simp: sys_ok_def ran_def)
  show ?thesis
  proof (cases "fd_tables K' = ?T")
    case True
    then show ?thesis using assms(2,5) by (simp add: sys_ok_def clone_refs_def)
  next
    case False
    then obtain t' where t': "copy_inner F t = Inr t'" "fd_tables K' = ?T(fresh_fd C \<mapsto> t')"
      using sys_clone_tables [OF pd(1) _ assms(6)] t pd(2) by auto
    obtain w' where w': "own_copy_inner F arc_clone arc_drop t (sy_own S) = (Inr t', w')"
      using own_copy_inner_forget [of F arc_clone arc_drop t "sy_own S"] t'(1) by (metis prod.collapse)
    let ?R = "table_refs F (?T(x := None)) + ?c"
    have T: "table_refs F ?T = slot_refs (fo_get F t) + table_refs F (?T(x := None))"
      by (rule table_refs_split(1) [OF fin t])
    have "owned_ok (slot_refs (fo_get F t) + ?R) (sy_own S)"
      using assms(2) T by (simp add: sys_ok_def ac_simps)
    then have "okt t' \<and> owned_ok (slot_refs (fo_get F t') + (slot_refs (fo_get F t) + ?R)) w'"
      using arcs.own_copy_inner_inv [OF assms(1) okt _ w'] by blast
    then have "okt t' \<and> owned_ok (table_refs F (fd_tables K') + ?c) w'"
      using table_refs_new [OF fin assms(5), of F t'] T t'(2) by (simp add: ac_simps)
    then show ?thesis
      using assms(2,5) t'(2) w' ran_map_upd [of ?T "fresh_fd C" t'] by (simp add: sys_ok_def clone_refs_def)
  qed
qed

subsection \<open>Every step\<close>

lemma sys_step_ok:
  assumes "flatten_spec F okt" "sys_step F D S S'" "sys_ok F okt S"
  shows "sys_ok F okt S'"
  using assms(2,3)
proof cases
  case (sys_step_close tid x t fd r t' w')
  then show ?thesis
    using sys_ok_put_table [OF assms(3)] arcs.own_close_inv [OF assms(1)] sys_ok_table(1) [OF assms(3)] by blast
next
  case (sys_step_dup tid x t fd ri t' w')
  then show ?thesis
    using sys_ok_put_table [OF assms(3)] arcs.own_dup_inv [OF assms(1)] sys_ok_table(1) [OF assms(3)] by blast
next
  case (sys_step_dup2 tid x t fd fd' ri t' w')
  then show ?thesis
    using sys_ok_put_table [OF assms(3)] arcs.own_dup2_inv [OF assms(1)] sys_ok_table(1) [OF assms(3)] by blast
next
  case (sys_step_open tid x t a obj rf t' w')
  have "okt t' \<and> owned_ok (slot_refs (fo_get F t') + R) w'" if ok: "owned_ok (slot_refs (fo_get F t) + R) (sy_own S)" for R
  proof -
    have "a \<notin># slot_refs (fo_get F t) + R" using ok sys_step_open(4) unfolding owned_ok_def by blast
    then have "owned_ok (add_mset a (slot_refs (fo_get F t) + R)) (arc_new a obj (sy_own S))"
      using arc_new_ok [OF ok] sys_step_open(5) by blast
    then show ?thesis
      using arcs.own_add_inv [OF assms(1) _ _ sys_step_open(6)] sys_ok_table(1) [OF assms(3) sys_step_open(3)] by blast
  qed
  then show ?thesis using sys_ok_put_table [OF assms(3) sys_step_open(3)] sys_step_open(1) by blast
next
  case (sys_step_pipe2 tid x t a b c user rp t' w')
  note t = sys_ok_table(1) [OF assms(3) sys_step_pipe2(3)]
  show ?thesis
    unfolding sys_step_pipe2(1)
    by (rule sys_ok_put_table [OF assms(3) sys_step_pipe2(3)]) (rule own_pipe2_inv(2) [OF assms(1) t _ sys_step_pipe2(4-7)])
next
  case (sys_step_read tid x t fd a n)
  then show ?thesis using sys_ok_begin [OF assms(1,3), of tid x t fd "PRead a n"] by (simp add: call_ok_def)
next
  case (sys_step_read_turn tid a n obj keys out W)
  have "ends_ok (sys_files S)" using assms(3) by (simp add: sys_ok_def owned_ok_def)
  then have "sys_ok F okt (put_world W S)"
    using read_turn_same_ends [OF _ _ sys_step_read_turn(4), of a] sys_step_read_turn(3) sys_ok_put_world [OF assms(3)]
    by (simp add: sys_world_def)
  moreover have "sy_calls (put_world W S) tid = Some (PRead a n)" using sys_step_read_turn(2) by (simp add: put_world_def)
  ultimately show ?thesis
    using sys_step_read_turn(1) sys_ok_finish [of F okt "put_world W S" tid "PRead a n"] by (auto split: option.splits)
next
  case (sys_step_write tid x t fd a bs)
  then show ?thesis using sys_ok_begin [OF assms(1,3), of tid x t fd "PWrite a bs None"] by (simp add: call_ok_def)
next
  case (sys_step_write_turn tid a bs ws obj out W)
  have "ends_ok (sys_files S)" "call_ok (PWrite a bs ws)"
    using assms(3) sys_step_write_turn(2) by (auto simp: sys_ok_def owned_ok_def ran_def)
  then have w: "same_ends (sys_files S) (k_files W)" "\<And>ws'. out = Inr ws' \<Longrightarrow> call_ok (PWrite a bs ws')"
    using write_turn_same_ends [OF _ _ sys_step_write_turn(4), of a] sys_step_write_turn(3) by (simp_all add: sys_world_def)
  then have ok: "sys_ok F okt (put_world W S)" using sys_ok_put_world [OF assms(3)] by simp
  have call: "sy_calls (put_world W S) = sy_calls S" by (simp add: put_world_def)
  show ?thesis
  proof (cases out)
    case (Inl r)
    then show ?thesis using sys_step_write_turn(1,2) sys_ok_finish [OF ok, of tid "PWrite a bs ws"] call by simp
  next
    case (Inr ws')
    have "\<forall>c \<in> ran ((sy_calls S)(tid \<mapsto> PWrite a bs ws')). call_ok c"
      using ok call w(2) [OF Inr] by (auto simp: sys_ok_def ran_def split: if_splits)
    then show ?thesis
      using sys_step_write_turn(1,2) ok Inr call call_refs_same [of "sy_calls S" tid "PWrite a bs ws" "PWrite a bs ws'"]
      by (auto simp: sys_ok_def)
  qed
next
  case (sys_step_clone tid td x t C child P X tf flags stack ptid pchk ctid cchk tls rc K')
  then show ?thesis using sys_ok_clone [OF assms(1,3)] by blast
next
  case (sys_step_exit tid x t ctx code gexit)
  obtain t' w' where cl: "own_clear F arc_drop t (sy_own S) = (t', w')" by fastforce
  have "sys_ok F okt (put_table x t' w' S)"
    using sys_ok_put_table [OF assms(3) sys_step_exit(3)] arcs.own_clear_inv [OF assms(1) _ _ cl]
      sys_ok_table(1) [OF assms(3) sys_step_exit(3)] by blast
  then show ?thesis
    using assms(3) sys_step_exit(1) cl by (auto simp: exit_thread_def sys_ok_def Let_def split: if_splits)
qed

section \<open>Properties\<close>

text \<open>The system after start-up: one table with the console objects, no call in progress.\<close>

definition sys_boot :: "('t, arc) flatten_ops \<Rightarrow> ('as, 't, 'act, 'w, 'f, 'd, 's, 'v, 'b) system \<Rightarrow> bool" where
  "sys_boot F S \<longleftrightarrow>
     sy_own S = \<lparr>ow_files = boot_files, ow_counts = (\<lambda>a. if a < 3 then 1 else 0)\<rparr> \<and> sy_calls S = Map.empty \<and>
     (\<exists>x t. fd_tables (sy_k S) = [x \<mapsto> t] \<and> init_stdio F 0 1 2 = Inr t)"

lemma sys_boot_ok:
  assumes "flatten_spec F okt" "sys_boot F S"
  shows "sys_ok F okt S"
proof -
  obtain x t where t: "fd_tables (sy_k S) = [x \<mapsto> t]" "okt t" "fo_get F t = [0 \<mapsto> 0, 1 \<mapsto> 1, 2 \<mapsto> 2]"
    using assms init_stdio_table [OF assms(1), of 0 1 2] by (auto simp: sys_boot_def)
  have "slot_refs ([0 \<mapsto> 0, 1 \<mapsto> 1, 2 \<mapsto> 2] :: nat \<rightharpoonup> arc) = {#2, 1, 0#}"
    by (simp add: slot_refs_add)
  then have "table_refs F (fd_tables (sy_k S)) + call_refs (sy_calls S) = {#2, 1, 0#}"
    using assms(2) t by (simp add: table_refs_def call_refs_def sys_boot_def comp_def)
  moreover have "owned_ok {#2, 1, 0#} (sy_own S)"
    using assms(2) by (auto simp: sys_boot_def owned_ok_def boot_files_def ends_ok_def buffer_ok_def has_end_def fun_eq_iff)
  ultimately show ?thesis using assms(2) t(1,2) by (simp add: sys_ok_def sys_boot_def)
qed

lemma sys_steps_ok:
  assumes "flatten_spec F okt" "sys_boot F S0" "(sys_step F D)\<^sup>*\<^sup>* S0 S"
  shows "sys_ok F okt S"
  using assms(3) by (induction rule: rtranclp_induct) (auto intro: sys_boot_ok [OF assms(1,2)] dest: sys_step_ok [OF assms(1)])

text \<open>An object is open when a descriptor of some process or a call in progress refers to it.\<close>

definition is_open :: "('t, arc) flatten_ops \<Rightarrow> ('as, 't, 'act, 'w, 'f, 'd, 's, 'v, 'b) system \<Rightarrow> arc \<Rightarrow> bool" where
  "is_open F S a \<longleftrightarrow>
     (\<exists>x t i. fd_tables (sy_k S) x = Some t \<and> fo_get F t i = Some a) \<or> (\<exists>tid c. sy_calls S tid = Some c \<and> call_obj c = a)"

definition end_open :: "('t, arc) flatten_ops \<Rightarrow> ('as, 't, 'act, 'w, 'f, 'd, 's, 'v, 'b) system \<Rightarrow> bool \<Rightarrow> arc \<Rightarrow> bool" where
  "end_open F S r b \<longleftrightarrow> (\<exists>a. is_open F S a \<and> objs (sys_files S) a = Some (FPipe r b))"

lemma set_table_refs:
  assumes "finite (dom T)" "\<forall>t \<in> ran T. finite (dom (fo_get F t))"
  shows "a \<in># table_refs F T \<longleftrightarrow> (\<exists>x t i. T x = Some t \<and> fo_get F t i = Some a)"
proof -
  have s: "a \<in># slot_refs (fo_get F (the (T x))) \<longleftrightarrow> (\<exists>i. fo_get F (the (T x)) i = Some a)" if "x \<in> dom T" for x
  proof -
    have "the (T x) \<in> ran T" using that by (auto intro: ranI)
    then show ?thesis using assms(2) set_slot_refs [of "fo_get F (the (T x))"] by (simp add: ran_def)
  qed
  have "a \<in># table_refs F T \<longleftrightarrow> (\<exists>x \<in> dom T. a \<in># slot_refs (fo_get F (the (T x))))"
    unfolding table_refs_def using assms(1) by (simp add: set_mset_sum)
  also have "\<dots> \<longleftrightarrow> (\<exists>x t i. T x = Some t \<and> fo_get F t i = Some a)" using s by fastforce
  finally show ?thesis .
qed

lemma set_call_refs: "finite (dom calls) \<Longrightarrow> a \<in># call_refs calls \<longleftrightarrow> (\<exists>tid c. calls tid = Some c \<and> call_obj c = a)"
proof -
  assume "finite (dom calls)"
  moreover have "dom (map_option call_obj \<circ> calls) = dom calls" by auto
  ultimately show ?thesis using set_slot_refs [of "map_option call_obj \<circ> calls"] by (auto simp: call_refs_def ran_def)
qed

lemma sys_ok_open:
  assumes "flatten_spec F okt" "sys_ok F okt S"
  shows "objs (sys_files S) a \<noteq> None \<longleftrightarrow> is_open F S a" "end_open F S r b \<longleftrightarrow> has_end (sys_files S) r b"
proof -
  have "\<forall>t \<in> ran (fd_tables (sy_k S)). finite (dom (fo_get F t))"
    using assms(2) flatten_finite [OF assms(1)] by (auto simp: sys_ok_def)
  then have live: "objs (sys_files S) a \<noteq> None \<longleftrightarrow> is_open F S a" for a
    using assms(2) set_table_refs [of "fd_tables (sy_k S)" F a] set_call_refs [of "sy_calls S" a]
    by (auto simp: sys_ok_def owned_ok_def is_open_def set_eq_iff)
  then show "objs (sys_files S) a \<noteq> None \<longleftrightarrow> is_open F S a" .
  show "end_open F S r b \<longleftrightarrow> has_end (sys_files S) r b"
    using live unfolding end_open_def has_end_def by (metis option.discI)
qed

text \<open>C1. Pipes between processes: in every state that any interleaving of closing, duplicating, opening, creating
  pipes, forking, exiting, reading and writing by any number of processes can reach, a blocked read of a
  pipe gets the oldest bytes when there are any; with an empty buffer it gets end of file exactly when no
  descriptor of any process and no call in progress refers to the write end any more, and waits otherwise.
  A write of a pipe that starts fails with EPIPE exactly when nothing refers to the read end.\<close>

theorem pipe_ends_across_processes:
  assumes "flatten_spec F okt" and "sys_boot F S0" and "(sys_step F D)\<^sup>*\<^sup>* S0 S"
    and "objs (sys_files S) a = Some (FPipe r b)"
  shows "\<exists>sh. pipe_bufs (sys_files S) b = Some sh \<and>
    (if r then 0 < n \<longrightarrow> fst (read_turn D keys (FPipe r b) n (sys_world S)) =
         (if ring_contents (buffer sh) \<noteq> [] then Some (Inr (take n (ring_contents (buffer sh))))
          else if end_open F S False b then None else Some (Inr []))
     else bs \<noteq> [] \<longrightarrow> fst (write_turn D (FPipe r b) bs None (sys_world S)) =
         (if end_open F S True b then Inr (Some 0) else Inl (Inl (Errno EPIPE))))"
proof -
  have ok: "sys_ok F okt S" by (rule sys_steps_ok [OF assms(1-3)])
  then have e: "ends_ok (sys_files S)" by (simp add: sys_ok_def owned_ok_def)
  have h: "has_end (sys_files S) r b" using assms(4) by (auto simp: has_end_def)
  obtain sh where sh: "pipe_bufs (sys_files S) b = Some sh" "ring_inv (buffer sh)"
    "strong_count sh = of_bool (has_end (sys_files S) True b) + of_bool (has_end (sys_files S) False b)"
    using end_buffer [OF e h] .
  then have cl: "closed sh \<longleftrightarrow> \<not> end_open F S (\<not> r) b"
    using h sys_ok_open(2) [OF assms(1) ok] by (cases r) (auto simp: closed_def)
  show ?thesis
  proof (intro exI conjI)
    show "pipe_bufs (sys_files S) b = Some sh" by (fact sh(1))
    show "if r then 0 < n \<longrightarrow> fst (read_turn D keys (FPipe r b) n (sys_world S)) =
         (if ring_contents (buffer sh) \<noteq> [] then Some (Inr (take n (ring_contents (buffer sh))))
          else if end_open F S False b then None else Some (Inr []))
     else bs \<noteq> [] \<longrightarrow> fst (write_turn D (FPipe r b) bs None (sys_world S)) =
         (if end_open F S True b then Inr (Some 0) else Inl (Inl (Errno EPIPE)))"
      using sh(1) cl pipe_read_iter_data [OF sh(2), of n] pipe_read_iter_empty [of sh n]
      by (auto simp: read_turn_def write_turn_def sys_world_def writable_def)
  qed
qed

text \<open>C2. Nothing leaks and nothing dangles: in every reachable state a file object exists exactly while a
  descriptor of some process or a call in progress refers to it, and a pipe buffer exactly while one of
  its ends does.\<close>

theorem files_live_iff_open:
  assumes "flatten_spec F okt" and "sys_boot F S0" and "(sys_step F D)\<^sup>*\<^sup>* S0 S"
  shows "(objs (sys_files S) a \<noteq> None \<longleftrightarrow> is_open F S a) \<and>
    (pipe_bufs (sys_files S) b \<noteq> None \<longleftrightarrow> end_open F S True b \<or> end_open F S False b)"
proof -
  have ok: "sys_ok F okt S" by (rule sys_steps_ok [OF assms])
  then have "buffer_ok (sys_files S) b" by (simp add: sys_ok_def owned_ok_def ends_ok_def)
  then have "pipe_bufs (sys_files S) b \<noteq> None \<longleftrightarrow> has_end (sys_files S) True b \<or> has_end (sys_files S) False b"
    by (cases "pipe_bufs (sys_files S) b") (auto simp: buffer_ok_def split: if_splits)
  then show ?thesis using sys_ok_open [OF assms(1) ok] by simp
qed

text \<open>C35. What an exiting thread does to the descriptors of another thread: nothing when they are in another table
  or when the exiting thread is not the last of its process. But the last thread of a process clears the
  table it uses even when another process shares it (CLONE_FILES without CLONE_THREAD): every descriptor
  of that process is then closed.\<close>

theorem exit_and_other_tables:
  assumes "flatten_spec F okt" and "okt t" and "thread_fds (sy_k S) tid = Some (x, t)"
    and "thread_fds (sy_k S) other = Some (y, u)" and "other \<noteq> tid" and "ex_last ctx \<longleftrightarrow> last_thread (sy_k S) tid"
  shows "if y = x \<and> last_thread (sy_k S) tid
    then \<exists>v. thread_fds (sy_k (exit_thread F (do_exit code gexit ctx) tid x t S)) other = Some (y, v) \<and>
           (\<forall>fd. get_file_like F v fd = Inl (Errno EBADF))
    else thread_fds (sy_k (exit_thread F (do_exit code gexit ctx) tid x t S)) other = Some (y, u)"
proof -
  obtain t' w' where cl: "own_clear F arc_drop t (sy_own S) = (t', w')" by fastforce
  have t': "fo_get F t' = Map.empty"
    using own_clear_forget [of F arc_drop t "sy_own S"] fd_clear_spec [OF assms(1,2)] cl by simp
  have eff: "FdTableClear \<in> set (do_exit code gexit ctx) \<longleftrightarrow> last_thread (sy_k S) tid"
    using assms(6) by (auto simp: do_exit_def split: option.splits)
  show ?thesis
    using assms(4,5) cl t' eff
    by (auto simp: exit_thread_def Let_def put_table_def thread_fds_def get_file_like_def split: option.splits)
qed

section \<open>A run\<close>

text \<open>The least free number, for the container on maps.\<close>

lemma map_objects_add_least:
  assumes "\<forall>j < i. t j \<noteq> None" "t i = None" "i < AX_FILE_LIMIT"
  shows "fo_add map_objects t f = Some (i, t(i \<mapsto> f))"
proof -
  have "find (\<lambda>j. t j = None) [0..<AX_FILE_LIMIT] = Some i"
    using assms unfolding find_Some_iff by (intro exI [of _ i]) auto
  then show ?thesis by (simp add: map_objects_def)
qed

text \<open>One process after start-up, with two threads' worth of room: process 7, whose table is number 2.\<close>

definition demo_boot ::
  "(usize list, nat \<rightharpoonup> arc, (signo \<rightharpoonup> usize), pid \<Rightarrow> pid, unit, unit, (unit, unit) socket, u8 list, u8 list) system" where
  "demo_boot =
     \<lparr>sy_k = one_parent\<lparr>fd_tables := [2 \<mapsto> [0 \<mapsto> 0, 1 \<mapsto> 1, 2 \<mapsto> 2]],
        threads := [7 \<mapsto> \<lparr>td_process = 7, td_clear_child_tid = 0, td_set_child_tid = None,
          td_uctx = \<lparr>u_ip = 0, u_sp = 0, u_tls = 0, u_retval = 0\<rparr>\<rparr>]\<rparr>,
      sy_own = \<lparr>ow_files = boot_files, ow_counts = (\<lambda>a. if a < 3 then 1 else 0)\<rparr>,
      sy_dev = [], sy_stdin = [], sy_calls = Map.empty, sy_rets = []\<rparr>"

lemma demo_boot_boot: "sys_boot map_objects demo_boot"
proof -
  obtain t :: "nat \<rightharpoonup> arc" where "init_stdio map_objects 0 1 2 = Inr t" "t = [0 \<mapsto> 0, 1 \<mapsto> 1, 2 \<mapsto> 2]"
    using init_stdio_table [OF map_objects_spec, of "0 :: arc" 1 2] by auto
  then show ?thesis by (auto simp: sys_boot_def demo_boot_def)
qed

lemma demo_fds: "thread_fds (sy_k demo_boot) 7 = Some (2, [0 \<mapsto> 0, 1 \<mapsto> 1, 2 \<mapsto> 2])"
  by (simp add: thread_fds_def demo_boot_def one_parent_def)

text \<open>The process makes a pipe and closes the write end.\<close>

lemma demo_pipe2:
  "own_pipe2 map_objects (3, 4, 9) (Inr ()) [0 \<mapsto> 0, 1 \<mapsto> 1, 2 \<mapsto> 2] (sy_own demo_boot) =
     (Inr (3, 4), [0 \<mapsto> 0, 1 \<mapsto> 1, 2 \<mapsto> 2, 3 \<mapsto> 3, 4 \<mapsto> 4], own_pipe 3 4 9 (sy_own demo_boot))"
proof -
  have "fo_add map_objects [0 \<mapsto> 0, 1 \<mapsto> 1, 2 \<mapsto> 2] (3 :: arc) = Some (3, [0 \<mapsto> 0, 1 \<mapsto> 1, 2 \<mapsto> 2, 3 \<mapsto> 3])"
    "fo_add map_objects [0 \<mapsto> 0, 1 \<mapsto> 1, 2 \<mapsto> 2, 3 \<mapsto> 3] (4 :: arc) = Some (4, [0 \<mapsto> 0, 1 \<mapsto> 1, 2 \<mapsto> 2, 3 \<mapsto> 3, 4 \<mapsto> 4])"
    by (rule map_objects_add_least; auto simp: less_Suc_eq numeral_eq_Suc)+
  then show ?thesis by (simp add: own_pipe2_def own_add_def add_file_like_def)
qed

definition demo_end ::
  "(usize list, nat \<rightharpoonup> arc, (signo \<rightharpoonup> usize), pid \<Rightarrow> pid, unit, unit, (unit, unit) socket, u8 list, u8 list) system" where
  "demo_end =
     put_table 2 [0 \<mapsto> 0, 1 \<mapsto> 1, 2 \<mapsto> 2, 3 \<mapsto> 3] (arc_drop 4 (own_pipe 3 4 9 (sy_own demo_boot)))
       (put_table 2 [0 \<mapsto> 0, 1 \<mapsto> 1, 2 \<mapsto> 2, 3 \<mapsto> 3, 4 \<mapsto> 4] (own_pipe 3 4 9 (sy_own demo_boot)) demo_boot)"

lemma demo_reach: "(sys_step map_objects null_dev)\<^sup>*\<^sup>* demo_boot demo_end"
proof -
  let ?t = "[0 \<mapsto> 0, 1 \<mapsto> 1, 2 \<mapsto> 2, 3 \<mapsto> 3, 4 \<mapsto> 4] :: nat \<rightharpoonup> arc"
  let ?w = "own_pipe 3 4 9 (sy_own demo_boot)"
  let ?S = "put_table 2 ?t ?w demo_boot"
  have calls: "sy_calls demo_boot 7 = None" "sy_calls ?S 7 = None" by (simp_all add: demo_boot_def put_table_def)
  have "sys_step map_objects null_dev demo_boot ?S"
    by (rule sys_step_pipe2 [OF calls(1) demo_fds _ _ _ demo_pipe2]) (auto simp: demo_boot_def boot_files_def)
  moreover have fds: "thread_fds (sy_k ?S) 7 = Some (2, ?t)"
    by (simp add: thread_fds_def demo_boot_def one_parent_def put_table_def)
  have "own_close map_objects arc_drop ?t 4 (sy_own ?S) = (Inr (), [0 \<mapsto> 0, 1 \<mapsto> 1, 2 \<mapsto> 2, 3 \<mapsto> 3], arc_drop 4 ?w)"
    by (auto simp: own_close_def fd_index_def put_table_def fun_eq_iff)
  with fds have "sys_step map_objects null_dev ?S demo_end"
    unfolding demo_end_def by (rule sys_step_close [OF calls(2)])
  ultimately show ?thesis by (meson rtranclp.rtrancl_into_rtrancl rtranclp.rtrancl_refl)
qed

lemma demo_end_files:
  "objs (sys_files demo_end) = [0 \<mapsto> FStdin, 1 \<mapsto> FStdout, 2 \<mapsto> FStdout, 3 \<mapsto> FPipe True 9]"
  "pipe_bufs (sys_files demo_end) = [9 \<mapsto> \<lparr>buffer = ring_new, strong_count = 1\<rparr>]"
  "fd_tables (sy_k demo_end) = [2 \<mapsto> [0 \<mapsto> 0, 1 \<mapsto> 1, 2 \<mapsto> 2, 3 \<mapsto> 3]]" "sy_calls demo_end = Map.empty"
  by (auto simp: demo_end_def put_table_def demo_boot_def one_parent_def own_pipe_def pipe_new_def arc_new_def arc_drop_def
      drop_object_def drop_buffer_def boot_files_def Let_def fun_eq_iff)

theorem pipe_ends_across_processes_witness:
  "sys_boot map_objects demo_boot \<and> (sys_step map_objects null_dev)\<^sup>*\<^sup>* demo_boot demo_end \<and>
   \<not> end_open map_objects demo_end False 9 \<and>
   fst (read_turn null_dev [] (FPipe True 9) 5 (sys_world demo_end)) = Some (Inr [])"
proof -
  have o: "objs (sys_files demo_end) 3 = Some (FPipe True 9)" by (simp add: demo_end_files)
  have n: "\<not> end_open map_objects demo_end False 9"
    by (auto simp: end_open_def demo_end_files split: if_splits)
  from pipe_ends_across_processes [OF map_objects_spec demo_boot_boot demo_reach o, where n = 5 and keys = "[]"]
  show ?thesis using n demo_boot_boot demo_reach by (auto simp: demo_end_files)
qed

theorem files_live_iff_open_witness:
  "(sys_step map_objects null_dev)\<^sup>*\<^sup>* demo_boot demo_end \<and> is_open map_objects demo_end 3 \<and> \<not> is_open map_objects demo_end 4 \<and>
   (end_open map_objects demo_end True 9 \<or> end_open map_objects demo_end False 9)"
  using files_live_iff_open [OF map_objects_spec demo_boot_boot demo_reach, of 3 9]
    files_live_iff_open [OF map_objects_spec demo_boot_boot demo_reach, of 4 9] demo_reach
  by (simp add: demo_end_files)

text \<open>Two processes with one table, as \<open>clone(CLONE_FILES)\<close> makes them: the exit of number 8 closes the files of
  number 7.\<close>

definition demo_shared ::
  "(usize list, nat \<rightharpoonup> arc, (signo \<rightharpoonup> usize), pid \<Rightarrow> pid, unit, unit, (unit, unit) socket, u8 list, u8 list) system" where
  "demo_shared = demo_boot\<lparr>sy_k := (sy_k demo_boot)\<lparr>
     procs := (procs (sy_k demo_boot))(8 := procs (sy_k demo_boot) 7),
     threads := (threads (sy_k demo_boot))(8 \<mapsto> \<lparr>td_process = 8, td_clear_child_tid = 0, td_set_child_tid = None,
          td_uctx = \<lparr>u_ip = 0, u_sp = 0, u_tls = 0, u_retval = 0\<rparr>\<rparr>)\<rparr>\<rparr>"

definition demo_exit :: exit_ctx where
  "demo_exit = \<lparr>ex_clear_tid = None, ex_futex = False, ex_last = True, ex_parent = None, ex_signal = None,
     ex_group_exited = False, ex_threads = []\<rparr>"

theorem exit_and_other_tables_witness:
  "thread_fds (sy_k demo_shared) 7 = Some (2, [0 \<mapsto> 0, 1 \<mapsto> 1, 2 \<mapsto> 2]) \<and>
   (\<exists>v. thread_fds (sy_k (exit_thread map_objects (sys_exit 0 demo_exit) 8 2 [0 \<mapsto> 0, 1 \<mapsto> 1, 2 \<mapsto> 2] demo_shared)) 7 = Some (2, v) \<and>
      get_file_like map_objects v 1 = Inl (Errno EBADF))"
proof -
  have ok: "map_objects_wf ([0 \<mapsto> 0, 1 \<mapsto> 1, 2 \<mapsto> 2] :: nat \<rightharpoonup> arc)" by (simp add: map_objects_wf_def)
  have f: "thread_fds (sy_k demo_shared) 7 = Some (2, [0 \<mapsto> 0, 1 \<mapsto> 1, 2 \<mapsto> 2])"
    "thread_fds (sy_k demo_shared) 8 = Some (2, [0 \<mapsto> 0, 1 \<mapsto> 1, 2 \<mapsto> 2])"
    by (simp_all add: thread_fds_def demo_shared_def demo_boot_def one_parent_def)
  have l: "last_thread (sy_k demo_shared) 8"
    by (auto simp: last_thread_def demo_shared_def demo_boot_def split: if_splits)
  then have "ex_last demo_exit \<longleftrightarrow> last_thread (sy_k demo_shared) 8" by (simp add: demo_exit_def)
  from exit_and_other_tables [OF map_objects_spec ok f(2) f(1) _ this, where code = "push_bit 8 0" and gexit = False]
  show ?thesis using f l by (auto simp: sys_exit_def)
qed

end
