(* ===== verification/Reaping.thy ===== *)
theory Reaping
  imports Process
begin

text \<open>
  Exiting and waiting together (\<open>api/src/imp/task/exit.rs\<close>, \<open>wait.rs\<close> and \<open>check_signals\<close> of
  \<open>api/src/signal.rs\<close>): the status a parent gets for a child, and the steps of \<open>do_exit\<close> in its children
  interleaved with the loop of \<open>sys_waitpid\<close>, in which looking at the children and going to sleep are two
  steps. Children have one thread each.
\<close>

section \<open>Exit statuses\<close>

text \<open>How a user program reads a status (the macros of the Linux ABI).\<close>

definition WTERMSIG :: "i32 \<Rightarrow> i32" where "WTERMSIG s = s AND 0x7F"

definition WIFEXITED :: "i32 \<Rightarrow> bool" where "WIFEXITED s \<longleftrightarrow> WTERMSIG s = 0"

definition WEXITSTATUS :: "i32 \<Rightarrow> i32" where "WEXITSTATUS s = drop_bit 8 (s AND 0xFF00)"

definition WCOREDUMP :: "i32 \<Rightarrow> bool" where "WCOREDUMP s \<longleftrightarrow> s AND 0x80 \<noteq> 0"

section \<open>A parent that waits and children that exit\<close>

text \<open>The parent looks at its children, has decided to wait, sleeps on \<open>child_exit_wq\<close>, or has its answer.\<close>

datatype wait_phase = Checking | Deciding | Asleep | Answered wait_result

text \<open>\<open>rp_exits p\<close> are the effects of \<open>do_exit\<close> that child \<open>p\<close> has still to perform, \<open>rp_code p\<close> the code its last
  thread left.\<close>

record reap =
  rp_phase :: wait_phase
  rp_exits :: "pid \<rightharpoonup> exit_effect list"
  rp_code :: "pid \<Rightarrow> i32"
  rp_zombie :: "pid \<rightharpoonup> i32"

fun run_effect :: "pid \<Rightarrow> exit_effect \<Rightarrow> reap \<Rightarrow> reap" where
  "run_effect p (ThreadExit c) s = s\<lparr>rp_code := (rp_code s)(p := c)\<rparr>"
| "run_effect p ProcessExit s = s\<lparr>rp_zombie := (rp_zombie s)(p \<mapsto> rp_code s p)\<rparr>"
| "run_effect p NotifyParent s = (if rp_phase s = Asleep then s\<lparr>rp_phase := Checking\<rparr> else s)"
| "run_effect p e s = s"

text \<open>One turn of the loop of \<open>sys_waitpid\<close> is \<open>wait_loop\<close> on the zombies of the moment.\<close>

inductive reap_step :: "u32 \<Rightarrow> bool \<Rightarrow> child list \<Rightarrow> reap \<Rightarrow> reap \<Rightarrow> bool"
  for options store kids where
  reap_answer: "rp_phase s = Checking \<Longrightarrow> wait_loop options store kids [rp_zombie s] = Some r \<Longrightarrow>
     reap_step options store kids s (s\<lparr>rp_phase := Answered r\<rparr>)"
| reap_none: "rp_phase s = Checking \<Longrightarrow> wait_loop options store kids [rp_zombie s] = None \<Longrightarrow>
     reap_step options store kids s (s\<lparr>rp_phase := Deciding\<rparr>)"
| reap_sleep: "rp_phase s = Deciding \<Longrightarrow> reap_step options store kids s (s\<lparr>rp_phase := Asleep\<rparr>)"
| reap_child: "rp_exits s p = Some (e # es) \<Longrightarrow>
     reap_step options store kids s (run_effect p e (s\<lparr>rp_exits := (rp_exits s)(p \<mapsto> es)\<rparr>))"

text \<open>At the start every selected child is about to exit with a code of its own.\<close>

definition reap_start :: "child list \<Rightarrow> (pid \<Rightarrow> i32) \<Rightarrow> (pid \<Rightarrow> bool) \<Rightarrow> (pid \<Rightarrow> exit_ctx) \<Rightarrow> reap" where
  "reap_start kids code gexit ctx =
     \<lparr>rp_phase = Checking,
      rp_exits = (\<lambda>p. if p \<in> ch_pid ` set kids then Some (do_exit (code p) (gexit p) (ctx p)) else None),
      rp_code = (\<lambda>p. 0), rp_zombie = Map.empty\<rparr>"

section \<open>What is answered\<close>

text \<open>The code is left before the process becomes a zombie.\<close>

definition exit_ahead :: "i32 \<Rightarrow> i32 \<Rightarrow> exit_effect list \<Rightarrow> bool" where
  "exit_ahead c now es \<longleftrightarrow>
     (\<exists>pre post. es = pre @ ThreadExit c # post \<and> ProcessExit \<notin> set pre \<and> (\<forall>d. ThreadExit d \<notin> set pre) \<and> (\<forall>d. ThreadExit d \<notin> set post))
     \<or> now = c \<and> (\<forall>d. ThreadExit d \<notin> set es)"

lemma exit_ahead_do_exit: "exit_ahead c now (do_exit c g ctx)"
proof -
  let ?pre = "case ex_clear_tid ctx of None \<Rightarrow> []
      | Some a \<Rightarrow> [ClearTid a] @ (if ex_futex ctx then [FutexNotify a] else []) @ [Yield]"
  let ?post = "(if ex_last ctx then
        [ProcessExit] @
        (case ex_parent ctx of
           None \<Rightarrow> []
         | Some has_data \<Rightarrow>
             (case ex_signal ctx of None \<Rightarrow> [] | Some s \<Rightarrow> [SignalParent s]) @ (if has_data then [NotifyParent] else [])) @
        [ProcessExit, FdTableClear]
      else []) @
     (if g \<and> \<not> ex_group_exited ctx then [GroupExit] @ map KillThread (ex_threads ctx) else []) @
     [TaskExit c]"
  have "do_exit c g ctx = ?pre @ ThreadExit c # ?post" by (simp add: do_exit_def)
  moreover have "ProcessExit \<notin> set ?pre" "\<forall>d. ThreadExit d \<notin> set ?pre" "\<forall>d. ThreadExit d \<notin> set ?post"
    by (auto split: option.splits)
  ultimately show ?thesis unfolding exit_ahead_def by blast
qed

text \<open>A process marks itself as exited once more after it has notified its parent.\<close>

definition exit_after :: "exit_effect list \<Rightarrow> bool" where
  "exit_after es \<longleftrightarrow> (\<exists>a b. es = a @ b \<and> NotifyParent \<notin> set b \<and> (NotifyParent \<in> set a \<longrightarrow> ProcessExit \<in> set b))"

lemma exit_after_do_exit: "exit_after (do_exit c g ctx)"
proof (cases "ex_last ctx")
  case True
  let ?a = "(case ex_clear_tid ctx of None \<Rightarrow> []
      | Some a \<Rightarrow> [ClearTid a] @ (if ex_futex ctx then [FutexNotify a] else []) @ [Yield]) @ [ThreadExit c, ProcessExit] @
      (case ex_parent ctx of
           None \<Rightarrow> []
         | Some has_data \<Rightarrow>
             (case ex_signal ctx of None \<Rightarrow> [] | Some s \<Rightarrow> [SignalParent s]) @ (if has_data then [NotifyParent] else []))"
  let ?b = "[ProcessExit, FdTableClear] @
      (if g \<and> \<not> ex_group_exited ctx then [GroupExit] @ map KillThread (ex_threads ctx) else []) @ [TaskExit c]"
  have "do_exit c g ctx = ?a @ ?b" using True by (simp add: do_exit_def)
  moreover have "NotifyParent \<notin> set ?b" "ProcessExit \<in> set ?b" by auto
  ultimately show ?thesis unfolding exit_after_def by blast
next
  case False
  then have "NotifyParent \<notin> set (do_exit c g ctx)" by (auto simp: do_exit_def split: option.splits)
  then have "do_exit c g ctx = [] @ do_exit c g ctx \<and> NotifyParent \<notin> set (do_exit c g ctx)" by simp
  then show ?thesis unfolding exit_after_def by fastforce
qed

lemma exit_after_tl: "exit_after (e # es) \<Longrightarrow> exit_after es"
  unfolding exit_after_def
proof (elim exE conjE)
  fix a b assume ab: "e # es = a @ b" "NotifyParent \<notin> set b" "NotifyParent \<in> set a \<longrightarrow> ProcessExit \<in> set b"
  show "\<exists>a b. es = a @ b \<and> NotifyParent \<notin> set b \<and> (NotifyParent \<in> set a \<longrightarrow> ProcessExit \<in> set b)"
  proof (cases a)
    case Nil
    with ab have "es = [] @ es \<and> NotifyParent \<notin> set es" by auto
    then show ?thesis by fastforce
  next
    case (Cons x xs)
    with ab show ?thesis by (intro exI [of _ xs] exI [of _ b]) auto
  qed
qed

lemma exit_after_mem: "exit_after es \<Longrightarrow> NotifyParent \<in> set es \<Longrightarrow> ProcessExit \<in> set es"
  by (auto simp: exit_after_def)

definition reap_inv :: "child list \<Rightarrow> (pid \<Rightarrow> i32) \<Rightarrow> reap \<Rightarrow> bool" where
  "reap_inv kids code s \<longleftrightarrow>
     (\<forall>p es. rp_exits s p = Some es \<longrightarrow> p \<in> ch_pid ` set kids \<and> exit_ahead (code p) (rp_code s p) es \<and> exit_after es) \<and>
     (\<forall>p z. rp_zombie s p = Some z \<longrightarrow> z = code p)"

lemma exit_ahead_step:
  assumes "exit_ahead c now (e # es)"
  shows "exit_ahead c (case e of ThreadExit d \<Rightarrow> d | _ \<Rightarrow> now) es" "e = ProcessExit \<Longrightarrow> now = c"
proof -
  consider pre post where "e # es = pre @ ThreadExit c # post" "ProcessExit \<notin> set pre" "\<forall>d. ThreadExit d \<notin> set pre"
      "\<forall>d. ThreadExit d \<notin> set post"
    | "now = c" "\<forall>d. ThreadExit d \<notin> set (e # es)"
    using assms unfolding exit_ahead_def by blast
  then have "exit_ahead c (case e of ThreadExit d \<Rightarrow> d | _ \<Rightarrow> now) es \<and> (e = ProcessExit \<longrightarrow> now = c)"
  proof cases
    case 1
    show ?thesis
    proof (cases pre)
      case Nil
      with 1 show ?thesis by (auto simp: exit_ahead_def)
    next
      case (Cons e' pre')
      with 1 have "es = pre' @ ThreadExit c # post" "e = e'" by simp_all
      with 1 Cons show ?thesis unfolding exit_ahead_def by (auto split: exit_effect.splits)
    qed
  next
    case 2
    then show ?thesis by (auto simp: exit_ahead_def split: exit_effect.splits)
  qed
  then show "exit_ahead c (case e of ThreadExit d \<Rightarrow> d | _ \<Rightarrow> now) es" "e = ProcessExit \<Longrightarrow> now = c" by blast+
qed

lemma run_effect_fields:
  "rp_exits (run_effect p e s) = rp_exits s"
  "rp_code (run_effect p e s) = (rp_code s)(p := (case e of ThreadExit c \<Rightarrow> c | _ \<Rightarrow> rp_code s p))"
  "rp_zombie (run_effect p e s) = (if e = ProcessExit then (rp_zombie s)(p \<mapsto> rp_code s p) else rp_zombie s)"
  "rp_phase (run_effect p e s) = (if e = NotifyParent \<and> rp_phase s = Asleep then Checking else rp_phase s)"
  by (cases e; simp)+

lemma reap_step_inv:
  assumes "reap_step options store kids s s'" "reap_inv kids code s"
  shows "reap_inv kids code s'"
  using assms
proof cases
  case (reap_child p e es)
  have "exit_ahead (code p) (rp_code s p) (e # es)" "p \<in> ch_pid ` set kids" "exit_after (e # es)"
    using assms(2) reap_child(2) unfolding reap_inv_def by blast+
  note st = exit_ahead_step [OF this(1)] this(2) exit_after_tl [OF this(3)]
  show ?thesis
    using assms(2) st unfolding reap_child(1) reap_inv_def run_effect_fields by (cases e) auto
qed (simp_all add: reap_inv_def)

lemma reap_start_inv: "reap_inv kids code (reap_start kids code gexit ctx)"
  by (auto simp: reap_inv_def reap_start_def exit_ahead_do_exit exit_after_do_exit)

lemma reap_reach_inv:
  "(reap_step options store kids)\<^sup>*\<^sup>* (reap_start kids code gexit ctx) s \<Longrightarrow> reap_inv kids code s"
  by (induction rule: rtranclp_induct) (auto intro: reap_start_inv dest: reap_step_inv)

text \<open>An answer names a child that is a zombie, with its code.\<close>

lemma wait_loop_one:
  assumes "wait_loop options store kids [z] = Some r" "wr_pid r \<noteq> 0"
  shows "\<exists>c \<in> set kids. wr_pid r = ch_pid c \<and> z (ch_pid c) \<noteq> None \<and> wr_status r = (if store then z (ch_pid c) else None)"
proof (cases "find (\<lambda>c. z (ch_pid c) \<noteq> None) kids")
  case None
  then show ?thesis using assms by (auto split: if_splits)
next
  case (Some c)
  then have "c \<in> set kids" "z (ch_pid c) \<noteq> None" by (auto simp: find_Some_iff in_set_conv_nth)
  then show ?thesis using assms(1) Some by auto
qed

lemma wait_loop_none: "wait_loop options store kids [z] = None \<Longrightarrow> c \<in> set kids \<Longrightarrow> z (ch_pid c) = None"
  by (cases "find (\<lambda>c. z (ch_pid c) \<noteq> None) kids") (auto simp: find_None_iff split: if_splits)

section \<open>Waking up\<close>

text \<open>A child that has still to notify its parent.\<close>

definition notify_ahead :: "reap \<Rightarrow> pid \<Rightarrow> bool" where
  "notify_ahead s p \<longleftrightarrow> (\<exists>es. rp_exits s p = Some es \<and> NotifyParent \<in> set es)"

lemma asleep_for_ever:
  assumes "(reap_step options store kids)\<^sup>*\<^sup>* s s'" "rp_phase s = Asleep" "\<forall>p. \<not> notify_ahead s p"
  shows "rp_phase s' = Asleep \<and> (\<forall>p. \<not> notify_ahead s' p)"
  using assms
proof (induction rule: rtranclp_induct)
  case (step s1 s2)
  then have "rp_phase s1 = Asleep" "\<forall>p. \<not> notify_ahead s1 p" by blast+
  with step(2) show ?case
  proof cases
    case (reap_child p e es)
    with \<open>\<forall>p. \<not> notify_ahead s1 p\<close> have "NotifyParent \<notin> set (e # es)" unfolding notify_ahead_def by blast
    then have "e \<noteq> NotifyParent" "NotifyParent \<notin> set es" by auto
    with reap_child \<open>rp_phase s1 = Asleep\<close> \<open>\<forall>p. \<not> notify_ahead s1 p\<close> show ?thesis
      by (auto simp: notify_ahead_def run_effect_fields)
  qed auto
qed simp

lemma run_rest:
  "rp_exits s p = Some es \<Longrightarrow>
     \<exists>s'. (reap_step options store kids)\<^sup>*\<^sup>* s s' \<and> rp_exits s' p = Some [] \<and>
       (ProcessExit \<in> set es \<or> rp_zombie s p \<noteq> None \<longrightarrow> rp_zombie s' p \<noteq> None) \<and>
       rp_phase s' = (if NotifyParent \<in> set es \<and> rp_phase s = Asleep then Checking else rp_phase s)"
proof (induction es arbitrary: s)
  case (Cons e es)
  let ?s = "run_effect p e (s\<lparr>rp_exits := (rp_exits s)(p \<mapsto> es)\<rparr>)"
  have "reap_step options store kids s ?s" using Cons.prems by (rule reap_child)
  moreover have "rp_exits ?s p = Some es" by (simp add: run_effect_fields)
  from Cons.IH [OF this] obtain s' where "(reap_step options store kids)\<^sup>*\<^sup>* ?s s'" "rp_exits s' p = Some []"
    "ProcessExit \<in> set es \<or> rp_zombie ?s p \<noteq> None \<longrightarrow> rp_zombie s' p \<noteq> None"
    "rp_phase s' = (if NotifyParent \<in> set es \<and> rp_phase ?s = Asleep then Checking else rp_phase ?s)" by blast
  ultimately show ?case
    by (intro exI [of _ s']) (auto simp: run_effect_fields intro: converse_rtranclp_into_rtranclp split: if_splits)
qed auto

lemma asleep_wakes:
  assumes "reap_inv kids code s" "rp_phase s = Asleep" "notify_ahead s p"
  shows "\<exists>s' r. (reap_step options store kids)\<^sup>*\<^sup>* s s' \<and> rp_phase s' = Answered r"
proof -
  obtain es where es: "rp_exits s p = Some es" "NotifyParent \<in> set es" using assms(3) by (auto simp: notify_ahead_def)
  with assms(1) have "p \<in> ch_pid ` set kids" "ProcessExit \<in> set es"
    unfolding reap_inv_def using exit_after_mem by blast+
  then obtain c where c: "c \<in> set kids" "ch_pid c = p" by auto
  obtain s1 where s1: "(reap_step options store kids)\<^sup>*\<^sup>* s s1" "rp_zombie s1 p \<noteq> None" "rp_phase s1 = Checking"
    using run_rest [OF es(1), of options store kids] es(2) assms(2) \<open>ProcessExit \<in> set es\<close> by auto
  then obtain r where "wait_loop options store kids [rp_zombie s1] = Some r"
    using wait_loop_none [of options store kids "rp_zombie s1" c] c by fastforce
  with s1(3) have "reap_step options store kids s1 (s1\<lparr>rp_phase := Answered r\<rparr>)" by (rule reap_answer)
  with s1(1) show ?thesis by (intro exI [of _ "s1\<lparr>rp_phase := Answered r\<rparr>"] exI [of _ r]) auto
qed

section \<open>Properties\<close>

text \<open>C13. Exiting and waiting in any interleaving of the parent's loop with the exits of its children: when the
  parent gets an answer other than 0, it names one of the selected children, which is a zombie, and the
  status stored is the code that child passed to \<open>do_exit\<close>. A parent that has gone to sleep can still get
  an answer exactly when some child has still to notify it.\<close>

theorem exit_and_wait:
  assumes "(reap_step options store kids)\<^sup>*\<^sup>* (reap_start kids code gexit ctx) s"
  shows "case rp_phase s of
      Answered r \<Rightarrow> wr_pid r \<noteq> 0 \<longrightarrow>
        (\<exists>c \<in> set kids. wr_pid r = ch_pid c \<and> rp_zombie s (ch_pid c) = Some (code (ch_pid c)) \<and>
           wr_status r = (if store then Some (code (ch_pid c)) else None))
    | Asleep \<Rightarrow>
        (\<exists>s' r. (reap_step options store kids)\<^sup>*\<^sup>* s s' \<and> rp_phase s' = Answered r) \<longleftrightarrow> (\<exists>p. notify_ahead s p)
    | _ \<Rightarrow> True"
proof -
  have inv: "reap_inv kids code s" by (rule reap_reach_inv [OF assms])
  have ans: "\<exists>c \<in> set kids. wr_pid r = ch_pid c \<and> rp_zombie s (ch_pid c) = Some (code (ch_pid c)) \<and>
      wr_status r = (if store then Some (code (ch_pid c)) else None)" if "rp_phase s = Answered r" "wr_pid r \<noteq> 0" for r
    using assms that
  proof (induction rule: rtranclp_induct)
    case base
    then show ?case by (simp add: reap_start_def)
  next
    case (step s1 s2)
    have inv1: "reap_inv kids code s1" by (rule reap_reach_inv [OF step(1)])
    from step(2) show ?case
    proof cases
      case (reap_answer r')
      then have "r' = r" "rp_zombie s2 = rp_zombie s1" using step(4) by auto
      moreover obtain c where "c \<in> set kids" "wr_pid r = ch_pid c" "rp_zombie s1 (ch_pid c) \<noteq> None"
        "wr_status r = (if store then rp_zombie s1 (ch_pid c) else None)"
        using wait_loop_one reap_answer(3) step(5) \<open>r' = r\<close> by blast
      moreover from this have "rp_zombie s1 (ch_pid c) = Some (code (ch_pid c))"
        using inv1 unfolding reap_inv_def by force
      ultimately show ?thesis by auto
    next
      case (reap_child p e es)
      have inv2: "reap_inv kids code s2" by (rule reap_step_inv [OF step(2) inv1])
      have "rp_phase s1 = Answered r" using step(4) reap_child(1) by (auto simp: run_effect_fields split: if_splits)
      then obtain c where c: "c \<in> set kids" "wr_pid r = ch_pid c" "rp_zombie s1 (ch_pid c) = Some (code (ch_pid c))"
        "wr_status r = (if store then Some (code (ch_pid c)) else None)" using step(3,5) by blast
      then have "rp_zombie s2 (ch_pid c) \<noteq> None" using reap_child(1) by (simp add: run_effect_fields)
      with inv2 have "rp_zombie s2 (ch_pid c) = Some (code (ch_pid c))" unfolding reap_inv_def by force
      with c show ?thesis by blast
    qed (use step in auto)
  qed
  show ?thesis
  proof (cases "rp_phase s")
    case Asleep
    have "(\<exists>s' r. (reap_step options store kids)\<^sup>*\<^sup>* s s' \<and> rp_phase s' = Answered r) \<longleftrightarrow> (\<exists>p. notify_ahead s p)"
      using asleep_for_ever [of options store kids s] asleep_wakes [OF inv Asleep] Asleep by (metis wait_phase.distinct(11))
    then show ?thesis using Asleep by simp
  qed (use ans in auto)
qed

text \<open>C36. The loop of \<open>sys_waitpid\<close> looks at the children before it sleeps and holds nothing in between. So for
  every child that is the last thread of its process there is a run in which the child exits completely in
  that window: the parent then sleeps beside a zombie and no step is left that could wake it.\<close>

theorem waitpid_lost_wakeup:
  assumes "\<not> has_option options WNOHANG" and "ex_last (ctx (ch_pid kid))"
  shows "\<exists>s. (reap_step options store [kid])\<^sup>*\<^sup>* (reap_start [kid] code gexit ctx) s \<and>
    rp_phase s = Asleep \<and> rp_zombie s (ch_pid kid) = Some (code (ch_pid kid)) \<and>
    (\<forall>s'. \<not> reap_step options store [kid] s s')"
proof -
  let ?s0 = "reap_start [kid] code gexit ctx" and ?p = "ch_pid kid"
  let ?s1 = "?s0\<lparr>rp_phase := Deciding\<rparr>"
  have "reap_step options store [kid] ?s0 ?s1"
    using assms(1) by (intro reap_none) (simp_all add: reap_start_def)
  then have r1: "(reap_step options store [kid])\<^sup>*\<^sup>* ?s0 ?s1" by blast
  have ex: "rp_exits ?s1 ?p = Some (do_exit (code ?p) (gexit ?p) (ctx ?p))" by (simp add: reap_start_def)
  have "ProcessExit \<in> set (do_exit (code ?p) (gexit ?p) (ctx ?p))" using assms(2) by (simp add: do_exit_def)
  then obtain s2 where s2: "(reap_step options store [kid])\<^sup>*\<^sup>* ?s1 s2" "rp_exits s2 ?p = Some []"
    "rp_zombie s2 ?p \<noteq> None" "rp_phase s2 = Deciding"
    using run_rest [OF ex, of options store "[kid]"] by auto
  let ?s3 = "s2\<lparr>rp_phase := Asleep\<rparr>"
  have r3: "(reap_step options store [kid])\<^sup>*\<^sup>* ?s0 ?s3"
    using r1 s2(1) reap_sleep [OF s2(4), of options store "[kid]"] by (meson rtranclp.rtrancl_into_rtrancl rtranclp_trans)
  have inv: "reap_inv [kid] code ?s3" by (rule reap_reach_inv [OF r3])
  have "rp_zombie ?s3 ?p = Some (code ?p)" using inv s2(3) unfolding reap_inv_def by force
  moreover have "\<not> reap_step options store [kid] ?s3 s'" for s'
  proof
    assume "reap_step options store [kid] ?s3 s'"
    then show False
    proof cases
      case (reap_child p e es)
      then have "p = ?p" using inv unfolding reap_inv_def by force
      with reap_child(2) s2(2) show False by simp
    qed simp_all
  qed
  ultimately show ?thesis using r3 by (intro exI [of _ ?s3]) simp
qed

lemma status_of_exit:
  "WIFEXITED (push_bit 8 c)" "WEXITSTATUS (push_bit 8 c) = c AND 0xFF"
proof -
  have m: "(0x7F :: i32) = mask 7" "(0xFF :: i32) = mask 8" "(0xFF00 :: i32) = push_bit 8 (mask 8)"
    by (simp_all add: mask_eq_exp_minus_1)
  show "WIFEXITED (push_bit 8 c)"
    unfolding WIFEXITED_def WTERMSIG_def m by (rule bit_word_eqI) (auto simp: bit_simps)
  show "WEXITSTATUS (push_bit 8 c) = c AND 0xFF"
    unfolding WEXITSTATUS_def m by (rule bit_word_eqI) (auto simp: bit_simps)
qed

lemma status_of_signal:
  fixes g :: signo
  assumes "1 \<le> g" "g \<le> 64"
  shows "WTERMSIG (128 + ucast g) = ucast g \<and> WCOREDUMP (128 + ucast g) \<and> WTERMSIG (128 + ucast g) \<noteq> 0"
proof -
  have all: "list_all (\<lambda>n. let s = 128 + ucast (word_of_nat n :: signo) in
      WTERMSIG s = ucast (word_of_nat n :: signo) \<and> WCOREDUMP s \<and> WTERMSIG s \<noteq> 0) [1..<65]"
    unfolding WTERMSIG_def WCOREDUMP_def by code_simp
  have "unat g \<in> set [1..<65]" using assms by (simp add: word_le_nat_alt)
  then have "let s = 128 + ucast (word_of_nat (unat g) :: signo) in
      WTERMSIG s = ucast (word_of_nat (unat g) :: signo) \<and> WCOREDUMP s \<and> WTERMSIG s \<noteq> 0"
    using all unfolding list_all_iff by blast
  then show ?thesis by (auto simp: Let_def)
qed



text \<open>A child that exits with code 3, and the answer its parent gets when it looks afterwards.\<close>

definition one_kid :: child where "one_kid = \<lparr>ch_pid = 8, ch_pgid = 1, ch_exit_signal = Some SIGCHLD\<rparr>"

definition kid_ctx :: exit_ctx where
  "kid_ctx = \<lparr>ex_clear_tid = None, ex_futex = False, ex_last = True, ex_parent = Some True, ex_signal = Some SIGCHLD,
     ex_group_exited = False, ex_threads = []\<rparr>"

theorem waitpid_lost_wakeup_witness:
  "\<exists>s. (reap_step 0 True [one_kid])\<^sup>*\<^sup>* (reap_start [one_kid] (\<lambda>p. 0x300) (\<lambda>p. False) (\<lambda>p. kid_ctx)) s \<and>
     rp_phase s = Asleep \<and> rp_zombie s 8 = Some 0x300"
  using waitpid_lost_wakeup [of 0 "\<lambda>p. kid_ctx" one_kid True "\<lambda>p. 0x300" "\<lambda>p. False"]
  by (auto simp: has_option_def WNOHANG_def kid_ctx_def one_kid_def)

theorem exit_and_wait_witness:
  "\<exists>s r. (reap_step 0 True [one_kid])\<^sup>*\<^sup>* (reap_start [one_kid] (\<lambda>p. 0x300) (\<lambda>p. False) (\<lambda>p. kid_ctx)) s \<and>
     rp_phase s = Answered r \<and> wr_pid r = 8 \<and> wr_status r = Some 0x300"
proof -
  let ?init = "reap_start [one_kid] (\<lambda>p. 0x300) (\<lambda>p. False) (\<lambda>p. kid_ctx)"
  have ex: "rp_exits ?init 8 = Some (do_exit 0x300 False kid_ctx)" by (simp add: reap_start_def one_kid_def)
  have "ProcessExit \<in> set (do_exit 0x300 False kid_ctx)" by (simp add: do_exit_def kid_ctx_def)
  then obtain s1 where s1: "(reap_step 0 True [one_kid])\<^sup>*\<^sup>* ?init s1" "rp_zombie s1 8 \<noteq> None" "rp_phase s1 = Checking"
    using run_rest [OF ex, of 0 True "[one_kid]"] by (auto simp: reap_start_def)
  then obtain r where r: "wait_loop 0 True [one_kid] [rp_zombie s1] = Some r" "wr_pid r = 8"
    by (auto simp: one_kid_def)
  let ?s = "s1\<lparr>rp_phase := Answered r\<rparr>"
  have reach: "(reap_step 0 True [one_kid])\<^sup>*\<^sup>* ?init ?s"
    using s1(1) reap_answer [OF s1(3) r(1)] by (meson rtranclp.rtrancl_into_rtrancl)
  from exit_and_wait [OF reach] r(2) have "wr_status r = Some 0x300" by auto
  with reach r(2) show ?thesis by (intro exI [of _ ?s] exI [of _ r]) simp
qed

end
