(* ===== verification/Vm_Share.thy ===== *)
theory Vm_Share
  imports Entry
begin

text \<open>
  Address spaces across processes. The memory calls (\<open>api/src/imp/mm\<close>), \<open>execve\<close>, \<open>clone\<close>, the end of a
  thread and the drop of \<open>ProcessData\<close> (\<open>core/src/task.rs\<close>) act on the address space their process refers
  to; here they act on the store of \<open>Clone\<close>, in any order and for any number of processes. Where the
  kernel has no page tables of its own, an address space carries the kernel's mappings as well
  (\<open>copy_from_kernel\<close>), and the drop of \<open>ProcessData\<close> takes them out again.
\<close>

section \<open>State and operations\<close>

text \<open>The range of the kernel's mappings and \<open>AddrSpace::clear_mappings\<close>.\<close>

record 'as kernel_vm =
  kv_base :: usize
  kv_size :: usize
  clear_mappings :: "'as \<Rightarrow> usize \<Rightarrow> usize \<Rightarrow> 'as"

record ('elf, 'as, 'f, 't, 'act, 'w) vm_env =
  ve_loader :: "'elf loader_env"
  ve_plat :: plat
  ve_as :: "'as aspace_ops"
  ve_unmap_all :: "'as \<Rightarrow> (ax_error + unit) \<times> 'as"
  ve_align :: align_ops
  ve_tramp :: usize
  ve_file :: "'f mmap_file"
  ve_tree :: "'w axproc"
  ve_fds :: "('t, arc) flatten_ops"
  ve_clone :: "('as, 'act, 'w) clone_env"
  ve_boot :: "'as boot_env"
  ve_kernel :: "'as kernel_vm"

text \<open>\<open>Drop for ProcessData\<close>.\<close>

definition process_data_drop ::
  "('as, 'act, 'w) clone_env \<Rightarrow> 'as kernel_vm \<Rightarrow> 'as \<Rightarrow> 'as" where
  "process_data_drop C V as =
     (if \<not> separate_tables C then clear_mappings V as (kv_base V) (kv_size V) else as)"

text \<open>A process that is reaped loses its data, and with it its reference to the address space.\<close>

definition uses_aspace :: "('as, 't, 'act, 'w) kstate \<Rightarrow> pid \<Rightarrow> arc \<Rightarrow> bool" where
  "uses_aspace S p a \<longleftrightarrow> map_option pd_aspace (procs S p) = Some a"

definition drop_process ::
  "('as, 'act, 'w) clone_env \<Rightarrow> 'as kernel_vm \<Rightarrow> pid \<Rightarrow> ('as, 't, 'act, 'w) kstate \<Rightarrow> ('as, 't, 'act, 'w) kstate" where
  "drop_process C V p S =
     (case procs S p of
        None \<Rightarrow> S
      | Some pd \<Rightarrow>
          let a = pd_aspace pd;
              S1 = S\<lparr>procs := (procs S)(p := None)\<rparr>
          in S1\<lparr>aspaces := (aspaces S)(a :=
               if \<exists>q. uses_aspace S1 q a then map_option (process_data_drop C V) (aspaces S a) else None)\<rparr>)"

definition thread_count :: "('as, 't, 'act, 'w) kstate \<Rightarrow> pid \<Rightarrow> nat" where
  "thread_count S p = card {t. map_option td_process (threads S t) = Some p}"

text \<open>\<open>execve\<close> by the thread \<open>tid\<close>; no result when loading does not end. (The name of the task is not part of the
  state.)\<close>

definition exec_thread ::
  "('elf, 'as, 'f, 't, 'act, 'w) vm_env \<Rightarrow> string res \<Rightarrow> string list res \<Rightarrow> string list res \<Rightarrow> pid
   \<Rightarrow> ('as, 't, 'act, 'w) kstate \<Rightarrow> (isize res \<times> ('as, 't, 'act, 'w) kstate) option" where
  "exec_thread V path argv envp tid S =
     (case threads S tid of
        None \<Rightarrow> Some (Inl Panic, S)
      | Some td \<Rightarrow>
          (case procs S (td_process td) of
             None \<Rightarrow> Some (Inl Panic, S)
           | Some pd \<Rightarrow>
               (case aspaces S (pd_aspace pd) of
                  None \<Rightarrow> Some (Inl Panic, S)
                | Some as \<Rightarrow>
                    map_option (\<lambda>(r, x).
                        (r, S\<lparr>aspaces := (aspaces S)(pd_aspace pd \<mapsto> x_aspace x),
                              procs := (procs S)(td_process td \<mapsto> pd\<lparr>pd_exe := x_exe_path x\<rparr>),
                              threads := (threads S)(tid \<mapsto> td\<lparr>td_uctx := (td_uctx td)\<lparr>u_ip := x_ip x, u_sp := x_sp x\<rparr>\<rparr>)\<rparr>))
                      (sys_execve (ve_loader V) (ve_plat V) (ve_as V) (ve_unmap_all V) (ve_align V) (ve_tramp V)
                         path argv envp (thread_count S (td_process td))
                         \<lparr>x_aspace = as, x_name = '''', x_exe_path = pd_exe pd, x_ip = u_ip (td_uctx td), x_sp = u_sp (td_uctx td)\<rparr>))))"

definition thread_aspace :: "('as, 't, 'act, 'w) kstate \<Rightarrow> pid \<Rightarrow> (arc \<times> 'as) option" where
  "thread_aspace S tid =
     (case threads S tid of
        None \<Rightarrow> None
      | Some td \<Rightarrow>
          (case procs S (td_process td) of
             None \<Rightarrow> None
           | Some pd \<Rightarrow> map_option (Pair (pd_aspace pd)) (aspaces S (pd_aspace pd))))"

definition put_aspace :: "arc \<Rightarrow> 'as \<Rightarrow> ('as, 't, 'act, 'w) kstate \<Rightarrow> ('as, 't, 'act, 'w) kstate" where
  "put_aspace a as S = S\<lparr>aspaces := (aspaces S)(a \<mapsto> as)\<rparr>"

definition with_fresh ::
  "arc \<Rightarrow> arc \<Rightarrow> arc \<Rightarrow> arc \<Rightarrow> ('as, 'act, 'w) clone_env \<Rightarrow> ('as, 'act, 'w) clone_env" where
  "with_fresh a f c g C = C\<lparr>fresh_as := a, fresh_fd := f, fresh_cwd := c, fresh_act := g\<rparr>"

text \<open>Without \<open>share\<close>, only threads of one process share an address space.\<close>

inductive vm_step ::
  "('elf, 'as, 'f, 't, 'act, 'w) vm_env \<Rightarrow> bool \<Rightarrow> ('as, 't, 'act, 'w) kstate \<Rightarrow> ('as, 't, 'act, 'w) kstate \<Rightarrow> bool"
  for V share where
  vm_start: "procs S tid = None \<Longrightarrow> threads S tid = None \<Longrightarrow> aspaces S a = None \<Longrightarrow>
     run_user_app (ve_loader V) (ve_plat V) (ve_as V) (ve_align V) (ve_tree V) (ve_fds V) (with_fresh a f c g (ve_clone V))
       (ve_boot V) tid args envs S = Some (Inr p, T) \<Longrightarrow> vm_step V share S T"
| vm_mmap: "thread_aspace S tid = Some (a, as) \<Longrightarrow>
     sys_mmap (ve_as V) (ve_align V) (ve_file V) ff addr len prot flags fd off as = (r, as') \<Longrightarrow>
     vm_step V share S (put_aspace a as' S)"
| vm_munmap: "thread_aspace S tid = Some (a, as) \<Longrightarrow> sys_munmap (ve_as V) (ve_align V) addr len as = (r, as') \<Longrightarrow>
     vm_step V share S (put_aspace a as' S)"
| vm_mprotect: "thread_aspace S tid = Some (a, as) \<Longrightarrow> sys_mprotect (ve_as V) (ve_align V) addr len prot as = (r, as') \<Longrightarrow>
     vm_step V share S (put_aspace a as' S)"
| vm_brk: "threads S tid = Some td \<Longrightarrow> procs S (td_process td) = Some pd \<Longrightarrow> sys_brk (ve_plat V) addr (pd_heap pd) = (r, h) \<Longrightarrow>
     vm_step V share S (S\<lparr>procs := (procs S)(td_process td \<mapsto> pd\<lparr>pd_heap := h\<rparr>)\<rparr>)"
| vm_execve: "exec_thread V path argv envp tid S = Some (r, T) \<Longrightarrow> vm_step V share S T"
| vm_clone: "threads S tid = Some td \<Longrightarrow> threads S child = None \<Longrightarrow> procs S child = None \<Longrightarrow> aspaces S a = None \<Longrightarrow>
     share \<or> \<not> has_flag flags CLONE_VM \<or> has_flag flags CLONE_THREAD \<Longrightarrow>
     sys_clone (ve_plat V) (ve_tree V) (ve_fds V) (with_fresh a f c g (ve_clone V)) tf (td_process td) child flags
       stack ptid pchk ctid cchk tls S = (rc, T) \<Longrightarrow> rc \<noteq> Inl Panic \<Longrightarrow> vm_step V share S T"
| vm_exit: "threads S tid = Some td \<Longrightarrow> vm_step V share S (S\<lparr>threads := (threads S)(tid := None)\<rparr>)"
| vm_reap: "(\<forall>t td. threads S t = Some td \<longrightarrow> td_process td \<noteq> p) \<Longrightarrow>
     vm_step V share S (drop_process (ve_clone V) (ve_kernel V) p S)"

section \<open>What the operations keep of an address space\<close>

text \<open>\<open>K as\<close>: the kernel's mappings are in place. The operations on user areas leave them alone, copying the
  kernel's mappings puts them there, and clearing that range takes them out. With separate page tables
  they are always reachable.\<close>

definition keeps_kernel :: "('elf, 'as, 'f, 't, 'act, 'w) vm_env \<Rightarrow> ('as \<Rightarrow> bool) \<Rightarrow> bool" where
  "keeps_kernel V K \<longleftrightarrow>
     (\<forall>as. K as \<longrightarrow>
        (\<forall>v p n fl ps. K (snd (map_linear (ve_as V) as v p n fl ps))) \<and>
        (\<forall>v n fl b ps. K (snd (map_alloc (ve_as V) as v n fl b ps))) \<and>
        (\<forall>v n. K (snd (as_unmap (ve_as V) as v n))) \<and>
        (\<forall>v n fl. K (snd (as_protect (ve_as V) as v n fl))) \<and>
        (\<forall>v ps bs. K (snd (as_write (ve_as V) as v ps bs))) \<and>
        K (snd (ve_unmap_all V as)))"

definition kernel_maps :: "('elf, 'as, 'f, 't, 'act, 'w) vm_env \<Rightarrow> ('as \<Rightarrow> bool) \<Rightarrow> bool" where
  "kernel_maps V K \<longleftrightarrow>
     (if separate_tables (ve_clone V) then \<forall>as. K as
      else (\<forall>as as'. copy_mappings_from (ve_clone V) as = Inr as' \<longrightarrow> K as') \<and>
           (\<forall>as. \<not> K (clear_mappings (ve_kernel V) as (kv_base (ve_kernel V)) (kv_size (ve_kernel V)))))"

lemma keeps_kernelD:
  assumes "keeps_kernel V K" "K as"
  shows "map_linear (ve_as V) as v p n fl ps = (r, as') \<Longrightarrow> K as'"
    and "map_alloc (ve_as V) as v n fl b ps = (r, as') \<Longrightarrow> K as'"
    and "as_unmap (ve_as V) as v n = (r, as') \<Longrightarrow> K as'"
    and "as_protect (ve_as V) as v n fl = (r, as') \<Longrightarrow> K as'"
    and "as_write (ve_as V) as v ps bs = (r, as') \<Longrightarrow> K as'"
    and "ve_unmap_all V as = (r, as') \<Longrightarrow> K as'"
  using assms unfolding keeps_kernel_def by (metis snd_conv)+

lemma snd_sbind_pure [simp]: "snd (sbind m (\<lambda>x. Pair (g x))) = snd m"
  by (cases m; cases "fst m") auto

lemma mmap_start_keeps:
  "keeps_kernel V K \<Longrightarrow> K as \<Longrightarrow> K (snd (mmap_start (ve_as V) fl ps v n as))"
  using keeps_kernelD(3) by (fastforce simp: mmap_start_def Let_def sbind_pair split: prod.splits sum.splits)

lemma mmap_populate_keeps:
  "keeps_kernel V K \<Longrightarrow> K as \<Longrightarrow> K (snd (mmap_populate (ve_as V) Fl ff v n ps off as))"
  using keeps_kernelD(5) by (fastforce simp: mmap_populate_def Let_def split: prod.splits sum.splits)

lemma mmap_keeps:
  assumes k: "keeps_kernel V K" "K as"
  shows "K (snd (sys_mmap (ve_as V) (ve_align V) Fl ff addr len prot flags fd off as))"
proof -
  let ?mf = "flags AND MmapFlags_all" let ?ps = "mmap_page_size ?mf"
  let ?v = "align_down (ve_align V) addr (2 ^ page_bits ?ps)"
  let ?n = "align_up (ve_align V) (addr + len) (2 ^ page_bits ?ps) - ?v"
  define pop where "pop = (if fd = - 1 then False else \<not> contains_flag ?mf MAP_ANONYMOUS)"
  obtain q as1 where st: "mmap_start (ve_as V) ?mf ?ps ?v ?n as = (q, as1)" by fastforce
  have k1: "K as1" using mmap_start_keeps [OF k, of ?mf ?ps ?v ?n] st by simp
  show ?thesis
  proof (cases q)
    case (Inl e)
    then show ?thesis using st k(2) k1 by (simp add: sys_mmap_def Let_def)
  next
    case (Inr w)
    obtain q2 as2 where al: "map_alloc (ve_as V) as1 w ?n (mapping_flags_from (prot AND MmapProt_all)) pop ?ps = (q2, as2)"
      by fastforce
    have k2: "K as2" by (rule keeps_kernelD(2) [OF k(1) k1 al])
    show ?thesis
      using st Inr al k(2) k2 mmap_populate_keeps [OF k(1) k2, of Fl ff w len ?ps off]
      by (simp add: sys_mmap_def Let_def sbind_pair pop_def split: sum.splits prod.splits)
  qed
qed

lemma munmap_keeps:
  assumes "keeps_kernel V K" "K as" "sys_munmap (ve_as V) M addr len as = (r, as')"
  shows "K as'"
  using assms(3) keeps_kernelD(3) [OF assms(1,2)] by (auto simp: sys_munmap_def sbind_pair Let_def split: sum.splits prod.splits)

lemma mprotect_keeps:
  assumes "keeps_kernel V K" "K as" "sys_mprotect (ve_as V) M addr len prot as = (r, as')"
  shows "K as'"
  using assms keeps_kernelD(4) [OF assms(1,2)]
  by (auto simp: sys_mprotect_def sbind_pair Let_def split: sum.splits prod.splits option.splits if_splits)

lemma map_segment_keeps:
  assumes "keeps_kernel V K" "K as" "map_segment (ve_as V) M input seg as = (r, as')"
  shows "K as'"
proof -
  obtain q as1 where al: "map_alloc (ve_as V) as (align_down_4k M (seg_vaddr seg)) (seg_align_size seg) (seg_flags seg) True Size4K = (q, as1)"
    by fastforce
  have k1: "K as1" by (rule keeps_kernelD(2) [OF assms(1,2) al])
  show ?thesis
    using assms(2,3) al k1 keeps_kernelD(5) [OF assms(1) k1]
    by (auto simp: map_segment_def Let_def sbind_pair split: sum.splits prod.splits option.splits if_splits)
qed

lemma map_segments_keeps:
  assumes "keeps_kernel V K" "K as"
  shows "K (snd (map_segments (ve_as V) M input segs as))"
  using assms(2)
proof (induction segs arbitrary: as)
  case (Cons seg segs)
  obtain q as1 where q: "map_segment (ve_as V) M input seg as = (q, as1)" by fastforce
  have "K as1" by (rule map_segment_keeps [OF assms(1) Cons.prems q])
  with q Cons.IH show ?case by (cases q) simp_all
qed simp

lemma load_image_keeps:
  assumes "keeps_kernel V K" "K as"
  shows "K (snd (load_image E P (ve_as V) M elf input args envs as))"
proof -
  obtain q as1 where q: "map_elf E P (ve_as V) M elf input as = (q, as1)" by fastforce
  have k1: "K as1"
    using arg_cong [OF q, of snd] assms(2) map_segments_keeps [OF assms, of M input]
    by (auto simp: map_elf_def split: option.splits)
  show ?thesis
  proof (cases q)
    case (Inr ea)
    obtain entry auxv where ea: "ea = (entry, auxv)" by fastforce
    let ?s = "USER_STACK_TOP P - USER_STACK_SIZE P"
    obtain q2 as2 where al: "map_alloc (ve_as V) as1 ?s (USER_STACK_SIZE P) USER_RW True Size4K = (q2, as2)" by fastforce
    have k2: "K as2" by (rule keeps_kernelD(2) [OF assms(1) k1 al])
    obtain q3 as3 where al3: "map_alloc (ve_as V) as2 (USER_HEAP_BASE P) (USER_HEAP_SIZE P) USER_RW True Size4K = (q3, as3)" by fastforce
    have k3: "K as3" by (rule keeps_kernelD(2) [OF assms(1) k2 al3])
    show ?thesis
      using q Inr ea al k2 al3 k3 keeps_kernelD(5) [OF assms(1) k3]
      by (auto simp: load_image_def Let_def sbind_pair split: sum.splits prod.splits)
  qed (use q k1 in \<open>simp add: load_image_def\<close>)
qed

lemma load_user_app_keeps:
  assumes "keeps_kernel V K" "K as" "load_user_app E P (ve_as V) M path args envs as = Some r"
  shows "K (snd r)"
proof -
  have "As = ve_as V \<Longrightarrow> K as \<Longrightarrow> K (snd r)" if "load_user_app E P As M path args envs as = Some r" for As
    using that
  proof (induction rule: load_user_app.raw_induct [rotated, consumes 1])
    case (1 f E pl As M path args envs as y)
    then show ?case
      using load_image_keeps [OF assms(1) 1(4)]
      by (auto split: if_splits sum.splits image.splits)
  qed
  then show ?thesis using assms(2,3) by simp
qed

lemma execve_keeps:
  assumes "keeps_kernel V K" "K (x_aspace S)"
    and "sys_execve E P (ve_as V) (ve_unmap_all V) M tramp path argv envp n S = Some (r, S')"
  shows "K (x_aspace S')"
proof -
  obtain q as1 where u: "ve_unmap_all V (x_aspace S) = (q, as1)" by fastforce
  have k1: "K as1" by (rule keeps_kernelD(6) [OF assms(1,2) u])
  obtain q2 as2 where m: "map_trampoline P (ve_as V) tramp as1 = (q2, as2)" by fastforce
  have k2: "K as2"
    using m keeps_kernelD(1) [OF assms(1) k1] by (auto simp: map_trampoline_def Let_def split: prod.splits)
  show ?thesis
    using assms(2,3) u k1 m k2 load_user_app_keeps [OF assms(1) k2]
    by (auto simp: sys_execve_def Let_def sbind_pair split: sum.splits prod.splits option.splits)
qed

section \<open>What clone does to the address spaces\<close>

lemma copy_inner_err: "copy_inner F t = Inl e \<Longrightarrow> e = Panic"
proof -
  have "(\<forall>e. acc = Inl e \<longrightarrow> e = Panic) \<Longrightarrow> foldl (copy_one F t) acc ids = Inl e \<Longrightarrow> e = Panic" for acc ids e
  proof (induction ids arbitrary: acc)
    case (Cons i ids)
    show ?case by (rule Cons.IH [of "copy_one F t acc i"]) (use Cons.prems in \<open>auto simp: copy_one_def res_simps split: option.splits\<close>)
  qed simp
  then show "copy_inner F t = Inl e \<Longrightarrow> e = Panic" unfolding copy_inner_def by blast
qed

text \<open>The new process shares the address space, or has a copy with the kernel's mappings at the fresh reference.\<close>

definition cloned_aspace ::
  "('as, 'act, 'w) clone_env \<Rightarrow> bool \<Rightarrow> process_data \<Rightarrow> process_data \<Rightarrow> ('as, 't, 'act, 'w) kstate \<Rightarrow> ('as, 't, 'act, 'w) kstate \<Rightarrow> bool" where
  "cloned_aspace C vm pd pd' S T \<longleftrightarrow>
     (if vm then pd_aspace pd' = pd_aspace pd \<and> aspaces T = aspaces S
      else pd_aspace pd' = fresh_as C \<and>
        (\<exists>as1 as2. copy_from_kernel C as1 = Inr as2 \<and> aspaces T = (aspaces S)(fresh_as C \<mapsto> as2)))"

lemma from_ax_Inr: "from_ax x = Inr y \<longleftrightarrow> x = Inr y"
  by (cases x) simp_all

lemma clone_aspace_cases:
  assumes "clone_aspace C vm a S = (r, T)"
  shows "procs T = procs S" "threads T = threads S" "fd_tables T = fd_tables S" "tables T = tables S"
    "\<And>e. r = Inl e \<Longrightarrow> aspaces T = aspaces S"
    "\<And>b. r = Inr b \<Longrightarrow> pd_aspace pd = a \<Longrightarrow> pd_aspace pd' = b \<Longrightarrow> cloned_aspace C vm pd pd' S T"
  using assms by (auto simp: clone_aspace_def cloned_aspace_def res_simps from_ax_Inr split: if_splits option.splits sum.splits) blast

lemma clone_parts_keep:
  "clone_actions C sh par S = (x, T) \<Longrightarrow> procs T = procs S \<and> threads T = threads S \<and> aspaces T = aspaces S"
  "clone_fds F C sh a S = (r, T) \<Longrightarrow> procs T = procs S \<and> threads T = threads S \<and> aspaces T = aspaces S \<and> (\<forall>e. r = Inl e \<longrightarrow> e = Panic)"
  "clone_cwd C sh a S = (x, T) \<Longrightarrow> procs T = procs S \<and> threads T = threads S \<and> aspaces T = aspaces S"
  by (auto simp: clone_actions_def clone_fds_def clone_cwd_def copy_inner_err split: if_splits option.splits sum.splits)

lemma clone_process_cases:
  assumes "procs S cur = Some pd" "clone_process P X F C flags sig cur tid S = (r, T)" "r \<noteq> Inl Panic"
  shows "threads T = threads S \<and> (case r of
       Inl e \<Rightarrow> procs T = procs S \<and> aspaces T = aspaces S
     | Inr p \<Rightarrow> p = tid \<and> (\<exists>pd'. procs T = (procs S)(tid \<mapsto> pd') \<and> cloned_aspace C (has_flag flags CLONE_VM) pd pd' S T))"
proof -
  define par where "par = (if has_flag flags CLONE_PARENT then ok_or (ax_parent X (tree (tables S)) cur) EINVAL else Inr cur)"
  show ?thesis
  proof (cases par)
  case (Inl e)
  then show ?thesis using assms(1,2) unfolding clone_process_def par_def [symmetric] by auto
next
  case (Inr parent)
  obtain ra S1 where ra: "clone_aspace C (has_flag flags CLONE_VM) (pd_aspace pd) S = (ra, S1)" by fastforce
  note A = clone_aspace_cases [OF ra]
  show ?thesis
  proof (cases ra)
    case (Inl e)
    then have "clone_process P X F C flags sig cur tid S = (Inl e, S1)"
      using assms(1) \<open>par = Inr parent\<close> ra unfolding clone_process_def par_def [symmetric] by simp
    then show ?thesis using assms(2) A Inl by auto
  next
    case (Inr aspace)
    obtain actions S2 where ac: "clone_actions C (has_flag flags CLONE_SIGHAND) (procs S1 parent) S1 = (actions, S2)" by fastforce
    obtain rf S3 where fd: "clone_fds F C (has_flag flags CLONE_FILES) (pd_fds pd) S2 = (rf, S3)" by fastforce
    obtain cwd S4 where cw: "clone_cwd C (has_flag flags CLONE_FS) (pd_cwd pd) S3 = (cwd, S4)" by fastforce
    note keep = clone_parts_keep(1) [OF ac] clone_parts_keep(2) [OF fd] clone_parts_keep(3) [OF cw]
    have "clone_process P X F C flags sig cur tid S = (case rf of Inl e \<Rightarrow> (Inl e, S3)
        | Inr fds \<Rightarrow> let pd' = process_data_new P (pd_exe pd) aspace actions sig fds cwd in
           (Inr tid, S4\<lparr>procs := (procs S4)(tid \<mapsto> pd'),
                        tables := (tables S4)\<lparr>tree := fork_tree C parent tid (tree (tables S4))\<rparr>\<rparr>))"
      using assms(1) \<open>par = Inr parent\<close> ra Inr ac fd cw
      unfolding clone_process_def par_def [symmetric] by (cases rf) simp_all
    then obtain fds where rf: "rf = Inr fds" "r = Inr tid"
      and T: "T = S4\<lparr>procs := (procs S4)(tid \<mapsto> process_data_new P (pd_exe pd) aspace actions sig fds cwd),
         tables := (tables S4)\<lparr>tree := fork_tree C parent tid (tree (tables S4))\<rparr>\<rparr>"
      using assms(2,3) keep by (cases rf) (auto simp: Let_def)
    have "cloned_aspace C (has_flag flags CLONE_VM) pd (process_data_new P (pd_exe pd) aspace actions sig fds cwd) S S1"
      by (rule A(6) [OF Inr]) (simp_all add: process_data_new_def)
    then have "cloned_aspace C (has_flag flags CLONE_VM) pd (process_data_new P (pd_exe pd) aspace actions sig fds cwd) S T"
      using keep T by (simp add: cloned_aspace_def)
    then show ?thesis using rf T keep A by auto
  qed
qed
qed

lemma clone_flag_mask:
  "has_flag (flags AND NOT 0xFF AND CloneFlags_all) CLONE_VM \<longleftrightarrow> has_flag flags CLONE_VM"
  "has_flag (flags AND NOT 0xFF AND CloneFlags_all) CLONE_THREAD \<longleftrightarrow> has_flag flags CLONE_THREAD"
proof -
  have *: "has_flag (flags AND m) b \<longleftrightarrow> has_flag flags b" if "m AND b = b" for m b
    using that by (simp add: has_flag_def and.assoc)
  show "has_flag (flags AND NOT 0xFF AND CloneFlags_all) CLONE_VM \<longleftrightarrow> has_flag flags CLONE_VM"
    "has_flag (flags AND NOT 0xFF AND CloneFlags_all) CLONE_THREAD \<longleftrightarrow> has_flag flags CLONE_THREAD"
    by (rule *, simp add: CLONE_VM_def CLONE_THREAD_def CloneFlags_all_def)+
qed

lemma sys_clone_cases:
  assumes "procs S cur = Some pd"
    and "sys_clone P X F C tf cur tid flags stack ptid pchk ctid cchk tls S = (r, T)" "r \<noteq> Inl Panic"
  obtains (failed) "procs T = procs S" "aspaces T = aspaces S" "threads T = threads S" "r \<noteq> Inr tid"
    | (thread) td where "procs T = procs S" "aspaces T = aspaces S" "threads T = (threads S)(tid \<mapsto> td)" "td_process td = cur"
        "has_flag flags CLONE_THREAD"
    | (process) pd' td where "procs T = (procs S)(tid \<mapsto> pd')" "cloned_aspace C (has_flag flags CLONE_VM) pd pd' S T"
        "threads T = (threads S)(tid \<mapsto> td)" "td_process td = tid" "\<not> has_flag flags CLONE_THREAD"
proof -
  define fl where "fl = flags AND NOT 0xFF AND CloneFlags_all"
  define sig where "sig = sig_repr C (ucast (flags AND 0xFF))"
  define S0 where "S0 = (if has_flag fl CLONE_PARENT_SETTID then S\<lparr>tid_stores := tid_stores S @ [(ptid, tid)]\<rparr> else S)"
  have S0: "procs S0 = procs S" "threads S0 = threads S" "aspaces S0 = aspaces S" by (simp_all add: S0_def)
  have mask: "has_flag fl CLONE_VM = has_flag flags CLONE_VM" "has_flag fl CLONE_THREAD = has_flag flags CLONE_THREAD"
    unfolding fl_def by (rule clone_flag_mask)+
  obtain r1 S1 where cp: "clone_process P X F C fl sig cur tid S0 = (r1, S1)" by fastforce
  consider e where "r = Inl e" "procs T = procs S" "aspaces T = aspaces S" "threads T = threads S"
    | td where "has_flag fl CLONE_THREAD" "procs T = procs S0" "aspaces T = aspaces S0"
        "threads T = (threads S0)(tid \<mapsto> td)" "td_process td = cur"
    | "\<not> has_flag fl CLONE_THREAD" "\<exists>e. r1 = Inl e \<and> r = Inl e" "T = S1"
    | p td where "\<not> has_flag fl CLONE_THREAD" "r1 = Inr p" "procs T = procs S1" "aspaces T = aspaces S1"
        "threads T = (threads S1)(tid \<mapsto> td)" "td_process td = p"
    using assms(2) S0
    unfolding sys_clone_def Let_def fl_def [symmetric] sig_def [symmetric] S0_def [symmetric] sbind_pair cp
    by (cases r1) (auto simp: cp split: if_splits sum.splits)
  then show thesis
  proof cases
    case 1
    then show thesis using failed by simp
  next
    case 2
    then show thesis using thread S0 mask by metis
  next
    case 3
    then have "r1 \<noteq> Inl Panic" using assms(3) by auto
    from clone_process_cases [OF _ cp this, of pd] 3 assms(1) S0 show thesis using failed by auto
  next
    case 4
    from clone_process_cases [OF _ cp, of pd] 4(2) assms(1) S0 obtain pd' where
      "p = tid" "procs S1 = (procs S)(tid \<mapsto> pd')" "cloned_aspace C (has_flag fl CLONE_VM) pd pd' S0 S1" "threads S1 = threads S"
      by auto
    then show thesis
      using process [of pd' td] 4 mask S0 by (auto simp: cloned_aspace_def)
  qed
qed

section \<open>The invariant\<close>

definition vm_ok :: "bool \<Rightarrow> ('as \<Rightarrow> bool) \<Rightarrow> ('as, 't, 'act, 'w) kstate \<Rightarrow> bool" where
  "vm_ok share K S \<longleftrightarrow>
     (\<forall>p a. uses_aspace S p a \<longrightarrow> aspaces S a \<noteq> None) \<and>
     (\<forall>a. aspaces S a \<noteq> None \<longrightarrow> (\<exists>p. uses_aspace S p a)) \<and>
     (\<forall>t td. threads S t = Some td \<longrightarrow> procs S (td_process td) \<noteq> None) \<and>
     (\<not> share \<longrightarrow> (\<forall>p q a. uses_aspace S p a \<longrightarrow> uses_aspace S q a \<longrightarrow> p = q) \<and> (\<forall>a as. aspaces S a = Some as \<longrightarrow> K as))"

lemma uses_aspace_cong: "procs T = procs S \<Longrightarrow> uses_aspace T = uses_aspace S"
  by (simp add: uses_aspace_def fun_eq_iff)

lemma vm_ok_put:
  assumes "vm_ok share K S" "aspaces S a \<noteq> None" "\<And>as. \<not> share \<Longrightarrow> aspaces S a = Some as \<Longrightarrow> K as \<Longrightarrow> K as'"
    and "uses_aspace T = uses_aspace S" "dom (procs T) = dom (procs S)" "aspaces T = (aspaces S)(a \<mapsto> as')"
    and "\<And>t td. threads T t = Some td \<Longrightarrow> \<exists>td'. threads S t = Some td' \<and> td_process td' = td_process td"
  shows "vm_ok share K T"
proof -
  have "procs T p \<noteq> None \<longleftrightarrow> procs S p \<noteq> None" for p using assms(5) by (metis domIff)
  then have "\<forall>t td. threads T t = Some td \<longrightarrow> procs T (td_process td) \<noteq> None"
    using assms(1,7) unfolding vm_ok_def by metis
  then show ?thesis
    using assms(1-4,6) unfolding vm_ok_def by (auto split: if_splits)
qed

lemma vm_ok_new_process:
  assumes "vm_ok share K S" "procs S p = None" "aspaces S a = None" "\<not> share \<longrightarrow> K as"
    and "procs T = (procs S)(p \<mapsto> pd)" "pd_aspace pd = a" "aspaces T = (aspaces S)(a \<mapsto> as)"
    and "threads T = (threads S)(t \<mapsto> td)" "td_process td = p"
  shows "vm_ok share K T"
proof -
  have u: "uses_aspace T q b \<longleftrightarrow> (if q = p then b = a else uses_aspace S q b)" for q b
    using assms(5,6) by (auto simp: uses_aspace_def)
  have no: "\<not> uses_aspace S q a" "\<not> uses_aspace S p b" for q b
    using assms(1-3) unfolding vm_ok_def by (blast, simp add: uses_aspace_def)
  have thr: "\<forall>t td. threads T t = Some td \<longrightarrow> procs T (td_process td) \<noteq> None"
    using assms(1,5,8,9) by (auto simp: vm_ok_def split: if_splits)
  have live: "\<forall>q b. uses_aspace T q b \<longrightarrow> aspaces T b \<noteq> None"
    using assms(1) unfolding vm_ok_def u assms(7) by (auto split: if_splits)
  have ref: "\<forall>b. aspaces T b \<noteq> None \<longrightarrow> (\<exists>q. uses_aspace T q b)"
    using assms(1) no(2) unfolding vm_ok_def u assms(7) by (metis fun_upd_other)
  have one: "\<forall>q r b. uses_aspace T q b \<longrightarrow> uses_aspace T r b \<longrightarrow> q = r" if "\<not> share"
    using assms(1) no(1) that unfolding vm_ok_def u by metis
  have "\<forall>b as. aspaces T b = Some as \<longrightarrow> K as" if "\<not> share"
    using assms(1,4) that unfolding vm_ok_def assms(7) by auto
  with thr live ref one show ?thesis unfolding vm_ok_def by blast
qed

lemma drop_process_uses:
  assumes "procs S p = Some pd"
  shows "uses_aspace (drop_process C V p S) q b \<longleftrightarrow> q \<noteq> p \<and> uses_aspace S q b"
    "threads (drop_process C V p S) = threads S" "procs (drop_process C V p S) = (procs S)(p := None)"
    "aspaces (drop_process C V p S) = (aspaces S)(pd_aspace pd :=
       if \<exists>q. q \<noteq> p \<and> uses_aspace S q (pd_aspace pd) then map_option (process_data_drop C V) (aspaces S (pd_aspace pd)) else None)"
  using assms by (auto simp: drop_process_def uses_aspace_def Let_def)

lemma vm_ok_drop:
  assumes "vm_ok share K S" "\<forall>t td. threads S t = Some td \<longrightarrow> td_process td \<noteq> p"
  shows "vm_ok share K (drop_process C V p S)"
proof (cases "procs S p")
  case None
  then show ?thesis using assms(1) by (simp add: drop_process_def)
next
  case (Some pd)
  let ?T = "drop_process C V p S" and ?a = "pd_aspace pd"
  note d = drop_process_uses [OF Some, of C V]
  have p: "uses_aspace S p b \<longleftrightarrow> b = ?a" for b using Some by (auto simp: uses_aspace_def)
  have thr: "\<forall>t td. threads ?T t = Some td \<longrightarrow> procs ?T (td_process td) \<noteq> None"
    using assms d(2,3) by (auto simp: vm_ok_def)
  have live: "\<forall>q a. uses_aspace ?T q a \<longrightarrow> aspaces ?T a \<noteq> None"
    using assms(1) unfolding vm_ok_def d(1,4) by auto
  have ref: "\<forall>a. aspaces ?T a \<noteq> None \<longrightarrow> (\<exists>q. uses_aspace ?T q a)"
  proof (intro allI impI)
    fix b assume "aspaces ?T b \<noteq> None"
    then have b: "aspaces S b \<noteq> None" "b = ?a \<longrightarrow> (\<exists>q. q \<noteq> p \<and> uses_aspace S q b)"
      unfolding d(4) by (auto split: if_splits)
    obtain q where q: "uses_aspace S q b" using b(1) assms(1) unfolding vm_ok_def by blast
    have "\<exists>q. q \<noteq> p \<and> uses_aspace S q b" using b(2) q p [of b] by (cases "q = p") auto
    then show "\<exists>q. uses_aspace ?T q b" unfolding d(1) .
  qed
  have rest: "(\<forall>q r b. uses_aspace ?T q b \<longrightarrow> uses_aspace ?T r b \<longrightarrow> q = r) \<and> (\<forall>b as. aspaces ?T b = Some as \<longrightarrow> K as)"
    if "\<not> share"
  proof -
    have one: "\<And>q r b. uses_aspace S q b \<Longrightarrow> uses_aspace S r b \<Longrightarrow> q = r" and K: "\<And>b as. aspaces S b = Some as \<Longrightarrow> K as"
      using assms(1) that unfolding vm_ok_def by blast+
    have "\<not> (\<exists>q. q \<noteq> p \<and> uses_aspace S q ?a)" using one [of p ?a] p [of ?a] by blast
    then have "\<And>b as. aspaces ?T b = Some as \<Longrightarrow> aspaces S b = Some as" unfolding d(4) by (simp split: if_splits)
    then show ?thesis using one K unfolding d(1) by blast
  qed
  show ?thesis unfolding vm_ok_def using thr live ref rest by (intro conjI impI) simp_all
qed

lemma copy_from_kernel_maps: "kernel_maps V K \<Longrightarrow> copy_from_kernel (ve_clone V) as = Inr as' \<Longrightarrow> K as'"
  by (auto simp: kernel_maps_def copy_from_kernel_def split: if_splits)

lemma with_fresh_simps [simp]:
  "copy_from_kernel (with_fresh a f c g C) as = copy_from_kernel C as" "fresh_as (with_fresh a f c g C) = a"
  by (simp_all add: with_fresh_def copy_from_kernel_def)

lemma run_user_app_shape:
  assumes "run_user_app E P As M X F C B tid args envs S = Some (Inr p, T)"
  shows "\<exists>uspace q as. fresh_user_aspace P As C B = Inr uspace \<and>
    load_user_app E P As M (hd args) args envs uspace = Some (Inr q, as) \<and>
    procs T = (procs S)(tid \<mapsto> process_data_new P (hd args) (fresh_as C) (fresh_act C) (Some SIGCHLD) (fresh_fd C) (fresh_cwd C)) \<and>
    aspaces T = (aspaces S)(fresh_as C \<mapsto> as) \<and>
    threads T = (threads S)(tid \<mapsto> \<lparr>td_process = tid, td_clear_child_tid = 0, td_set_child_tid = None,
      td_uctx = uspace_new B (fst q) (snd q) 2333\<rparr>)"
proof (cases "fresh_user_aspace P As C B")
  case (Inr uspace)
  obtain path rest where args: "args = path # rest" using assms Inr by (cases args) (auto simp: run_user_app_def)
  define d0 where "d0 = (case rsplit_once (CHR ''/'') path of None \<Rightarrow> '''' | Some (dir, name) \<Rightarrow> dir)"
  have eq: "run_user_app E P As M X F C B tid args envs S = (case enter_dir B d0 of Inl e \<Rightarrow> Some (Inl Panic, S)
    | Inr dir \<Rightarrow> run_user_app E P As M X F C B tid args envs S)"
    using Inr args by (auto simp: run_user_app_def d0_def split: sum.splits)
  then obtain dir where dir: "enter_dir B d0 = Inr dir" using assms by (cases "enter_dir B d0") auto
  show ?thesis
  proof (cases "load_user_app E P As M path args envs uspace")
    case None
    then show ?thesis using assms Inr args dir by (simp add: run_user_app_def Let_def flip: d0_def)
  next
    case (Some ra)
    obtain q as where ra: "ra = (q, as)" by fastforce
    show ?thesis
    proof (cases q)
      case (Inl e)
      then show ?thesis using assms \<open>_ = Inr uspace\<close> args dir Some ra by (simp add: run_user_app_def Let_def flip: d0_def)
    next
      case q: (Inr vs)
      then show ?thesis
        using assms Inr args dir Some ra
        by (cases vs) (auto simp: run_user_app_def Let_def split: sum.splits option.splits simp flip: d0_def)
    qed
  qed
qed (use assms in \<open>simp add: run_user_app_def\<close>)

lemma run_user_app_aspace:
  assumes "keeps_kernel V K" "kernel_maps V K"
    and "run_user_app E P (ve_as V) M X F (with_fresh a f c g (ve_clone V)) B tid args envs S = Some (Inr p, T)"
  shows "\<exists>pd td as. procs T = (procs S)(tid \<mapsto> pd) \<and> pd_aspace pd = a \<and> aspaces T = (aspaces S)(a \<mapsto> as) \<and>
    threads T = (threads S)(tid \<mapsto> td) \<and> td_process td = tid \<and> K as"
proof -
  let ?C = "with_fresh a f c g (ve_clone V)"
  have fresh: "K as" if f: "fresh_user_aspace P (ve_as V) ?C B = Inr as" for as
  proof -
    obtain as0 as1 where a: "copy_from_kernel (ve_clone V) as0 = Inr as1"
      "(case map_trampoline P (ve_as V) (trampoline B) as1 of (r, as) \<Rightarrow> rbind r (\<lambda>_. Inr as)) = Inr as"
      using f unfolding fresh_user_aspace_def rbind_eq_Inr from_ax_Inr with_fresh_simps by blast
    obtain r as2 where m: "map_trampoline P (ve_as V) (trampoline B) as1 = (r, as2)" by fastforce
    with a(2) have "as2 = as" by (cases r) simp_all
    with m show ?thesis
      using keeps_kernelD(1) [OF assms(1) copy_from_kernel_maps [OF assms(2) a(1)]]
      by (auto simp: map_trampoline_def Let_def split: prod.splits)
  qed
  obtain uspace q as pd td where q: "fresh_user_aspace P (ve_as V) ?C B = Inr uspace"
    "load_user_app E P (ve_as V) M (hd args) args envs uspace = Some (Inr q, as)"
    "procs T = (procs S)(tid \<mapsto> pd)" "pd_aspace pd = a" "aspaces T = (aspaces S)(a \<mapsto> as)"
    "threads T = (threads S)(tid \<mapsto> td)" "td_process td = tid"
    using run_user_app_shape [OF assms(3)] by (auto simp: process_data_new_def)
  have "K as" using load_user_app_keeps [OF assms(1) fresh [OF q(1)] q(2)] by simp
  with q show ?thesis by blast
qed

lemma thread_aspaceD:
  assumes "thread_aspace S tid = Some (a, as)"
  shows "\<exists>td pd. threads S tid = Some td \<and> procs S (td_process td) = Some pd \<and> pd_aspace pd = a \<and> aspaces S a = Some as"
  using assms by (auto simp: thread_aspace_def split: option.splits)

lemma vm_ok_call:
  assumes "vm_ok share K S" "thread_aspace S tid = Some (a, as)" "K as \<Longrightarrow> K as'"
  shows "vm_ok share K (put_aspace a as' S)"
  using thread_aspaceD [OF assms(2)] assms(3)
  by (intro vm_ok_put [OF assms(1), of a as']) (auto simp: put_aspace_def intro!: uses_aspace_cong)

lemma vm_ok_clone:
  assumes "vm_ok share K S" "kernel_maps V K" "threads S tid = Some td" "threads S child = None" "procs S child = None" "aspaces S a = None"
    and "share \<or> \<not> has_flag flags CLONE_VM \<or> has_flag flags CLONE_THREAD"
    and "sys_clone P X F (with_fresh a f c g (ve_clone V)) tf (td_process td) child flags stack ptid pchk ctid cchk tls S = (rc, T)"
    and "rc \<noteq> Inl Panic"
  shows "vm_ok share K T"
proof -
  obtain pd where pd: "procs S (td_process td) = Some pd" using assms(1,3) unfolding vm_ok_def by blast
  show ?thesis
  proof (rule sys_clone_cases [OF pd assms(8,9)])
    assume "procs T = procs S" "aspaces T = aspaces S" "threads T = threads S"
    then show ?thesis using assms(1) uses_aspace_cong [of T S] by (simp add: vm_ok_def)
  next
    fix td' assume "procs T = procs S" "aspaces T = aspaces S" "threads T = (threads S)(child \<mapsto> td')" "td_process td' = td_process td"
    then show ?thesis using assms(1) pd uses_aspace_cong [of T S] by (auto simp: vm_ok_def)
  next
    fix pd' td' assume T: "procs T = (procs S)(child \<mapsto> pd')" "threads T = (threads S)(child \<mapsto> td')" "td_process td' = child"
      and c: "cloned_aspace (with_fresh a f c g (ve_clone V)) (has_flag flags CLONE_VM) pd pd' S T" and "\<not> has_flag flags CLONE_THREAD"
    show ?thesis
    proof (cases "has_flag flags CLONE_VM")
      case False
      with c obtain as1 as2 where "copy_from_kernel (ve_clone V) as1 = Inr as2" "pd_aspace pd' = a" "aspaces T = (aspaces S)(a \<mapsto> as2)"
        by (auto simp: cloned_aspace_def)
      then show ?thesis
        using vm_ok_new_process [OF assms(1,5,6) _ T(1) _ _ T(2,3)] copy_from_kernel_maps [OF assms(2)] by blast
    next
      case True
      then have sh: "share" and a': "pd_aspace pd' = pd_aspace pd" "aspaces T = aspaces S"
        using assms(7) \<open>\<not> has_flag flags CLONE_THREAD\<close> c by (auto simp: cloned_aspace_def)
      have u: "uses_aspace T q b \<longleftrightarrow> (if q = child then b = pd_aspace pd else uses_aspace S q b)" for q b
        using T(1) a'(1) by (auto simp: uses_aspace_def)
      have up: "uses_aspace S (td_process td) (pd_aspace pd)" "td_process td \<noteq> child" using pd assms(5) by (auto simp: uses_aspace_def)
      have no: "\<not> uses_aspace S child b" for b using assms(5) by (simp add: uses_aspace_def)
      have "\<forall>q b. uses_aspace T q b \<longrightarrow> aspaces T b \<noteq> None"
        using assms(1) up(1) unfolding vm_ok_def u a'(2) by (auto split: if_splits)
      moreover have "\<forall>b. aspaces T b \<noteq> None \<longrightarrow> (\<exists>q. uses_aspace T q b)"
        using assms(1) no unfolding vm_ok_def u a'(2) by metis
      moreover have "\<forall>t td. threads T t = Some td \<longrightarrow> procs T (td_process td) \<noteq> None"
        using assms(1) T by (auto simp: vm_ok_def split: if_splits)
      ultimately show ?thesis using sh by (simp add: vm_ok_def)
    qed
  qed
qed

lemma exec_thread_cases:
  assumes "exec_thread V path argv envp tid S = Some (r, T)"
  obtains "T = S" "r = Inl Panic"
    | td pd as x where "threads S tid = Some td" "procs S (td_process td) = Some pd" "aspaces S (pd_aspace pd) = Some as"
        "sys_execve (ve_loader V) (ve_plat V) (ve_as V) (ve_unmap_all V) (ve_align V) (ve_tramp V)
           path argv envp (thread_count S (td_process td))
           \<lparr>x_aspace = as, x_name = '''', x_exe_path = pd_exe pd, x_ip = u_ip (td_uctx td), x_sp = u_sp (td_uctx td)\<rparr> = Some (r, x)"
        "T = S\<lparr>aspaces := (aspaces S)(pd_aspace pd \<mapsto> x_aspace x),
            procs := (procs S)(td_process td \<mapsto> pd\<lparr>pd_exe := x_exe_path x\<rparr>),
            threads := (threads S)(tid \<mapsto> td\<lparr>td_uctx := (td_uctx td)\<lparr>u_ip := x_ip x, u_sp := x_sp x\<rparr>\<rparr>)\<rparr>"
proof (cases "thread_aspace S tid")
  case None
  then have "T = S" "r = Inl Panic" using assms by (auto simp: exec_thread_def thread_aspace_def split: option.splits)
  then show thesis by (rule that(1))
next
  case (Some aas)
  obtain a as where aas: "aas = (a, as)" by fastforce
  obtain td pd where t: "threads S tid = Some td" "procs S (td_process td) = Some pd" "pd_aspace pd = a" "aspaces S a = Some as"
    using thread_aspaceD [of S tid a as] Some aas by auto
  obtain x where "sys_execve (ve_loader V) (ve_plat V) (ve_as V) (ve_unmap_all V) (ve_align V) (ve_tramp V)
      path argv envp (thread_count S (td_process td))
      \<lparr>x_aspace = as, x_name = '''', x_exe_path = pd_exe pd, x_ip = u_ip (td_uctx td), x_sp = u_sp (td_uctx td)\<rparr> = Some (r, x)"
    "T = S\<lparr>aspaces := (aspaces S)(a \<mapsto> x_aspace x),
            procs := (procs S)(td_process td \<mapsto> pd\<lparr>pd_exe := x_exe_path x\<rparr>),
            threads := (threads S)(tid \<mapsto> td\<lparr>td_uctx := (td_uctx td)\<lparr>u_ip := x_ip x, u_sp := x_sp x\<rparr>\<rparr>)\<rparr>"
    using assms t unfolding exec_thread_def by auto
  then show thesis using that(2) [OF t(1,2)] t(3,4) by simp
qed

lemma vm_ok_exec:
  assumes "vm_ok share K S" "keeps_kernel V K" "exec_thread V path argv envp tid S = Some (r, T)"
  shows "vm_ok share K T"
proof (rule exec_thread_cases [OF assms(3)])
  fix td pd as x
  assume t: "threads S tid = Some td" "procs S (td_process td) = Some pd" "aspaces S (pd_aspace pd) = Some as"
    and x: "sys_execve (ve_loader V) (ve_plat V) (ve_as V) (ve_unmap_all V) (ve_align V) (ve_tramp V)
        path argv envp (thread_count S (td_process td))
        \<lparr>x_aspace = as, x_name = '''', x_exe_path = pd_exe pd, x_ip = u_ip (td_uctx td), x_sp = u_sp (td_uctx td)\<rparr> = Some (r, x)"
    and T: "T = S\<lparr>aspaces := (aspaces S)(pd_aspace pd \<mapsto> x_aspace x),
            procs := (procs S)(td_process td \<mapsto> pd\<lparr>pd_exe := x_exe_path x\<rparr>),
            threads := (threads S)(tid \<mapsto> td\<lparr>td_uctx := (td_uctx td)\<lparr>u_ip := x_ip x, u_sp := x_sp x\<rparr>\<rparr>)\<rparr>"
  have "K (x_aspace x)" if "K as" by (rule execve_keeps [OF assms(2) _ x]) (use that in simp)
  moreover have "uses_aspace T = uses_aspace S" using t T by (auto simp: uses_aspace_def fun_eq_iff)
  ultimately show ?thesis
    using t T by (intro vm_ok_put [OF assms(1), of "pd_aspace pd" "x_aspace x"]) (auto split: if_splits)
qed (use assms(1) in simp)

lemma vm_step_ok:
  assumes "vm_step V share S T" "keeps_kernel V K" "kernel_maps V K" "vm_ok share K S"
  shows "vm_ok share K T"
  using assms(1)
proof cases
  case (vm_start tid a f c g args envs p)
  obtain pd td as where "procs T = (procs S)(tid \<mapsto> pd)" "pd_aspace pd = a" "aspaces T = (aspaces S)(a \<mapsto> as)"
    "threads T = (threads S)(tid \<mapsto> td)" "td_process td = tid" "K as"
    using run_user_app_aspace [OF assms(2,3) vm_start(4)] by blast
  then show ?thesis using vm_ok_new_process [OF assms(4) vm_start(1,3)] by blast
next
  case (vm_mmap tid a as ff addr len prot flags fd off r as')
  have "K as \<Longrightarrow> K as'" using mmap_keeps [OF assms(2), of as "ve_file V" ff addr len prot flags fd off] vm_mmap(3) by simp
  then show ?thesis unfolding vm_mmap(1) by (rule vm_ok_call [OF assms(4) vm_mmap(2)])
next
  case (vm_munmap tid a as addr len r as')
  show ?thesis unfolding vm_munmap(1)
    by (rule vm_ok_call [OF assms(4) vm_munmap(2)]) (rule munmap_keeps [OF assms(2) _ vm_munmap(3)])
next
  case (vm_mprotect tid a as addr len prot r as')
  show ?thesis unfolding vm_mprotect(1)
    by (rule vm_ok_call [OF assms(4) vm_mprotect(2)]) (rule mprotect_keeps [OF assms(2) _ vm_mprotect(3)])
next
  case (vm_brk tid td pd addr r h)
  have "uses_aspace T = uses_aspace S" using vm_brk by (auto simp: uses_aspace_def fun_eq_iff)
  then show ?thesis using assms(4) vm_brk by (auto simp: vm_ok_def)
next
  case (vm_execve path argv envp tid r)
  then show ?thesis using vm_ok_exec [OF assms(4,2)] by blast
next
  case (vm_clone tid td child a flags f c g tf stack ptid pchk ctid cchk tls rc)
  then show ?thesis using vm_ok_clone [OF assms(4,3)] by blast
next
  case (vm_exit tid td)
  then show ?thesis using assms(4) uses_aspace_cong [of T S] by (auto simp: vm_ok_def split: if_splits)
next
  case (vm_reap p)
  then show ?thesis using vm_ok_drop [OF assms(4)] by blast
qed

section \<open>Properties\<close>

text \<open>The kernel before the first program.\<close>

definition vm_idle :: "('as, 't, 'act, 'w) kstate \<Rightarrow> bool" where
  "vm_idle S \<longleftrightarrow> procs S = Map.empty \<and> threads S = Map.empty \<and> aspaces S = Map.empty"

lemma vm_reach_ok:
  assumes "keeps_kernel V K" "kernel_maps V K" "vm_idle S0" "(vm_step V share)\<^sup>*\<^sup>* S0 S"
  shows "vm_ok share K S"
  using assms(4)
proof (induction rule: rtranclp_induct)
  case base
  show ?case using assms(3) by (simp add: vm_idle_def vm_ok_def uses_aspace_def)
next
  case (step S T)
  then show ?case using vm_step_ok [OF _ assms(1,2)] by blast
qed

text \<open>C3. Memory of processes, in every state that starting programs, cloning, replacing programs, memory calls,
  exiting and reaping can reach in any order: an address space exists exactly while a process refers to
  it, and every thread has one. As long as nobody creates a process with CLONE_VM, no two processes refer
  to the same address space and every address space has the kernel's mappings, so the kernel stays
  reachable whichever process runs.\<close>

theorem address_spaces_kept:
  assumes "keeps_kernel V K" and "kernel_maps V K" and "vm_idle S0" and "(vm_step V share)\<^sup>*\<^sup>* S0 S"
  shows "(aspaces S a \<noteq> None \<longleftrightarrow> (\<exists>p pd. procs S p = Some pd \<and> pd_aspace pd = a)) \<and>
    (threads S tid \<noteq> None \<longrightarrow> thread_aspace S tid \<noteq> None) \<and>
    (\<not> share \<longrightarrow>
       (\<forall>p q pd qd. procs S p = Some pd \<longrightarrow> procs S q = Some qd \<longrightarrow> pd_aspace pd = pd_aspace qd \<longrightarrow> p = q) \<and>
       (\<forall>as. aspaces S a = Some as \<longrightarrow> K as))"
proof -
  have ok: "vm_ok share K S" by (rule vm_reach_ok [OF assms])
  have u: "uses_aspace S p b \<longleftrightarrow> (\<exists>pd. procs S p = Some pd \<and> pd_aspace pd = b)" for p b by (auto simp: uses_aspace_def)
  have "aspaces S a \<noteq> None \<longleftrightarrow> (\<exists>p pd. procs S p = Some pd \<and> pd_aspace pd = a)"
    using ok unfolding vm_ok_def u by blast
  moreover have "thread_aspace S tid \<noteq> None" if t: "threads S tid \<noteq> None"
  proof -
    obtain td pd where "threads S tid = Some td" "procs S (td_process td) = Some pd"
      using t ok unfolding vm_ok_def by blast
    moreover from this have "aspaces S (pd_aspace pd) \<noteq> None" using ok unfolding vm_ok_def u by blast
    ultimately show ?thesis by (auto simp: thread_aspace_def)
  qed
  moreover have "(\<forall>p q pd qd. procs S p = Some pd \<longrightarrow> procs S q = Some qd \<longrightarrow> pd_aspace pd = pd_aspace qd \<longrightarrow> p = q) \<and>
       (\<forall>as. aspaces S a = Some as \<longrightarrow> K as)" if "\<not> share"
    using ok that unfolding vm_ok_def u by blast
  ultimately show ?thesis by blast
qed

text \<open>C38. A child that was created as a process of its own ends and is reaped. Without CLONE_VM the memory of the
  thread that created it is as it was. With CLONE_VM, the drop of the child's data takes the kernel's
  mappings out of the address space that the creator still runs in, on every architecture whose kernel has
  no page tables of its own.\<close>

theorem reaped_child_and_memory:
  assumes "kernel_maps V K" and "\<not> separate_tables (ve_clone V)"
    and "threads S tid = Some td" and "thread_aspace S tid = Some (a, as)"
    and "threads S child = None" and "procs S child = None" and "aspaces S (fresh_as (ve_clone V)) = None"
    and "\<not> has_flag flags CLONE_THREAD"
    and "sys_clone (ve_plat V) (ve_tree V) (ve_fds V) (ve_clone V) tf (td_process td) child flags stack ptid pchk ctid cchk tls S = (Inr child, T)"
  shows "let U = drop_process (ve_clone V) (ve_kernel V) child (T\<lparr>threads := (threads T)(child := None)\<rparr>) in
    threads U = threads S \<and> procs U = procs S \<and>
    (if has_flag flags CLONE_VM then \<exists>as'. thread_aspace U tid = Some (a, as') \<and> \<not> K as'
     else thread_aspace U tid = Some (a, as))"
proof -
  let ?C = "ve_clone V" let ?T = "T\<lparr>threads := (threads T)(child := None)\<rparr>"
  let ?U = "drop_process ?C (ve_kernel V) child ?T"
  obtain pd where pd: "procs S (td_process td) = Some pd" "pd_aspace pd = a" "aspaces S a = Some as"
    using thread_aspaceD [OF assms(4)] assms(3) by auto
  obtain pd' td' where T: "procs T = (procs S)(child \<mapsto> pd')" "cloned_aspace ?C (has_flag flags CLONE_VM) pd pd' S T"
      "threads T = (threads S)(child \<mapsto> td')"
    using sys_clone_cases [OF pd(1) assms(9)] assms(8) by (metis Inr_not_Inl)
  have "procs ?T child = Some pd'" using T(1) by simp
  note d = drop_process_uses [OF this, of ?C "ve_kernel V"]
  have same: "threads ?U = threads S" "procs ?U = procs S"
    using d(2,3) T(1,3) assms(5,6) by (simp_all add: fun_upd_idem)
  have ch: "td_process td \<noteq> child" using pd(1) assms(6) by auto
  have "aspaces ?U a = Some (if has_flag flags CLONE_VM then process_data_drop ?C (ve_kernel V) as else as)"
  proof (cases "has_flag flags CLONE_VM")
    case True
    then have e: "pd_aspace pd' = a" "aspaces T = aspaces S" using T(2) pd(2) by (auto simp: cloned_aspace_def)
    have "uses_aspace ?T (td_process td) a" using pd T(1) ch by (simp add: uses_aspace_def)
    with d(4) e ch pd(3) True show ?thesis by auto
  next
    case False
    then obtain as2 where "pd_aspace pd' = fresh_as ?C" "aspaces T = (aspaces S)(fresh_as ?C \<mapsto> as2)"
      using T(2) by (auto simp: cloned_aspace_def)
    then show ?thesis using d(4) pd(3) assms(7) False by auto
  qed
  then have "thread_aspace ?U tid = Some (a, if has_flag flags CLONE_VM then process_data_drop ?C (ve_kernel V) as else as)"
    using same pd assms(3) by (simp add: thread_aspace_def)
  moreover have "\<not> K (process_data_drop ?C (ve_kernel V) as)" using assms(1,2) by (simp add: kernel_maps_def process_data_drop_def)
  ultimately show ?thesis using same by (simp add: Let_def)
qed

text \<open>C39. What a successful \<open>execve\<close> of one thread does to the memory of a thread of another process: nothing when
  they have different address spaces. When they share one (CLONE_VM), the other thread is left where it
  was, in an address space whose user areas were unmapped and that holds the new program.\<close>

theorem execve_and_other_memory:
  assumes "exec_thread V path argv envp tid S = Some (Inr v, T)"
    and "thread_aspace S tid = Some (a, as)" and "thread_aspace S other = Some (b, bs)"
    and "threads S tid = Some td" and "threads S other = Some td'" and "td_process td' \<noteq> td_process td"
  shows "threads T other = Some td' \<and>
    (if b = a then \<exists>as1 as2 q p args envs as'. ve_unmap_all V as = (Inr (), as1) \<and>
         map_trampoline (ve_plat V) (ve_as V) (ve_tramp V) as1 = (Inr (), as2) \<and>
         load_user_app (ve_loader V) (ve_plat V) (ve_as V) (ve_align V) p args envs as2 = Some (Inr q, as') \<and>
         thread_aspace T other = Some (a, as')
     else thread_aspace T other = Some (b, bs))"
proof -
  obtain pd where pd: "procs S (td_process td) = Some pd" "pd_aspace pd = a" "aspaces S a = Some as"
    using thread_aspaceD [OF assms(2)] assms(4) by auto
  obtain pd' where pd': "procs S (td_process td') = Some pd'" "pd_aspace pd' = b" "aspaces S b = Some bs"
    using thread_aspaceD [OF assms(3)] assms(5) by auto
  define X where "X = \<lparr>x_aspace = as, x_name = '''', x_exe_path = pd_exe pd, x_ip = u_ip (td_uctx td), x_sp = u_sp (td_uctx td)\<rparr>"
  obtain x where x: "sys_execve (ve_loader V) (ve_plat V) (ve_as V) (ve_unmap_all V) (ve_align V) (ve_tramp V)
      path argv envp (thread_count S (td_process td)) X = Some (Inr v, x)"
    and T: "T = S\<lparr>aspaces := (aspaces S)(a \<mapsto> x_aspace x),
            procs := (procs S)(td_process td \<mapsto> pd\<lparr>pd_exe := x_exe_path x\<rparr>),
            threads := (threads S)(tid \<mapsto> td\<lparr>td_uctx := (td_uctx td)\<lparr>u_ip := x_ip x, u_sp := x_sp x\<rparr>\<rparr>)\<rparr>"
    using assms(1,4) pd by (auto simp: exec_thread_def X_def)
  have ne: "other \<noteq> tid" using assms(4-6) by auto
  have o: "thread_aspace T other = Some (b, if b = a then x_aspace x else bs)"
    using T ne assms(5,6) pd' pd(3) by (simp add: thread_aspace_def)
  obtain q1 as1 where u: "ve_unmap_all V as = (q1, as1)" by fastforce
  obtain q2 as2 where m: "map_trampoline (ve_plat V) (ve_as V) (ve_tramp V) as1 = (q2, as2)" by fastforce
  have "\<exists>q p args envs. q1 = Inr () \<and> q2 = Inr () \<and>
      load_user_app (ve_loader V) (ve_plat V) (ve_as V) (ve_align V) p args envs as2 = Some (Inr q, x_aspace x)"
    using x u m
    by (auto simp: sys_execve_def X_def Let_def sbind_pair from_ax_Inr split: sum.splits option.splits prod.splits) blast
  then show ?thesis using T ne assms(5) o u m by auto
qed

section \<open>An instance\<close>

text \<open>Address spaces as lists of pages in which page 0 stands for the kernel's mappings.\<close>

definition page_ops :: "usize list aspace_ops" where
  "page_ops =
     \<lparr>as_base = (\<lambda>_. 0x1000), as_end = (\<lambda>_. 0x4000000000), contains_range = (\<lambda>_ _ _. False),
      find_free_area = (\<lambda>_ hint _ _ _. Some (if hint = 0 then 0x1000 else hint)),
      map_linear = (\<lambda>as v _ _ _ _. (Inr (), v # as)), map_alloc = (\<lambda>as v _ _ _ _. (Inr (), v # as)),
      as_unmap = (\<lambda>as v _. (Inr (), filter (\<lambda>w. w = 0 \<or> w \<noteq> v) as)), as_protect = (\<lambda>as _ _ _. (Inr (), as)),
      as_write = (\<lambda>as _ _ _. (Inr (), as)), check_region_access = (\<lambda>_ _ _ _. True),
      populate_area = (\<lambda>as _ _ _. (Inr (), as))\<rparr>"

definition page_vm :: "(unit, usize list, unit, nat \<rightharpoonup> arc, signo \<rightharpoonup> usize, pid \<Rightarrow> pid) vm_env" where
  "page_vm =
     \<lparr>ve_loader = demo_env, ve_plat = riscv64, ve_as = page_ops, ve_unmap_all = (\<lambda>as. (Inr (), filter (\<lambda>w. w = 0) as)),
      ve_align = div_align, ve_tramp = 0, ve_file = \<lparr>mf_size = (\<lambda>_. Inr 0), mf_read_at = (\<lambda>_ _ _. Inr [])\<rparr>,
      ve_tree = flat_tree, ve_fds = map_objects, ve_clone = list_env,
      ve_boot = \<lparr>new_empty = (\<lambda>_ _. Inr []), user_space_base = 0x1000, user_space_size = 0x3ffffff000, trampoline = 0,
        enter_dir = (\<lambda>d. Inr d), uspace_new = (\<lambda>ip sp _. \<lparr>u_ip = ip, u_sp = sp, u_tls = 0, u_retval = 0\<rparr>),
        kernel_fds = 2, kernel_cwd = 3, init_pid = 1\<rparr>,
      ve_kernel = \<lparr>kv_base = 0, kv_size = 1, clear_mappings = (\<lambda>as _ _. filter (\<lambda>w. w \<noteq> 0) as)\<rparr>\<rparr>"

lemma page_vm_spec:
  "keeps_kernel page_vm (\<lambda>as. 0 \<in> set as)" "kernel_maps page_vm (\<lambda>as. 0 \<in> set as)"
  by (auto simp: keeps_kernel_def kernel_maps_def page_vm_def page_ops_def list_env_def)

definition page_idle :: "(usize list, nat \<rightharpoonup> arc, signo \<rightharpoonup> usize, pid \<Rightarrow> pid) kstate" where
  "page_idle = one_parent\<lparr>procs := Map.empty, threads := Map.empty, aspaces := Map.empty\<rparr>"

theorem address_spaces_kept_witness:
  "\<exists>S as. (vm_step page_vm False)\<^sup>*\<^sup>* page_idle S \<and> threads S 8 \<noteq> None \<and> thread_aspace S 8 = Some (10, as) \<and> 0 \<in> set as"
proof -
  let ?C = "with_fresh 10 11 12 13 list_env"
  have load: "load_user_app demo_env riscv64 page_ops div_align ''/bin/a'' [''/bin/a''] [] [0x40010000, 0] =
      Some (Inr (0x1000, 0x3FFFFFFFE), [0x40000000, 0x3FFFF0000, 0x40010000, 0])"
    by (subst load_user_app.simps)
      (simp add: demo_env_def image_step_def shebang_args_def has_shebang_def interp_args_def load_image_def
        map_elf_def riscv64_def page_ops_def)
  have fresh: "fresh_user_aspace riscv64 page_ops ?C (ve_boot page_vm) = Inr [0x40010000, 0]"
    by (simp add: fresh_user_aspace_def new_user_aspace_empty_def page_vm_def list_env_def with_fresh_def copy_from_kernel_def
        map_trampoline_def page_ops_def riscv64_def)
  have "map_objects_wf [0 \<mapsto> 42 :: arc]" by (simp add: map_objects_wf_def)
  then obtain t' where t': "copy_inner map_objects [0 \<mapsto> 42 :: arc] = Inr t'" using copy_inner_spec [OF map_objects_spec] by blast
  obtain T where T: "run_user_app (ve_loader page_vm) (ve_plat page_vm) (ve_as page_vm) (ve_align page_vm) (ve_tree page_vm)
      (ve_fds page_vm) (with_fresh 10 11 12 13 (ve_clone page_vm)) (ve_boot page_vm) 8 [''/bin/a''] [] page_idle = Some (Inr 8, T)"
    using fresh load t' by (simp add: run_user_app_def page_vm_def page_idle_def one_parent_def Let_def)
  have st: "vm_step page_vm False page_idle T"
    by (rule vm_start [OF _ _ _ T]) (simp_all add: page_idle_def)
  then have reach: "(vm_step page_vm False)\<^sup>*\<^sup>* page_idle T" by blast
  have idle: "vm_idle page_idle" by (simp add: vm_idle_def page_idle_def)
  have "threads T 8 \<noteq> None" using run_user_app_shape [OF T] by auto
  moreover obtain as where "thread_aspace T 8 = Some (10, as)" "aspaces T 10 = Some as"
    using run_user_app_shape [OF T] by (auto simp: thread_aspace_def process_data_new_def page_vm_def with_fresh_def)
  ultimately show ?thesis
    using address_spaces_kept [OF page_vm_spec idle reach, of 10 8] reach by auto
qed

text \<open>A process 7 with one thread, the address space 1 and the kernel's mappings.\<close>

definition page_parent :: "(usize list, nat \<rightharpoonup> arc, signo \<rightharpoonup> usize, pid \<Rightarrow> pid) kstate" where
  "page_parent = one_parent\<lparr>aspaces := [1 \<mapsto> [0x1000, 0]],
     threads := [7 \<mapsto> \<lparr>td_process = 7, td_clear_child_tid = 0, td_set_child_tid = None,
       td_uctx = \<lparr>u_ip = 0x1000, u_sp = 0x2000, u_tls = 0, u_retval = 0\<rparr>\<rparr>]\<rparr>"

text \<open>\<open>clone\<close> with CLONE_VM, CLONE_FILES and SIGCHLD.\<close>

theorem reaped_child_and_memory_witness:
  "\<exists>T as'. sys_clone riscv64 flat_tree map_objects list_env \<lparr>u_ip = 0x1000, u_sp = 0x2000, u_tls = 0, u_retval = 0\<rparr>
       7 8 0x511 0 0 (Inr ()) 0 (Inr ()) 0 page_parent = (Inr 8, T) \<and>
     thread_aspace (drop_process list_env (ve_kernel page_vm) 8 (T\<lparr>threads := (threads T)(8 := None)\<rparr>)) 7 = Some (1, as') \<and>
     0 \<notin> set as'"
proof -
  let ?tf = "\<lparr>u_ip = 0x1000, u_sp = 0x2000, u_tls = 0, u_retval = 0\<rparr>"
  have fl: "(0x511 :: u32) AND - 256 AND CloneFlags_all = 0x500" "(0x511 :: u32) AND 0xFF = 17"
    "has_flag 0x500 CLONE_VM" "has_flag 0x500 CLONE_FILES" "\<not> has_flag 0x500 CLONE_THREAD" "\<not> has_flag 0x500 (CLONE_THREAD OR CLONE_PARENT)"
    "\<not> has_flag 0x500 CLONE_PARENT" "\<not> has_flag 0x500 CLONE_SETTLS" "\<not> has_flag 0x500 CLONE_CHILD_SETTID"
    "\<not> has_flag 0x500 CLONE_PARENT_SETTID" "\<not> has_flag 0x500 CLONE_CHILD_CLEARTID" "\<not> has_flag 0x500 CLONE_FS"
    "\<not> has_flag 0x500 CLONE_SIGHAND" "has_flag 0x511 CLONE_VM" "\<not> has_flag 0x511 CLONE_THREAD"
    by (simp_all add: CloneFlags_all_def has_flag_def CLONE_VM_def CLONE_FS_def CLONE_FILES_def CLONE_SIGHAND_def
        CLONE_PARENT_def CLONE_THREAD_def CLONE_SETTLS_def CLONE_CHILD_SETTID_def CLONE_PARENT_SETTID_def CLONE_CHILD_CLEARTID_def)
  obtain T where T: "sys_clone riscv64 flat_tree map_objects list_env ?tf 7 8 0x511 0 0 (Inr ()) 0 (Inr ()) 0 page_parent = (Inr 8, T)"
    by (simp add: sys_clone_def fl clone_process_def clone_aspace_def clone_actions_def clone_fds_def clone_cwd_def
        page_parent_def one_parent_def Let_def)
  have "thread_aspace page_parent 7 = Some (1, [0x1000, 0])"
    by (simp add: thread_aspace_def page_parent_def one_parent_def)
  from reaped_child_and_memory [OF page_vm_spec(2) _ _ this, where child = 8 and flags = "0x511" and tf = ?tf and stack = 0 and ptid = 0
      and pchk = "Inr ()" and ctid = 0 and cchk = "Inr ()" and tls = 0 and T = T] T fl
  show ?thesis by (auto simp: Let_def page_vm_def list_env_def page_parent_def one_parent_def)
qed

text \<open>Processes 7 and 8 share the address space 1, and the only thread of 8 replaces its program.\<close>

definition page_pair :: "(usize list, nat \<rightharpoonup> arc, signo \<rightharpoonup> usize, pid \<Rightarrow> pid) kstate" where
  "page_pair = page_parent\<lparr>procs := (procs page_parent)(8 := procs page_parent 7),
       threads := (threads page_parent)(8 \<mapsto> \<lparr>td_process = 8, td_clear_child_tid = 0, td_set_child_tid = None,
         td_uctx = \<lparr>u_ip = 0x1000, u_sp = 0x2000, u_tls = 0, u_retval = 0\<rparr>\<rparr>)\<rparr>"

theorem execve_and_other_memory_witness:
  "\<exists>T as'. exec_thread page_vm (Inr ''/bin/a'') (Inr [''a'']) (Inr []) 8 page_pair = Some (Inr 0, T) \<and>
     threads T 7 = threads page_pair 7 \<and> thread_aspace page_pair 7 = Some (1, [0x1000, 0]) \<and>
     thread_aspace T 7 = Some (1, as') \<and> 0x1000 \<notin> set as'"
proof -
  have load: "load_user_app demo_env riscv64 page_ops div_align ''/bin/a'' [''a''] [] [0x40010000, 0] =
      Some (Inr (0x1000, 0x3FFFFFFFE), [0x40000000, 0x3FFFF0000, 0x40010000, 0])"
    by (subst load_user_app.simps)
      (simp add: demo_env_def image_step_def shebang_args_def has_shebang_def interp_args_def load_image_def
        map_elf_def riscv64_def page_ops_def)
  have "{t. map_option td_process (threads page_pair t) = Some 8} = {8}"
    by (auto simp: page_pair_def page_parent_def split: if_splits)
  then have n: "thread_count page_pair 8 = 1" by (simp add: thread_count_def)
  obtain T where T: "exec_thread page_vm (Inr ''/bin/a'') (Inr [''a'']) (Inr []) 8 page_pair = Some (Inr 0, T)"
      "thread_aspace T 7 = Some (1, [0x40000000, 0x3FFFF0000, 0x40010000, 0])"
    using load n
    by (auto simp: exec_thread_def sys_execve_def page_pair_def page_parent_def one_parent_def page_vm_def demo_env_def
        validate_executable_def has_shebang_def map_trampoline_def page_ops_def riscv64_def thread_aspace_def)
  have a: "thread_aspace page_pair 8 = Some (1, [0x1000, 0])" "thread_aspace page_pair 7 = Some (1, [0x1000, 0])"
    by (simp_all add: thread_aspace_def page_pair_def page_parent_def one_parent_def)
  obtain td td' where t: "threads page_pair 8 = Some td" "threads page_pair 7 = Some td'" "td_process td' \<noteq> td_process td"
    by (auto simp: page_pair_def page_parent_def)
  show ?thesis using execve_and_other_memory [OF T(1) a t] T t(2) a(2) by auto
qed

end
