(* ===== verification/Task.thy ===== *)
theory Task
  imports Entry Time_Stat
begin

text \<open>
  User tasks (\<open>core/src/task.rs\<close>) and the main function of the kernel (\<open>src/src/main.rs\<close>): the first
  instructions of a task, its extension with the time statistics and the thread, the wait queue handed to
  \<open>axsignal\<close>, the namespace a task works in, and the loop that runs the programs named at build time. The
  stores of processes and threads are those of \<open>Clone\<close>.
\<close>

section \<open>The extension of a task\<close>

record task_ext =
  te_time :: time_stat
  te_thread :: pid

definition task_ext_new :: "pid \<Rightarrow> task_ext" where
  "task_ext_new thread = \<lparr>te_time = time_stat_new, te_thread = thread\<rparr>"

definition ext_kernel_to_user :: "usize \<Rightarrow> task_ext \<Rightarrow> task_ext" where
  "ext_kernel_to_user current_tick x = x\<lparr>te_time := switch_into_user_mode current_tick (te_time x)\<rparr>"

definition ext_user_to_kernel :: "usize \<Rightarrow> task_ext \<Rightarrow> task_ext" where
  "ext_user_to_kernel current_tick x = x\<lparr>te_time := switch_into_kernel_mode current_tick (te_time x)\<rparr>"

definition ext_time_output :: "task_ext \<Rightarrow> usize \<times> usize" where
  "ext_time_output x = ts_output (te_time x)"

text \<open>The data behind the thread; without it the kernel panics.\<close>

definition ext_thread_data :: "('as, 't, 'act, 'w) kstate \<Rightarrow> task_ext \<Rightarrow> thread_data res" where
  "ext_thread_data S x = (case threads S (te_thread x) of None \<Rightarrow> Inl Panic | Some td \<Rightarrow> Inr td)"

definition ext_process_data :: "('as, 't, 'act, 'w) kstate \<Rightarrow> task_ext \<Rightarrow> process_data res" where
  "ext_process_data S x =
     rbind (ext_thread_data S x) (\<lambda>td. case procs S (td_process td) of None \<Rightarrow> Inl Panic | Some pd \<Rightarrow> Inr pd)"

section \<open>The first instructions of a task\<close>

text \<open>The closure of \<open>new_user_task\<close> in the task with number \<open>task_id\<close>: it stores its number where the creator asked for
  it and enters user space on its kernel stack. The result is the stack and the context it enters with, and
  the stores it made.\<close>

definition user_task_main ::
  "u64 \<Rightarrow> usize option \<Rightarrow> usize option \<Rightarrow> uctx \<Rightarrow> (usize \<times> uctx) res \<times> (usize \<times> pid) list" where
  "user_task_main task_id set_child_tid kernel_stack_top u =
     (let stores = (case set_child_tid of None \<Rightarrow> [] | Some p \<Rightarrow> [(p, ucast task_id)])
      in (case kernel_stack_top of None \<Rightarrow> Inl Panic | Some kstack_top \<Rightarrow> Inr (kstack_top, u), stores))"

section \<open>Wait queues for signals\<close>

text \<open>What the wrapper asks of the queue of \<open>axtask\<close>: waiting, waiting with a limit, and waking one task. The queue
  after a wait and the answer of the limited wait come from there.\<close>

record ('q, 'd) wait_queue_ops =
  wq_new :: 'q
  wq_wait :: "'q \<Rightarrow> 'q"
  wq_wait_timeout :: "'d \<Rightarrow> 'q \<Rightarrow> bool \<times> 'q"
  wq_notify_one :: "bool \<Rightarrow> 'q \<Rightarrow> bool \<times> 'q"

definition wqw_default :: "('q, 'd) wait_queue_ops \<Rightarrow> 'q" where
  "wqw_default W = wq_new W"

definition wqw_wait_timeout :: "('q, 'd) wait_queue_ops \<Rightarrow> 'd option \<Rightarrow> 'q \<Rightarrow> bool \<times> 'q" where
  "wqw_wait_timeout W timeout q =
     (case timeout of Some d \<Rightarrow> wq_wait_timeout W d q | None \<Rightarrow> (True, wq_wait W q))"

definition wqw_notify_one :: "('q, 'd) wait_queue_ops \<Rightarrow> 'q \<Rightarrow> bool \<times> 'q" where
  "wqw_notify_one W q = wq_notify_one W False q"

section \<open>Namespaces\<close>

text \<open>A namespace is a region that holds the references of the resources (descriptor table, working directory).
  There is a global one, which is only read, a private copy for the kernel's own tasks, made at its first
  use, and one for every process.\<close>

record namespace =
  ns_fds :: arc
  ns_cwd :: arc

record ns_state =
  global_ns :: namespace
  kernel_ns :: "namespace option"

text \<open>\<open>current_namespace_base\<close>: the namespace of the running task, which has an extension unless it is a task of the
  kernel itself.\<close>

definition current_namespace ::
  "('as, 't, 'act, 'w) kstate \<Rightarrow> task_ext option \<Rightarrow> ns_state \<Rightarrow> namespace res \<times> ns_state" where
  "current_namespace S ext n =
     (case ext of
        None \<Rightarrow>
          (case kernel_ns n of
             Some b \<Rightarrow> (Inr b, n)
           | None \<Rightarrow> (Inr (global_ns n), n\<lparr>kernel_ns := Some (global_ns n)\<rparr>))
      | Some x \<Rightarrow> (rbind (ext_process_data S x) (\<lambda>pd. Inr \<lparr>ns_fds = pd_fds pd, ns_cwd = pd_cwd pd\<rparr>), n))"

text \<open>All tasks of the kernel see one namespace, the copy made by the first of them that looks; a user task sees the
  references of its process, whatever the kernel's tasks did.\<close>

lemma current_namespace_kernel:
  assumes "current_namespace S None n = (r, n')"
  shows "current_namespace S' None n' = (r, n')" "r = Inr (case kernel_ns n of None \<Rightarrow> global_ns n | Some b \<Rightarrow> b)"
    "global_ns n' = global_ns n"
  using assms by (auto simp: current_namespace_def split: option.splits)

lemma current_namespace_user:
  assumes "threads S t = Some td" "procs S (td_process td) = Some pd"
  shows "current_namespace S (Some (task_ext_new t)) n = (Inr \<lparr>ns_fds = pd_fds pd, ns_cwd = pd_cwd pd\<rparr>, n)"
  using assms by (simp add: current_namespace_def ext_process_data_def ext_thread_data_def task_ext_new_def)

section \<open>The main function\<close>

text \<open>The programs named at build time: \<open>list\<close> is the value of \<open>AX_TESTCASES_LIST\<close>, if set.\<close>

definition default_testcases :: string where
  "default_testcases = ''Please specify the testcases list by making user_apps''"

definition testcases :: "string option \<Rightarrow> string list" where
  "testcases l = filter (\<lambda>x. x \<noteq> []) (split_char (CHR '','') (case l of None \<Rightarrow> default_testcases | Some s \<Rightarrow> s))"

text \<open>The loop: \<open>shlex\<close> splits a command line, \<open>run\<close> starts a program (\<open>run_user_app\<close>) and \<open>join\<close> lets the system go on until
  its main task ends. No result when loading a program does not end.\<close>

fun run_testcases ::
  "(string \<Rightarrow> string list option) \<Rightarrow> (string list \<Rightarrow> 's \<Rightarrow> ('p res \<times> 's) option) \<Rightarrow> ('p \<Rightarrow> 's \<Rightarrow> 's) \<Rightarrow> string list \<Rightarrow> 's
   \<Rightarrow> (unit res \<times> 's) option" where
  "run_testcases shlex run join [] S = Some (Inr (), S)"
| "run_testcases shlex run join (t # ts) S =
     (case shlex t of
        None \<Rightarrow> run_testcases shlex run join ts S
      | Some args \<Rightarrow>
          if args = [] then run_testcases shlex run join ts S
          else
            (case run args S of
               None \<Rightarrow> None
             | Some (Inl e, S) \<Rightarrow> Some (Inl e, S)
             | Some (Inr p, S) \<Rightarrow> run_testcases shlex run join ts (join p S)))"

definition kernel_main ::
  "(string \<Rightarrow> string list option) \<Rightarrow> (string list \<Rightarrow> 's \<Rightarrow> ('p res \<times> 's) option) \<Rightarrow> ('p \<Rightarrow> 's \<Rightarrow> 's) \<Rightarrow> string option \<Rightarrow> 's
   \<Rightarrow> (unit res \<times> 's) option" where
  "kernel_main shlex run join l S = run_testcases shlex run join (testcases l) S"

text \<open>When every program starts, the programs that run are the parsed, non-empty command lines, each once and in
  order, each in the state the one before left.\<close>

lemma run_testcases_all:
  assumes "\<And>args S. \<exists>p S'. run args S = Some (Inr p, S')"
  shows "run_testcases shlex run join ts S =
    Some (Inr (), foldl (\<lambda>S args. case run args S of Some (Inr p, S') \<Rightarrow> join p S' | _ \<Rightarrow> S) S
      (filter (\<lambda>args. args \<noteq> []) (List.map_filter shlex ts)))"
proof (induction ts arbitrary: S)
  case (Cons t ts)
  show ?case
  proof (cases "shlex t")
    case (Some args)
    obtain p S' where "run args S = Some (Inr p, S')" using assms by blast
    with Some Cons.IH show ?thesis by (simp add: List.map_filter_simps)
  qed (simp add: Cons.IH List.map_filter_simps)
qed (simp add: List.map_filter_simps)

lemma testcases_default: "testcases None = [default_testcases]"
  by (simp add: testcases_def default_testcases_def)

section \<open>Properties\<close>

text \<open>The kernel entries and exits of a task, in any order.\<close>

datatype mode_switch = EnterKernel usize | LeaveKernel usize

fun switch_task :: "mode_switch \<Rightarrow> task_ext \<Rightarrow> task_ext" where
  "switch_task (EnterKernel t) x = ext_user_to_kernel t x"
| "switch_task (LeaveKernel t) x = ext_kernel_to_user t x"

lemma switch_task_time:
  "utime_ns (te_time x) = kernel_timestamp (te_time x) \<Longrightarrow>
   utime_ns (te_time (switch_task m x)) = kernel_timestamp (te_time (switch_task m x))"
  by (cases m) (auto simp: ext_user_to_kernel_def ext_kernel_to_user_def switch_into_kernel_mode_def
      switch_into_user_mode_def Let_def)

lemma switches_time:
  "utime_ns (te_time x) = kernel_timestamp (te_time x) \<Longrightarrow>
   utime_ns (te_time (fold switch_task ms x)) = kernel_timestamp (te_time (fold switch_task ms x))"
  by (induction ms arbitrary: x) (simp_all add: switch_task_time)

text \<open>C40. Whatever a task does from its creation on, \<open>times\<close> in a system call that it entered at time \<open>t\<close> of the monotonic
  clock reports \<open>t\<close> as its user time: the time since boot, not the time the task has spent in user mode. (A
  new task starts with the time stamp 0, and each entry charges the time since the last entry.)\<close>

theorem times_reports_uptime:
  "let x = ext_user_to_kernel t (fold switch_task ms (task_ext_new tid)); k = snd (ext_time_output x) div 1000 in
   sys_times nanos_to_ticks now (te_time x) (Inr ()) =
     Inr (nanos_to_ticks now, \<lparr>tms_utime = t div 1000, tms_stime = k, tms_cutime = t div 1000, tms_cstime = k\<rparr>)"
proof -
  let ?x = "fold switch_task ms (task_ext_new tid)"
  have "utime_ns (te_time ?x) = kernel_timestamp (te_time ?x)"
    by (rule switches_time) (simp add: task_ext_new_def time_stat_new_def)
  then have "utime_ns (te_time (ext_user_to_kernel t ?x)) = t"
    by (auto simp: ext_user_to_kernel_def switch_into_kernel_mode_def Let_def)
  then show ?thesis by (simp add: sys_times_def time_stat_output_def ts_output_def ext_time_output_def Let_def)
qed

text \<open>Without a list of programs the kernel takes its message as the command line of a program, and since there is
  no program of that name it panics.\<close>

lemma main_without_list_panics:
  assumes "shlex default_testcases = Some (prog # args)" and "read_file E prog = Inl e"
  shows "\<exists>S'. kernel_main shlex (\<lambda>args. run_user_app E P As M X F C B tid args []) join None S = Some (Inl Panic, S')"
proof -
  have "load_user_app E P As M prog (prog # args) [] as = Some (Inl (FromAx e), as)" for as
    using assms(2) by (subst load_user_app.simps) simp
  then show ?thesis
    using assms(1) by (auto simp: kernel_main_def testcases_default run_user_app_def Let_def split: sum.splits)
qed

end
