(* ===== verification/Shm_Pages.thy ===== *)
theory Shm_Pages
  imports Shm
begin

text \<open>
  The memory behind shared segments. A segment is dropped with the last \<open>Arc\<close> that refers to it, and the drop
  returns its pages (\<open>Drop for ShmSegment\<close>, \<open>core/src/shm.rs\<close>). The references are those in the manager and
  in the attachments of the processes, so after every call the segments that nobody refers to any more are
  dropped. The end of a process drops its attachments without detaching them.
\<close>

section \<open>Dropping segments\<close>

text \<open>The page allocator's \<open>dealloc_pages\<close> and \<open>phys_to_virt\<close> of \<open>axhal\<close>.\<close>

record 'al page_env =
  phys_to_virt :: "usize \<Rightarrow> usize"
  dealloc_pages :: "'al \<Rightarrow> usize \<Rightarrow> usize \<Rightarrow> 'al"

text \<open>The arguments of \<open>dealloc_pages\<close> in the drop of a segment, and the drop.\<close>

definition drop_args :: "'al page_env \<Rightarrow> shm_segment \<Rightarrow> usize \<times> usize" where
  "drop_args Q s = (phys_to_virt Q (paddr s), seg_size s div PAGE_SIZE_4K)"

definition shm_segment_drop :: "'al page_env \<Rightarrow> shm_segment \<Rightarrow> 'al \<Rightarrow> 'al" where
  "shm_segment_drop Q s al = (case drop_args Q s of (vaddr, n) \<Rightarrow> dealloc_pages Q al vaddr n)"

definition list_segments :: "shm_manager \<Rightarrow> arc set" where
  "list_segments m = ran (segments m)"

definition seg_referenced :: "('as, 'al) shm_sys \<Rightarrow> arc \<Rightarrow> bool" where
  "seg_referenced S a \<longleftrightarrow> a \<in> list_segments (mgr S) \<or> att_set S a \<noteq> {}"

text \<open>The calls with the drops that follow them: \<open>sm_live\<close> are the segments that exist, \<open>sm_dropped\<close> those that were
  dropped, in order.\<close>

record ('as, 'al) shm_mem =
  sm_sys :: "('as, 'al) shm_sys"
  sm_live :: "arc list"
  sm_dropped :: "arc list"

definition drop_unreferenced :: "'al page_env \<Rightarrow> ('as, 'al) shm_sys \<Rightarrow> ('as, 'al) shm_mem \<Rightarrow> ('as, 'al) shm_mem" where
  "drop_unreferenced Q T m =
     (let ex = sm_live m @ [length (segs (sm_sys m)) ..< length (segs T)];
          dead = filter (\<lambda>a. \<not> seg_referenced T a) ex
      in \<lparr>sm_sys = T\<lparr>pages := fold (\<lambda>a. shm_segment_drop Q (segs T ! a)) dead (pages T)\<rparr>,
          sm_live = filter (seg_referenced T) ex, sm_dropped = sm_dropped m @ dead\<rparr>)"

inductive mem_step ::
  "'al shm_env \<Rightarrow> 'al page_env \<Rightarrow> 'as aspace_ops \<Rightarrow> ('as, 'al) shm_mem \<Rightarrow> ('as, 'al) shm_mem \<Rightarrow> bool"
  for E Q As where
  mem_call: "shm_step E As (sm_sys m) T \<Longrightarrow> mem_step E Q As m (drop_unreferenced Q T m)"

definition mem_init :: "'al \<Rightarrow> 'as \<Rightarrow> ('as, 'al) shm_mem" where
  "mem_init al as0 = \<lparr>sm_sys = shm_init al as0, sm_live = [], sm_dropped = []\<rparr>"

text \<open>The allocator's state matters to none of this.\<close>

lemma pages_irrelevant [simp]:
  "seg_referenced (T\<lparr>pages := al\<rparr>) a \<longleftrightarrow> seg_referenced T a" "att_set (T\<lparr>pages := al\<rparr>) = att_set T"
  "shm_inv (T\<lparr>pages := al\<rparr>) \<longleftrightarrow> shm_inv T"
  by (simp_all add: seg_referenced_def att_set_def shm_inv_def core_defs no_zombie_def fun_eq_iff)

section \<open>What a step does to the segments\<close>

text \<open>A segment keeps its place and its size, a reference to an old segment comes from an old reference, and a new
  segment has the pages that the allocator returned for its size and is entered in the manager.\<close>

definition from_allocator :: "'al shm_env \<Rightarrow> 'al \<Rightarrow> shm_segment \<Rightarrow> bool" where
  "from_allocator E al s \<longleftrightarrow>
     (\<exists>al' v. alloc_pages E al (seg_size s div PAGE_SIZE_4K) = (Inr v, al') \<and> paddr s = virt_to_phys E v)"

definition seg_move :: "'al shm_env \<Rightarrow> ('as, 'al) shm_sys \<Rightarrow> ('as, 'al) shm_sys \<Rightarrow> bool" where
  "seg_move E S T \<longleftrightarrow>
     length (segs S) \<le> length (segs T) \<and>
     (\<forall>a < length (segs S). paddr (segs T ! a) = paddr (segs S ! a) \<and> seg_size (segs T ! a) = seg_size (segs S ! a) \<and>
        (seg_referenced T a \<longrightarrow> seg_referenced S a)) \<and>
     (\<forall>a. length (segs S) \<le> a \<longrightarrow> a < length (segs T) \<longrightarrow>
        a = length (segs S) \<and> from_allocator E (pages S) (segs T ! a) \<and> seg_referenced T a)"

text \<open>A call that creates nothing.\<close>

definition seg_keep :: "('as, 'al) shm_sys \<Rightarrow> ('as, 'al) shm_sys \<Rightarrow> bool" where
  "seg_keep S T \<longleftrightarrow>
     length (segs T) = length (segs S) \<and>
     (\<forall>a < length (segs S). paddr (segs T ! a) = paddr (segs S ! a) \<and> seg_size (segs T ! a) = seg_size (segs S ! a)) \<and>
     (\<forall>a. seg_referenced T a \<longrightarrow> seg_referenced S a)"

lemma seg_keep_move: "seg_keep S T \<Longrightarrow> seg_move E S T"
  by (simp add: seg_keep_def seg_move_def)

lemma seg_keep_refl [simp]: "seg_keep S S"
  by (simp add: seg_keep_def)

lemma seg_keep_trans: "seg_keep S T \<Longrightarrow> seg_keep T U \<Longrightarrow> seg_keep S U"
  by (simp add: seg_keep_def)

lemma seg_referenced_cong:
  "segments (mgr T) = segments (mgr S) \<Longrightarrow> procs T = procs S \<Longrightarrow> seg_referenced T a \<longleftrightarrow> seg_referenced S a"
  by (simp add: seg_referenced_def list_segments_def att_set_def)

lemma seg_keep_same:
  "segs T = segs S \<Longrightarrow> procs T = procs S \<Longrightarrow> segments (mgr T) = segments (mgr S) \<Longrightarrow> seg_keep S T"
  using seg_referenced_cong [of T S] by (simp add: seg_keep_def)

lemma seg_keep_upd_seg:
  assumes "\<And>s. paddr (f s) = paddr s" "\<And>s. seg_size (f s) = seg_size s"
  shows "seg_keep S (upd_seg a f S)"
proof -
  have "paddr (segs (upd_seg a f S) ! b) = paddr (segs S ! b) \<and> seg_size (segs (upd_seg a f S) ! b) = seg_size (segs S ! b)"
    if "b < length (segs S)" for b
    using that assms by (cases "a = b") (simp_all add: upd_seg_def)
  moreover have "seg_referenced (upd_seg a f S) b \<longleftrightarrow> seg_referenced S b" for b by (rule seg_referenced_cong) simp_all
  ultimately show ?thesis by (simp add: seg_keep_def)
qed

lemma seg_keep_upd_proc:
  assumes "\<And>v att. attached p v = Some att \<Longrightarrow> attached (procs S pid) v = Some att \<or> seg_referenced S (att_segment att)"
  shows "seg_keep S (upd_proc pid p S)"
proof -
  have "seg_referenced S a" if "seg_referenced (upd_proc pid p S) a" for a
    using that assms by (fastforce simp: seg_referenced_def list_segments_def att_set_def split: if_splits)
  then show ?thesis by (simp add: seg_keep_def)
qed

lemma seg_keep_remove: "remove_segment sid S = (r, T) \<Longrightarrow> seg_keep S T"
proof -
  assume "remove_segment sid S = (r, T)"
  then have *: "segs T = segs S" "procs T = procs S"
    "segments (mgr T) = segments (mgr S) \<or> segments (mgr T) = (segments (mgr S))(sid := None)"
    by (auto simp: remove_segment_def Let_def split: option.splits if_splits)
  have "ran (segments (mgr T)) \<subseteq> ran (segments (mgr S))" using *(3) by (auto simp: ran_def split: if_splits)
  moreover have "att_set T = att_set S" using *(2) by (simp add: att_set_def fun_eq_iff)
  ultimately show ?thesis using *(1) unfolding seg_keep_def seg_referenced_def list_segments_def by auto
qed

lemma attach_size [simp]:
  "paddr (dec_attach now s) = paddr s" "seg_size (dec_attach now s) = seg_size s"
  "paddr (set_last_pid pid s) = paddr s" "seg_size (set_last_pid pid s) = seg_size s"
  "paddr (set_perm now u g md s) = paddr s" "seg_size (set_perm now u g md s) = seg_size s"
  by (simp_all add: dec_attach_def set_last_pid_def set_perm_def Let_def)

lemma create_segment_pages:
  assumes "create_segment E now pid k sz md S = (Inr a, T)"
  shows "\<exists>s. segs T = segs S @ [s] \<and> from_allocator E (pages S) s"
proof -
  obtain sid m al v where "alloc_id (mgr S) = (Inr sid, m)"
    "alloc_pages E (pages S) (align_up_4k (aligns E) sz div PAGE_SIZE_4K) = (Inr v, al)"
    "\<exists>s. segs T = segs S @ [s] \<and> paddr s = virt_to_phys E v \<and> seg_size s = align_up_4k (aligns E) sz"
    using assms by (auto simp: create_segment_def shm_segment_new_def Let_def split: prod.splits sum.splits)
  then show ?thesis unfolding from_allocator_def by (metis (no_types))
qed

lemma get_or_create_move:
  assumes "get_or_create E now pid k sz flags S = (r, T)" "shm_core S"
  shows "seg_move E S T"
proof -
  have nx: "0 < sint (next_id (mgr S))" using assms(2) by (simp add: core_defs)
  obtain q V where q: "create_segment E now pid k sz (ucast (flags AND 0x1FF)) S = (q, V)" by fastforce
  have V: "seg_move E S V"
  proof (rule create_segment_cases [OF q nx])
    fix e assume "q = Inl e" "segments (mgr V) = segments (mgr S)" "segs V = segs S" "procs V = procs S"
    then show ?thesis by (intro seg_keep_move seg_keep_same)
  next
    fix sid s assume o: "q = Inr (length (segs S))" "created S sid k s V"
    then obtain s' where s': "segs V = segs S @ [s']" "from_allocator E (pages S) s'" using create_segment_pages q by blast
    have ran: "ran (segments (mgr V)) = insert (length (segs S)) (ran (segments (mgr S)))"
      using o(2) by (auto simp: created_def ran_map_upd)
    have att: "att_set V = att_set S" using o(2) by (simp add: created_def att_set_def fun_eq_iff)
    show ?thesis using s' unfolding seg_move_def seg_referenced_def list_segments_def ran att
      by (auto simp: nth_append less_Suc_eq)
  qed
  have "segs T = segs V \<and> procs T = procs V \<and> segments (mgr T) = segments (mgr V) \<or>
      segs T = segs S \<and> procs T = procs S \<and> segments (mgr T) = segments (mgr S)"
    using assms(1) q by (auto simp: get_or_create_def Let_def split: if_splits option.splits sum.splits)
  then show ?thesis
  proof
    assume h: "segs T = segs V \<and> procs T = procs V \<and> segments (mgr T) = segments (mgr V)"
    then have "seg_referenced T a \<longleftrightarrow> seg_referenced V a" for a by (intro seg_referenced_cong) simp_all
    then show ?thesis using V h by (simp add: seg_move_def)
  next
    assume "segs T = segs S \<and> procs T = procs S \<and> segments (mgr T) = segments (mgr S)"
    then show ?thesis by (intro seg_keep_move seg_keep_same) simp_all
  qed
qed

lemma shmat_keep: "seg_keep S (snd (sys_shmat M As now pid shmid shmaddr shmflg S))"
proof (cases "segments (mgr S) shmid")
  case None
  then show ?thesis by (simp add: sys_shmat_def get_by_id_def)
next
  case (Some a)
  note get = this
  then have ref: "seg_referenced (upd_seg a (inc_attach now) S) a"
    by (auto simp: seg_referenced_def list_segments_def ran_def)
  let ?S = "upd_seg a (inc_attach now) S"
  have k1: "seg_keep S ?S" by (rule seg_keep_upd_seg) simp_all
  have k2: "seg_keep S (upd_seg a (dec_attach now) (upd_proc pid (procs ?S pid\<lparr>aspace := as\<rparr>) ?S))" for as
    by (rule seg_keep_trans [OF k1 seg_keep_trans [OF seg_keep_upd_proc seg_keep_upd_seg]]) simp_all
  have k3: "seg_keep S (upd_proc pid (attach shmid w a (procs ?S pid\<lparr>aspace := as\<rparr>)) ?S)" for as w
    by (rule seg_keep_trans [OF k1 seg_keep_upd_proc]) (use ref in \<open>auto simp: attach_def split: if_splits\<close>)
  show ?thesis
  proof (cases "validate_segment M (segs S ! a) shmflg")
    case Inl
    then show ?thesis using get by (simp add: sys_shmat_def get_by_id_def)
  next
    case Inr
    then show ?thesis
      using get k1 k2 k3 by (auto simp: sys_shmat_def get_by_id_def Let_def split: sum.splits prod.splits)
  qed
qed

lemma shmdt_keep: "seg_keep S (snd (sys_shmdt As now pid shmaddr S))"
proof (cases "attached (procs S pid) shmaddr")
  case None
  then show ?thesis by (simp add: sys_shmdt_def detach_def)
next
  case (Some att)
  let ?a = "att_segment att" and ?f = "\<lambda>s. set_last_pid pid (dec_attach now s)"
  obtain r as where u: "as_unmap As (aspace (procs S pid)) shmaddr (seg_size (segs S ! ?a)) = (r, as)" by fastforce
  define U where "U = upd_proc pid (procs S pid\<lparr>attached := (attached (procs S pid))(shmaddr := None), aspace := as\<rparr>) S"
  have k1: "seg_keep S U" unfolding U_def by (rule seg_keep_upd_proc) (auto split: if_splits)
  have k2: "seg_keep S (upd_seg ?a ?f U)" by (rule seg_keep_trans [OF k1 seg_keep_upd_seg]) simp_all
  have k3: "seg_keep S T" if "remove_segment i (upd_seg ?a ?f U) = (q, T)" for i q T
    by (rule seg_keep_trans [OF k2 seg_keep_remove [OF that]])
  show ?thesis
    using Some u k1 k2 k3
    by (auto simp: sys_shmdt_def detach_def Let_def U_def [symmetric] split: sum.splits prod.splits)
qed

lemma shmctl_keep: "seg_keep S (snd (sys_shmctl now shmid cmd ubuf S))"
proof (cases "segments (mgr S) shmid")
  case None
  then show ?thesis by (simp add: sys_shmctl_def get_by_id_def)
next
  case (Some a)
  let ?V = "upd_seg a (\<lambda>s. s\<lparr>marked_for_deletion := True\<rparr>) S"
  have k1: "seg_keep S ?V" by (rule seg_keep_upd_seg) simp_all
  have k2: "seg_keep S T" if "remove_segment i ?V = (q, T)" for i q T
    by (rule seg_keep_trans [OF k1 seg_keep_remove [OF that]])
  have k3: "seg_keep S (upd_seg a (set_perm now u g md) S)" for u g md by (rule seg_keep_upd_seg) simp_all
  show ?thesis
    using Some k1 k2 k3
    by (auto simp: sys_shmctl_def get_by_id_def Let_def split: sum.splits prod.splits option.splits)
qed

lemma shm_step_move:
  assumes "shm_step E As S T" "shm_inv S"
  shows "seg_move E S T"
  using assms(1)
proof cases
  case (shmget now pid k sz flags)
  then show ?thesis
    using get_or_create_move [of E now pid k sz flags S] assms(2) seg_keep_move [OF seg_keep_refl, of E S]
    by (auto simp: sys_shmget_def shm_inv_def split: prod.splits sum.splits)
next
  case (new_data pid a)
  have "seg_keep S (upd_proc pid (process_shm_data_new a) S)"
    by (rule seg_keep_upd_proc) (simp add: process_shm_data_new_def)
  then show ?thesis using new_data by (simp add: seg_keep_move)
qed (simp_all add: seg_keep_move shmat_keep shmdt_keep shmctl_keep)

section \<open>Live and dropped segments\<close>

definition mem_ok :: "('as, 'al) shm_mem \<Rightarrow> bool" where
  "mem_ok m \<longleftrightarrow>
     shm_inv (sm_sys m) \<and>
     distinct (sm_live m @ sm_dropped m) \<and> set (sm_live m @ sm_dropped m) = {..<length (segs (sm_sys m))} \<and>
     (\<forall>a < length (segs (sm_sys m)). a \<in> set (sm_live m) \<longleftrightarrow> seg_referenced (sm_sys m) a)"

lemma mem_step_ok:
  assumes "mem_step E Q As m m'" "mem_ok m"
  shows "mem_ok m'"
  using assms(1)
proof cases
  case (mem_call T)
  let ?S = "sm_sys m" and ?new = "[length (segs (sm_sys m)) ..< length (segs T)]"
  have inv: "shm_inv T" using mem_call(2) assms(2) shm_step_inv by (auto simp: mem_ok_def)
  have mv: "seg_move E ?S T" using shm_step_move [OF mem_call(2)] assms(2) by (simp add: mem_ok_def)
  then have len: "length (segs ?S) \<le> length (segs T)" by (simp add: seg_move_def)
  have d: "distinct (sm_live m @ sm_dropped m)" "set (sm_live m) \<union> set (sm_dropped m) = {..<length (segs ?S)}"
    using assms(2) by (simp_all add: mem_ok_def)
  have dead: "\<not> seg_referenced T a" if "a \<in> set (sm_dropped m)" for a
  proof -
    have "a < length (segs ?S)" "a \<notin> set (sm_live m)" using that d by auto
    then show ?thesis using assms(2) mv by (auto simp: mem_ok_def seg_move_def)
  qed
  let ?ex = "sm_live m @ ?new"
  define L D where "L = filter (seg_referenced T) ?ex" and "D = filter (\<lambda>a. \<not> seg_referenced T a) ?ex"
  have ex: "set ?ex \<union> set (sm_dropped m) = {..<length (segs T)}" "distinct (?ex @ sm_dropped m)"
  proof -
    have "set ?ex \<union> set (sm_dropped m) = {..<length (segs ?S)} \<union> {length (segs ?S)..<length (segs T)}"
      using d(2) by auto
    also have "\<dots> = {..<length (segs T)}" using len by auto
    finally show "set ?ex \<union> set (sm_dropped m) = {..<length (segs T)}" .
    have "set ?new \<inter> (set (sm_live m) \<union> set (sm_dropped m)) = {}" unfolding d(2) by auto
    then show "distinct (?ex @ sm_dropped m)" using d(1) by auto
  qed
  have "set (L @ sm_dropped m @ D) = set ?ex \<union> set (sm_dropped m)" unfolding L_def D_def by auto
  moreover have "distinct (L @ sm_dropped m @ D)" using ex(2) unfolding L_def D_def by auto
  moreover have "a \<in> set L \<longleftrightarrow> seg_referenced T a" if "a < length (segs T)" for a
  proof -
    have "a \<in> set ?ex \<or> a \<in> set (sm_dropped m)" using ex(1) that by blast
    then show ?thesis using dead unfolding L_def by auto
  qed
  ultimately show ?thesis
    using inv ex(1) unfolding mem_call(1) mem_ok_def drop_unreferenced_def Let_def L_def [symmetric] D_def [symmetric]
    by simp
qed

lemma mem_reach_ok:
  assumes "(mem_step E Q As)\<^sup>*\<^sup>* m m'" "mem_ok m"
  shows "mem_ok m'"
  using assms by (induction rule: rtranclp_induct) (auto intro: mem_step_ok)

lemma mem_init_ok: "mem_ok (mem_init al as0)"
  using shm_init_inv [of al as0] by (simp add: mem_ok_def mem_init_def shm_init_def)

text \<open>The call that created a segment got its pages from the allocator.\<close>

lemma mem_run_allocs:
  assumes "(mem_step E Q As)\<^sup>*\<^sup>* (mem_init al as0) m" "a < length (segs (sm_sys m))"
  shows "\<exists>n. (mem_step E Q As)\<^sup>*\<^sup>* (mem_init al as0) n \<and> (mem_step E Q As)\<^sup>+\<^sup>+ n m \<and> length (segs (sm_sys n)) = a \<and>
    from_allocator E (pages (sm_sys n)) (segs (sm_sys m) ! a)"
  using assms
proof (induction arbitrary: a rule: rtranclp_induct)
  case base
  then show ?case by (simp add: mem_init_def shm_init_def)
next
  case (step m m')
  from step(2) obtain T where T: "m' = drop_unreferenced Q T m" "shm_step E As (sm_sys m) T" by cases
  have "mem_ok m" by (rule mem_reach_ok [OF step(1) mem_init_ok])
  then have mv: "seg_move E (sm_sys m) T" using shm_step_move [OF T(2)] by (simp add: mem_ok_def)
  have segs: "segs (sm_sys m') = segs T" by (simp add: T(1) drop_unreferenced_def Let_def)
  show ?case
  proof (cases "a < length (segs (sm_sys m))")
    case True
    then obtain n where n: "(mem_step E Q As)\<^sup>*\<^sup>* (mem_init al as0) n" "(mem_step E Q As)\<^sup>+\<^sup>+ n m" "length (segs (sm_sys n)) = a"
        "from_allocator E (pages (sm_sys n)) (segs (sm_sys m) ! a)"
      using step(3) by blast
    have "from_allocator E (pages (sm_sys n)) (segs T ! a)" using n(4) mv True by (simp add: seg_move_def from_allocator_def)
    with n step(2) segs show ?thesis by (intro exI [of _ n]) (simp add: tranclp.trancl_into_trancl)
  next
    case False
    then have "length (segs (sm_sys m)) = a \<and> from_allocator E (pages (sm_sys m)) (segs T ! a)"
      using mv step(4) segs by (auto simp: seg_move_def not_less)
    with step(1,2) segs show ?thesis by (intro exI [of _ m]) (simp add: tranclp.r_into_trancl)
  qed
qed

section \<open>The end of a process\<close>

text \<open>Dropping the \<open>ProcessData\<close> of a process drops its \<open>ProcessShmData\<close>, which has no \<open>Drop\<close> of its own: the
  attachments are gone and the segments still count them.\<close>

definition shm_exit :: "u32 \<Rightarrow> ('as, 'al) shm_sys \<Rightarrow> ('as, 'al) shm_sys" where
  "shm_exit pid S = upd_proc pid (process_shm_data_new (aspace (procs S pid))) S"

lemma shm_exit_step: "shm_step E As S (shm_exit pid S)"
  unfolding shm_exit_def by (rule shm_step.new_data)

text \<open>A segment that counts more attachments than there are.\<close>

definition over_counted :: "('as, 'al) shm_sys \<Rightarrow> i32 \<Rightarrow> arc \<Rightarrow> bool" where
  "over_counted S i a \<longleftrightarrow> segments (mgr S) i = Some a \<and> card (att_set S a) < unat (nattch S a)"

lemma over_counted_dropped [simp]:
  "over_counted (sm_sys (drop_unreferenced Q T m)) i a \<longleftrightarrow> over_counted T i a"
  by (simp add: over_counted_def drop_unreferenced_def Let_def)

lemma over_counted_seg:
  assumes "over_counted S i a" "b = a \<Longrightarrow> card (att_set S a) < unat (shm_nattch (ds (f (segs S ! a))))"
  shows "over_counted (upd_seg b f S) i a"
proof (cases "b = a \<and> a < length (segs S)")
  case False
  then have "segs (upd_seg b f S) ! a = segs S ! a" by (cases "b = a") (simp_all add: upd_seg_def list_update_beyond)
  then show ?thesis using assms(1) by (simp add: over_counted_def)
qed (use assms in \<open>simp add: over_counted_def segs_upd_seg\<close>)

lemma over_counted_proc:
  assumes "over_counted S i a"
    and "\<And>v att. attached p v = Some att \<Longrightarrow> att_segment att = a \<Longrightarrow> attached (procs S pid) v = Some att"
  shows "over_counted (upd_proc pid p S) i a"
proof -
  have "att_set (upd_proc pid p S) a \<subseteq> att_set S a"
    using assms(2) by (fastforce simp: att_set_def split: if_splits)
  then have "card (att_set (upd_proc pid p S) a) \<le> card (att_set S a)" by (intro card_mono) simp_all
  then show ?thesis using assms(1) by (simp add: over_counted_def)
qed

lemma over_counted_remove:
  assumes "remove_segment sid S = (r, T)" "over_counted S i a" "sid \<noteq> i"
  shows "over_counted T i a"
proof -
  have T: "segs T = segs S" "procs T = procs S" "segments (mgr T) i = segments (mgr S) i"
    using assms(1,3) by (auto simp: remove_segment_def Let_def split: option.splits if_splits)
  then have "att_set T = att_set S" by (simp add: att_set_def fun_eq_iff)
  with T assms(2) show ?thesis by (simp add: over_counted_def)
qed

lemma over_counted_shmget:
  assumes "over_counted S i a" "shm_inv S"
  shows "over_counted (snd (sys_shmget E now pid k sz flags S)) i a"
proof -
  have nx: "0 < sint (next_id (mgr S))" and l: "a < length (segs S)"
    using assms core_segment [of S i a] by (auto simp: core_defs shm_inv_def over_counted_def)
  obtain q V where q: "create_segment E now pid k sz (ucast (flags AND 0x1FF)) S = (q, V)" by fastforce
  have same: "over_counted T i a"
    if "segments (mgr T) i = Some a" "procs T = procs S" "segs T ! a = segs S ! a" for T :: "('a, 'b) shm_sys"
  proof -
    have "att_set T = att_set S" using that(2) by (simp add: att_set_def fun_eq_iff)
    then show ?thesis using assms(1) that by (simp add: over_counted_def)
  qed
  have i: "segments (mgr S) i = Some a" using assms(1) by (simp add: over_counted_def)
  have V: "segments (mgr V) i = Some a \<and> procs V = procs S \<and> segs V ! a = segs S ! a"
    by (rule create_segment_cases [OF q nx]) (use i l in \<open>auto simp: created_def nth_append\<close>)
  obtain r T where g: "get_or_create E now pid k sz flags S = (r, T)" by fastforce
  have "segments (mgr T) = segments (mgr V) \<and> procs T = procs V \<and> segs T = segs V \<or>
      segments (mgr T) = segments (mgr S) \<and> procs T = procs S \<and> segs T = segs S"
    using g q by (auto simp: get_or_create_def Let_def split: if_splits option.splits sum.splits)
  then have "over_counted T i a" using same [of T] V i by auto
  then show ?thesis using g assms(1) by (auto simp: sys_shmget_def split: sum.splits)
qed

lemma over_counted_shmat:
  assumes "over_counted S i a" "shm_inv S"
  shows "over_counted (snd (sys_shmat M As now pid shmid shmaddr shmflg S)) i a"
proof (cases "\<exists>b. segments (mgr S) shmid = Some b \<and> validate_segment M (segs S ! b) shmflg = Inr ()")
  case False
  then show ?thesis using assms
    by (auto simp: sys_shmat_def get_by_id_def res_simps split: option.splits sum.splits)
next
  case True
  then obtain b where b: "segments (mgr S) shmid = Some b" and v: "validate_segment M (segs S ! b) shmflg = Inr ()" by blast
  have c: "card (att_set S a) < unat (nattch S a)" "segments (mgr S) i = Some a"
    using assms(1) by (auto simp: over_counted_def)
  have la: "a < length (segs S)" using core_segment [of S i a] assms(2) c(2) by (simp add: shm_inv_def)
  let ?S = "upd_seg b (inc_attach now) S"
  have n: "unat (nattch ?S a) = unat (nattch S a) + (if b = a then 1 else 0)"
    using la unat_inc [OF validated(2) [OF v]] by (cases "b = a") (simp_all add: upd_seg_def)
  have k1: "over_counted ?S i a" using c n by (simp add: over_counted_def)
  have k2: "over_counted (upd_seg b (dec_attach now) (upd_proc pid (procs ?S pid\<lparr>aspace := as\<rparr>) ?S)) i a" for as
  proof (rule over_counted_seg [OF over_counted_proc [OF k1]], goal_cases)
    case 2
    let ?U = "upd_proc pid (procs ?S pid\<lparr>aspace := as\<rparr>) ?S"
    have "att_set ?U a = att_set S a" by (auto simp: att_set_def split: if_splits)
    then show ?case using n c 2 by (simp add: unat_dec word_less_nat_alt)
  qed simp
  have k3: "over_counted (upd_proc pid (attach shmid w b (procs ?S pid\<lparr>aspace := as\<rparr>)) ?S) i a" (is "over_counted ?T i a") for w as
  proof (cases "b = a")
    case False
    then show ?thesis by (intro over_counted_proc [OF k1]) (auto simp: attach_def split: if_splits)
  next
    case True
    have "att_set ?T a \<subseteq> insert (pid, w) (att_set S a)" by (auto simp: att_set_def attach_def split: if_splits)
    then have "card (att_set ?T a) \<le> Suc (card (att_set S a))"
      by (rule order.trans [OF card_mono, rotated]) (simp_all add: card_insert_if)
    then show ?thesis using True n c by (simp add: over_counted_def)
  qed
  show ?thesis
    using assms(1) b v k1 k2 k3 by (auto simp: sys_shmat_def get_by_id_def Let_def split: sum.splits prod.splits)
qed

lemma over_counted_shmdt:
  assumes "over_counted S i a" "shm_inv S"
  shows "over_counted (snd (sys_shmdt As now pid shmaddr S)) i a"
proof (cases "attached (procs S pid) shmaddr")
  case None
  then show ?thesis using assms(1) by (simp add: sys_shmdt_def detach_def)
next
  case (Some att)
  let ?b = "att_segment att" and ?f = "\<lambda>s. set_last_pid pid (dec_attach now s)"
  have c: "card (att_set S a) < unat (nattch S a)" "segments (mgr S) i = Some a"
    using assms(1) by (auto simp: over_counted_def)
  have core: "shm_core S" using assms(2) by (simp add: shm_inv_def)
  have b: "segments (mgr S) (att_id att) = Some ?b" using core Some by (auto simp: shm_core_def core_att_def)
  note l = core_segment(1) [OF core b]
  obtain r as where u: "as_unmap As (aspace (procs S pid)) shmaddr (seg_size (segs S ! ?b)) = (r, as)" by fastforce
  define U where "U = upd_proc pid (procs S pid\<lparr>attached := (attached (procs S pid))(shmaddr := None), aspace := as\<rparr>) S"
  have k1: "over_counted U i a" unfolding U_def by (rule over_counted_proc [OF assms(1)]) (auto split: if_splits)
  have less: "card (att_set U a) < unat (shm_nattch (ds (?f (segs U ! a)))) \<and> 0 < unat (shm_nattch (ds (?f (segs U ! a))))" if "?b = a"
  proof -
    have "att_set U a = att_set S a - {(pid, shmaddr)}" "(pid, shmaddr) \<in> att_set S a"
      using Some that by (auto simp: U_def att_set_def split: if_splits)
    then have "card (att_set U a) = card (att_set S a) - 1" "0 < card (att_set S a)" by (auto simp: card_gt_0_iff)
    then show ?thesis using c(1) by (auto simp: U_def unat_dec word_less_nat_alt)
  qed
  have k2: "over_counted (upd_seg ?b ?f U) i a" by (rule over_counted_seg [OF k1]) (use less in simp)
  have k3: "over_counted T i a"
    if "remove_segment (att_id att) (upd_seg ?b ?f U) = (q, T)" "get_attach_count (segs (upd_seg ?b ?f U) ! ?b) = 0" for q T
  proof (rule over_counted_remove [OF that(1) k2])
    have "?b \<noteq> a" using less l that(2) by (auto simp: get_attach_count_def segs_upd_seg U_def)
    then show "att_id att \<noteq> i" using b c(2) by auto
  qed
  show ?thesis
    using Some u k1 k2 k3
    by (auto simp: sys_shmdt_def detach_def Let_def U_def [symmetric] split: sum.splits prod.splits)
qed

lemma over_counted_shmctl:
  assumes "over_counted S i a" "shm_inv S"
  shows "over_counted (snd (sys_shmctl now shmid cmd ubuf S)) i a"
proof (cases "segments (mgr S) shmid")
  case None
  then show ?thesis using assms(1) by (simp add: sys_shmctl_def get_by_id_def)
next
  case (Some b)
  let ?V = "upd_seg b (\<lambda>s. s\<lparr>marked_for_deletion := True\<rparr>) S"
  have c: "card (att_set S a) < unat (nattch S a)" "segments (mgr S) i = Some a"
    using assms(1) by (auto simp: over_counted_def)
  have l: "b < length (segs S)" using core_segment(1) [OF _ Some] assms(2) by (simp add: shm_inv_def)
  have k1: "over_counted ?V i a" by (rule over_counted_seg [OF assms(1)]) (use c in simp)
  have k2: "over_counted T i a" if "remove_segment shmid ?V = (q, T)" "get_attach_count (segs ?V ! b) = 0" for q T
  proof (rule over_counted_remove [OF that(1) k1])
    have "b \<noteq> a" using that(2) c(1) l by (auto simp: get_attach_count_def segs_upd_seg)
    then show "shmid \<noteq> i" using Some c(2) by auto
  qed
  have k3: "over_counted (upd_seg b (set_perm now u g md) S) i a" for u g md
    by (rule over_counted_seg [OF assms(1)]) (use c in simp)
  show ?thesis
    using Some assms(1) k1 k2 k3
    by (auto simp: sys_shmctl_def get_by_id_def Let_def split: sum.splits prod.splits option.splits)
qed

lemma over_counted_step:
  assumes "shm_step E As S T" "over_counted S i a" "shm_inv S"
  shows "over_counted T i a"
  using assms(1)
proof cases
  case (new_data pid as)
  show ?thesis unfolding new_data by (rule over_counted_proc [OF assms(2)]) (simp add: process_shm_data_new_def)
qed (use assms(2,3) in \<open>simp_all add: over_counted_shmget over_counted_shmat over_counted_shmdt over_counted_shmctl\<close>)

lemma over_counted_exit:
  assumes "shm_inv S" "attached (procs S pid) v = Some att"
  shows "over_counted (shm_exit pid S) (att_id att) (att_segment att)"
proof -
  let ?a = "att_segment att"
  have core: "shm_core S" using assms(1) by (simp add: shm_inv_def)
  have a: "segments (mgr S) (att_id att) = Some ?a" using core assms(2) by (auto simp: shm_core_def core_att_def)
  have "att_set (shm_exit pid S) ?a \<subset> att_set S ?a"
    using assms(2) by (auto simp: shm_exit_def att_set_def process_shm_data_new_def psubset_eq set_eq_iff split: if_splits)
  then have "card (att_set (shm_exit pid S) ?a) < card (att_set S ?a)" by (intro psubset_card_mono) simp_all
  also have "\<dots> \<le> unat (nattch S ?a)" using core_att_count core core_segment(1) [OF core a] by blast
  finally show ?thesis using a by (simp add: over_counted_def shm_exit_def)
qed

lemma over_counted_run:
  assumes "(mem_step E Q As)\<^sup>*\<^sup>* m m'" "mem_ok m" "over_counted (sm_sys m) i a"
  shows "over_counted (sm_sys m') i a"
  using assms(1)
proof (induction rule: rtranclp_induct)
  case (step n n')
  have "shm_inv (sm_sys n)" using mem_reach_ok [OF step(1) assms(2)] by (simp add: mem_ok_def)
  with step(2,3) show ?case by (auto elim!: mem_step.cases intro: over_counted_step)
qed (fact assms(3))

section \<open>Properties\<close>

text \<open>C4. The pages of shared segments. In every state the shared memory calls of any processes can reach, ends of
  processes included, a segment that was created exists or was dropped, and not both. It was dropped at most once, and it
  exists exactly while the manager or an attachment refers to it. What its drop gives back is exactly the range that the
  allocator returned to the call that created it, provided \<open>phys_to_virt\<close> undoes \<open>virt_to_phys\<close>.\<close>

theorem shm_pages_freed_once:
  assumes "(mem_step E Q As)\<^sup>*\<^sup>* (mem_init al as0) m" "\<And>v. phys_to_virt Q (virt_to_phys E v) = v"
  shows "distinct (sm_live m @ sm_dropped m) \<and> set (sm_live m @ sm_dropped m) = {..<length (segs (sm_sys m))}
    \<and> (\<forall>a < length (segs (sm_sys m)). a \<in> set (sm_live m) \<longleftrightarrow>
         a \<in> list_segments (mgr (sm_sys m)) \<or> (\<exists>p v att. attached (procs (sm_sys m) p) v = Some att \<and> att_segment att = a))
    \<and> (\<forall>a < length (segs (sm_sys m)). \<exists>n. (mem_step E Q As)\<^sup>*\<^sup>* (mem_init al as0) n \<and> (mem_step E Q As)\<^sup>+\<^sup>+ n m
         \<and> length (segs (sm_sys n)) = a
         \<and> (\<exists>al' v k. alloc_pages E (pages (sm_sys n)) k = (Inr v, al') \<and> drop_args Q (segs (sm_sys m) ! a) = (v, k)))"
  (is "_ \<and> _ \<and> ?live \<and> ?freed")
proof (intro conjI)
  have ok: "mem_ok m" by (rule mem_reach_ok [OF assms(1) mem_init_ok])
  then show "distinct (sm_live m @ sm_dropped m)" "set (sm_live m @ sm_dropped m) = {..<length (segs (sm_sys m))}"
    by (simp_all add: mem_ok_def)
  show ?live using ok unfolding mem_ok_def seg_referenced_def att_set_def by auto
  have "\<exists>al' v k. alloc_pages E p k = (Inr v, al') \<and> drop_args Q s = (v, k)" if "from_allocator E p s" for p s
    using that assms(2) by (auto simp: from_allocator_def drop_args_def)
  then show ?freed using mem_run_allocs [OF assms(1)] by blast
qed

text \<open>An allocator that hands out new pages and never reuses them.\<close>

definition bump_pages :: "usize page_env" where
  "bump_pages = \<lparr>phys_to_virt = (\<lambda>p. p), dealloc_pages = (\<lambda>al _ _. al)\<rparr>"

text \<open>A segment is created and removed.\<close>

definition page_run :: "(unit, usize) shm_mem" where
  "page_run =
     (let m = drop_unreferenced bump_pages (snd (sys_shmget bump_env 7 1 5 100 0x3B6 (shm_init 0x8000 ()))) (mem_init 0x8000 ())
      in drop_unreferenced bump_pages (snd (sys_shmctl 8 1 0 None (sm_sys m))) m)"

lemma mem_shmget:
  "mem_step bump_env bump_pages free_aspace (mem_init 0x8000 ())
     (drop_unreferenced bump_pages (snd (sys_shmget bump_env 7 1 5 100 0x3B6 (shm_init 0x8000 ()))) (mem_init 0x8000 ()))"
  by (rule mem_call) (simp add: mem_init_def shm_step.shmget)

lemma page_run_reached: "(mem_step bump_env bump_pages free_aspace)\<^sup>*\<^sup>* (mem_init 0x8000 ()) page_run"
  unfolding page_run_def Let_def
  by (intro rtranclp.rtrancl_into_rtrancl [OF r_into_rtranclp [of "mem_step bump_env bump_pages free_aspace", OF mem_shmget]] mem_call shm_step.shmctl)

theorem shm_pages_freed_once_witness:
  "sm_live page_run = [] \<and> sm_dropped page_run = [0] \<and>
   (\<exists>n al' v k. (mem_step bump_env bump_pages free_aspace)\<^sup>+\<^sup>+ n page_run \<and>
      alloc_pages bump_env (pages (sm_sys n)) k = (Inr v, al') \<and> drop_args bump_pages (segs (sm_sys page_run) ! 0) = (v, k))"
proof -
  have p2v: "\<And>v. phys_to_virt bump_pages (virt_to_phys bump_env v) = v" by (simp add: bump_env_def bump_pages_def)
  note t = shm_pages_freed_once [OF page_run_reached p2v]
  have sys: "segments (mgr (sm_sys page_run)) = Map.empty" "length (segs (sm_sys page_run)) = 1"
      "procs (sm_sys page_run) = (\<lambda>_. process_shm_data_new ())"
    unfolding page_run_def Let_def drop_unreferenced_def bump_shmget
    by (simp_all add: sys_shmctl_def get_by_id_def upd_seg_def remove_segment_def get_attach_count_def Let_def IPC_PRIVATE_def)
  have d: "distinct (sm_live page_run @ sm_dropped page_run)" and u: "set (sm_live page_run) \<union> set (sm_dropped page_run) = {0}"
    using conjunct1 [OF t] conjunct1 [OF conjunct2 [OF t]] sys(2) by (simp_all add: lessThan_Suc)
  have "0 \<notin> set (sm_live page_run)"
    using conjunct1 [OF conjunct2 [OF conjunct2 [OF t]]] sys by (simp add: list_segments_def process_shm_data_new_def)
  then have live: "sm_live page_run = []" using u by (cases "sm_live page_run") auto
  then have "set (sm_dropped page_run) = {0}" "distinct (sm_dropped page_run)" using u d by simp_all
  then have "sm_dropped page_run = [0]" using distinct_card [of "sm_dropped page_run"]
    by (cases "sm_dropped page_run") (auto simp: insert_eq_iff subset_singleton_iff)
  then show ?thesis using live conjunct2 [OF conjunct2 [OF conjunct2 [OF t]]] sys(2) by auto
qed

text \<open>C29. A process that ends with a segment attached leaks it. Its attachment disappears, but the segment goes on
  counting it. So the segment stays in the manager in every later state, whatever calls are made: marking it
  with \<open>IPC_RMID\<close> and detaching it everywhere included. It is never dropped, and its pages are never returned.\<close>

theorem exit_leaks_segment:
  assumes "(mem_step E Q As)\<^sup>*\<^sup>* (mem_init al as0) m" "attached (procs (sm_sys m) pid) v = Some att"
    and "(mem_step E Q As)\<^sup>*\<^sup>* (drop_unreferenced Q (shm_exit pid (sm_sys m)) m) m'"
  shows "segments (mgr (sm_sys m')) (att_id att) = Some (att_segment att)
    \<and> att_segment att \<in> set (sm_live m') \<and> att_segment att \<notin> set (sm_dropped m')"
proof -
  let ?a = "att_segment att" and ?n = "drop_unreferenced Q (shm_exit pid (sm_sys m)) m"
  have ok: "mem_ok m" by (rule mem_reach_ok [OF assms(1) mem_init_ok])
  have n: "mem_ok ?n" by (rule mem_step_ok [OF mem_call ok]) (rule shm_exit_step)
  have "over_counted (sm_sys ?n) (att_id att) ?a"
    using over_counted_exit [OF _ assms(2)] ok by (simp add: mem_ok_def)
  then have oc: "over_counted (sm_sys m') (att_id att) ?a" by (rule over_counted_run [OF assms(3) n])
  have ok': "mem_ok m'" by (rule mem_reach_ok [OF assms(3) n])
  then have "?a < length (segs (sm_sys m'))"
    using oc core_segment(1) unfolding mem_ok_def shm_inv_def over_counted_def by blast
  moreover have "seg_referenced (sm_sys m') ?a"
    using oc by (auto simp: over_counted_def seg_referenced_def list_segments_def ran_def)
  ultimately have "?a \<in> set (sm_live m')" using ok' by (simp add: mem_ok_def)
  moreover have "?a \<notin> set (sm_dropped m')" using calculation ok' by (auto simp: mem_ok_def)
  ultimately show ?thesis using oc by (simp add: over_counted_def)
qed

text \<open>Process 1 creates a segment, attaches it at \<open>0x1000\<close> and ends; then the segment is removed.\<close>

definition leak_attached :: "(unit, usize) shm_mem" where
  "leak_attached =
     (let m = drop_unreferenced bump_pages (snd (sys_shmget bump_env 7 1 5 100 0x3B6 (shm_init 0x8000 ()))) (mem_init 0x8000 ())
      in drop_unreferenced bump_pages (snd (sys_shmat (aligns bump_env) free_aspace 8 1 1 0 0 (sm_sys m))) m)"

definition leak_run :: "(unit, usize) shm_mem" where
  "leak_run =
     (let m = drop_unreferenced bump_pages (shm_exit 1 (sm_sys leak_attached)) leak_attached
      in drop_unreferenced bump_pages (snd (sys_shmctl 9 1 0 None (sm_sys m))) m)"

lemma leak_attached_reached: "(mem_step bump_env bump_pages free_aspace)\<^sup>*\<^sup>* (mem_init 0x8000 ()) leak_attached"
  unfolding leak_attached_def Let_def
  by (intro rtranclp.rtrancl_into_rtrancl [OF r_into_rtranclp [of "mem_step bump_env bump_pages free_aspace", OF mem_shmget]]
      mem_call shm_step.shmat)

lemma leak_attached_at:
  "attached (procs (sm_sys leak_attached) 1) 0x1000 = Some \<lparr>att_id = 1, att_addr = 0x1000, att_segment = 0\<rparr>"
  unfolding leak_attached_def Let_def drop_unreferenced_def bump_shmget
  by (simp add: sys_shmat_def get_by_id_def upd_seg_def upd_proc_def validate_segment_def validate_def check_permissions_def
      shmat_vaddr_def attach_def process_shm_data_new_def free_aspace_def bump_env_def SHM_RND_def SHM_RDONLY_def align_up_4k_def
      div_align_def PAGE_SIZE_4K_def inc_attach_def Let_def)

theorem exit_leaks_segment_witness:
  "segments (mgr (sm_sys leak_run)) 1 = Some 0 \<and> 0 \<in> set (sm_live leak_run) \<and> 0 \<notin> set (sm_dropped leak_run)"
proof -
  have "mem_step bump_env bump_pages free_aspace (drop_unreferenced bump_pages (shm_exit 1 (sm_sys leak_attached)) leak_attached) leak_run"
    unfolding leak_run_def Let_def by (intro mem_call shm_step.shmctl)
  then show ?thesis
    using exit_leaks_segment [OF leak_attached_reached leak_attached_at, of leak_run] by (simp add: r_into_rtranclp)
qed

end
