(* ===== verification/Spec2Isabelle.thy ===== *)
theory Spec2Isabelle
  imports Shm Poll Epoll Select Dirents Futex User_Ptr Loader Mmap Open Mount Signal Process Clone Entry Sysinfo Procfs Syscall System Reaping Vm_Share Task Shm_Pages
begin

text \<open>
  This development verifies freeos, a Unix-like kernel in Rust built on the components of ArceOS: its
  system calls (the crate \<open>starry_api\<close> under \<open>src/api\<close>), the kernel objects behind them (\<open>starry_core\<close> under
  \<open>src/core\<close>) and its entry points (\<open>src/src\<close>). A trap enters \<open>handle_syscall\<close>, which decodes the call and
  runs one handler; handlers reach user memory through checked pointers, files through the descriptor
  table of the process, and processes, signals and futexes through the task tables.

  \<^bold>\<open>How the code is modelled.\<close> Integers are words of their width (\<open>Kernel_Prelude\<close>). A handler is a function
  from its arguments and the state it uses to a result and the new state. A result is a value or a
  \<open>kerror\<close>: an errno, an error of ArceOS that \<open>?\<close> converts, or a panic of the kernel (\<open>unwrap\<close>, \<open>expect\<close>,
  an index out of range, the checked arithmetic of \<open>Duration\<close>). Plain integer arithmetic wraps, as in a build
  without overflow checks; the one place where the model panics on it, a reference count of zero that is
  decremented in \<open>Paths\<close>, is unreachable by the invariant of the link table. Reference counted pointers are indices into stores,
  so sharing is equality of indices. What a user pointer yields is an argument of the handler, either the
  value read or the error of the check. The crates that are not part of the repository (\<open>axfs\<close>, \<open>axmm\<close>,
  \<open>axnet\<close>, \<open>axtask\<close>, \<open>axprocess\<close>, \<open>axsignal\<close>, \<open>axhal\<close>, \<open>axio\<close>, \<open>flatten_objects\<close>, \<open>weak_map\<close>) are records of
  operations given as arguments; a lemma that relies on their behaviour names it as a hypothesis
  (\<open>flatten_spec\<close>, \<open>bufreader_spec\<close>, \<open>waitq_spec\<close> and the like), and an instance shows that it can hold.

  \<^bold>\<open>Loops and waiting.\<close> Loops that end are recursive functions with a termination proof. A call that waits
  runs against the list of what others do in the rounds it gives up the processor, and has no result
  (\<^const>\<open>None\<close>) when the list ends while it waits; the properties then say in which round it returns. No
  bound is assumed on these lists. Recursion that may not end at all (interpreters of interpreters in
  \<open>load_user_app\<close>, links to themselves in \<open>resolve_symlink_path\<close>) is a partial function, and the properties
  say exactly when it returns. Where two threads race, the atomic steps are the iterations under a lock.

  \<^bold>\<open>Foundations.\<close>
  \<^item> \<open>Kernel_Prelude\<close>: words, errors, results, casts. \<open>Rust_Str\<close>: string methods. \<open>Bytes\<close>: numbers in memory.
  \<^item> \<open>Fifo_Spec\<close>: the contract of a bounded queue as a locale, with the two copy loops of its clients; the
    ring buffer of \<open>Pipe\<close> interprets it. \<open>Btree_Map\<close>: the contract of an ordered map as a locale, interpreted
    by sorted association lists; \<open>Epoll\<close> is its client.
  \<^item> \<open>Axfs\<close>, \<open>Aspace\<close>: the operations of \<open>axfs::api\<close> and of the address spaces of \<open>axmm\<close>.

  \<^bold>\<open>Files.\<close>
  \<^item> \<open>Pipe\<close> (\<open>api/src/file/pipe.rs\<close>): the ring buffer, the loops of \<open>read\<close> and \<open>write\<close>, \<open>poll\<close>. Bytes are
    neither lost, duplicated nor reordered under any interleaving, no index is out of bounds; what a read
    returns; a write completes while a reader drains the pipe.
  \<^item> \<open>Fd_Table\<close> (\<open>api/src/file/mod.rs\<close>, \<open>imp/fs/fd_ops.rs\<close>): the descriptor table, \<open>close\<close>, \<open>dup\<close>, \<open>dup2\<close>, \<open>fcntl\<close>,
    copying at fork. \<open>File_Like\<close>: the kinds of file objects, their status and readiness, \<open>pipe2\<close> (\<open>imp/fs/pipe.rs\<close>).
  \<^item> \<open>Stdio\<close> (\<open>file/stdio.rs\<close>), \<open>Net\<close> (\<open>file/net.rs\<close>) and \<open>Objects\<close> (\<open>file/fs.rs\<close> and all implementors of
    \<open>FileLike\<close>): reading and writing every kind of object. \<open>Objects\<close> has the step relation of the calls on
    descriptors and proves the file layer well formed in every reachable state.
  \<^item> \<open>Io\<close> (\<open>imp/fs/io.rs\<close>): \<open>read\<close> to \<open>splice\<close>; vectored reads equal one read, the chunked copy between
    files equals one transfer. \<open>Open\<close> (\<open>imp/fs/fd_ops.rs\<close>, \<open>imp/fs/stat.rs\<close>): \<open>openat\<close>, \<open>stat\<close>, \<open>access\<close>.
  \<^item> \<open>Paths\<close> (\<open>api/src/path.rs\<close>, \<open>imp/fs/ctl.rs\<close>): paths and the table of hard links, which refines a set of
    names per file; \<open>Dirents\<close> (\<open>getdents64\<close>); \<open>Mount\<close> (\<open>imp/fs/mount.rs\<close>); \<open>Procfs\<close> (\<open>core/src/file\<close>).
  \<^item> \<open>Poll\<close>, \<open>Select\<close>, \<open>Epoll\<close> (\<open>imp/fs/io_mpx\<close>): the waiting loop and the three interfaces; the scan over
    machine words of \<open>select\<close> equals a definition on sets of descriptors. \<open>Sockaddr\<close> (\<open>api/src/socket.rs\<close>).

  \<^bold>\<open>Memory.\<close>
  \<^item> \<open>User_Ptr\<close> (\<open>api/src/ptr.rs\<close>): region checks, slices and strings; the scan for a terminator ends and reads
    checked pages only. \<open>Mmap\<close> (\<open>imp/mm\<close>): \<open>brk\<close>, \<open>mmap\<close>, \<open>munmap\<close>, \<open>mprotect\<close> with their bounds.
  \<^item> \<open>Shm\<close> (\<open>core/src/shm.rs\<close>, \<open>imp/mm/shm.rs\<close>): System V segments; an attached segment stays alive.
    \<open>Shm_Pages\<close> adds the drop of segments: pages go back once, when the last reference is gone, and a process that
    ends with a segment attached leaks it.
  \<^item> \<open>Loader\<close> (\<open>core/src/mm.rs\<close>, \<open>imp/task/execve.rs\<close>, \<open>src/mm.rs\<close>): scripts, ELF images, \<open>execve\<close>, page faults.

  \<^bold>\<open>Processes.\<close>
  \<^item> \<open>Signal\<close> (\<open>api/src/signal.rs\<close>, \<open>imp/signal.rs\<close>), \<open>Process\<close> (\<open>core/src/task.rs\<close>, \<open>imp/task\<close>): task tables,
    delivery, \<open>kill\<close>, groups, \<open>waitpid\<close>, \<open>exit\<close>. \<open>Clone\<close> (\<open>imp/task/clone.rs\<close>): what a child shares, copies and
    starts afresh. \<open>Entry\<close> (\<open>src/entry.rs\<close>, \<open>imp/task/thread.rs\<close>): the first process.
  \<^item> \<open>Futex\<close> (\<open>core/src/futex.rs\<close>, \<open>imp/futex.rs\<close>): waiting in two steps, waking and requeueing in order.
  \<^item> \<open>Time_Stat\<close> (\<open>core/src/time.rs\<close>, \<open>api/src/time.rs\<close>, \<open>imp/time.rs\<close>, \<open>imp/task/schedule.rs\<close>): time accounting,
    clocks and \<open>nanosleep\<close>. \<open>Sysinfo\<close> (\<open>imp/sys.rs\<close>): identity, \<open>uname\<close>, terminal requests.

  \<^bold>\<open>The system call entry.\<close> \<open>Syscall\<close> (\<open>src/syscall.rs\<close>): decoding of all calls, the return value and the time
  accounting around the handler, and the composition with the calls on descriptors. This theory adds the
  property that spans them: data through a pipe from one system call to the next.

  \<^bold>\<open>Parts that act on each other.\<close>
  \<^item> \<open>Ownership\<close>: the references in descriptor tables counted, with a locale for reference counting as a contract
    on multisets (\<open>counted_refs\<close>), interpreted by the \<open>Arc\<close>s of the model. \<open>System\<close>: all processes, their tables, the
    objects and the calls in progress in one state; end of file and \<open>EPIPE\<close> under any interleaving of reading,
    writing, closing, forking and exiting; a file exists exactly while something refers to it.
  \<^item> \<open>Reaping\<close>: exiting children against the loop of \<open>waitpid\<close>, in which looking and sleeping are two steps.
  \<^item> \<open>Vm_Share\<close>: the address spaces of all processes under starting, cloning, \<open>execve\<close>, memory calls, exiting and
    reaping, with \<open>Drop for ProcessData\<close> (\<open>core/src/task.rs\<close>).
  \<^item> \<open>Task\<close> (\<open>core/src/task.rs\<close>, \<open>src/main.rs\<close>): the extension of a task with its time statistics over its whole
    history, the start of a user task, the wait queue given to \<open>axsignal\<close>, the namespace of the current task,
    and the loop over the programs given at build time.

  \<^bold>\<open>Not modelled.\<close> The user programs under \<open>src/apps\<close>, which run on the kernel and are not part of it; the build
  script, which runs on the build host; placing the nodes of \<open>/proc\<close> in the file system, which only calls
  \<open>axfs\<close>; logging. There is no single state of the whole kernel: the entry is joined with the calls on
  descriptors, and the four state machines above (files, waiting, address spaces, shared memory) are
  separate, each over the state its calls share. The memory model is sequentially consistent at the granularity of the steps.
\<close>

section \<open>Data through a pipe, from system call to system call\<close>

lemma sys_write_object:
  assumes "load ubuf len = Inr bs" "get_file_like F t fd = Inr a" "objs (k_files W) a = Some obj"
    "file_write D E obj bs W = Some (r, W')"
  shows "sys_write F (obj_io D E) t load fd ubuf len \<lparr>world = W, stores = st\<rparr> = (r, \<lparr>world = W', stores = st\<rparr>)"
  using assms by (simp add: sys_write_def on_world_def obj_io_def on_obj_def)

lemma sys_read_object:
  assumes "chk ubuf len = Inr ()" "get_file_like F t fd = Inr a" "objs (k_files W) a = Some obj"
    "file_read D E obj (unat len) W = Some (Inr bs, W')"
  shows "sys_read F (obj_io D E) t chk fd ubuf len \<lparr>world = W, stores = st\<rparr> =
    (Inr (length bs), \<lparr>world = W', stores = st @ [(ubuf, bs)]\<rparr>)"
  using assms by (simp add: sys_read_def on_world_def obj_io_def on_obj_def)

text \<open>After a successful \<open>pipe2\<close>, the objects behind the two descriptors pass data on.\<close>

lemma new_pipe_passes:
  assumes "flatten_spec F okt" "okt t" "a \<noteq> b"
    and "sys_pipe2 F (a, b, c) user (k_files W, t) = (Inr (rfd, wfd), (fs, t'))"
    and "bs \<noteq> []" "length bs < RING_BUFFER_SIZE" "0 < n"
  shows "\<exists>W1 W2. get_file_like F t' rfd = Inr a \<and> get_file_like F t' wfd = Inr b \<and>
    objs fs a = Some (FPipe True c) \<and> objs fs b = Some (FPipe False c) \<and> objs (k_files W1) = objs fs \<and>
    file_write D E (FPipe False c) bs (W\<lparr>k_files := fs\<rparr>) = Some (Inr (length bs), W1) \<and>
    file_read D E' (FPipe True c) n W1 = Some (Inr (take n bs), W2)"
proof -
  let ?sh = "\<lparr>buffer = ring_new, strong_count = 2\<rparr>" and ?W = "W\<lparr>k_files := fs\<rparr>"
  have o: "fd_index rfd \<noteq> fd_index wfd" "fo_get F t' = (fo_get F t)(fd_index rfd \<mapsto> a, fd_index wfd \<mapsto> b)"
    "objs fs = (objs (k_files W))(a \<mapsto> FPipe True c, b \<mapsto> FPipe False c)" "pipe_bufs fs c = Some ?sh"
    using sys_pipe2_outcome [OF assms(1-3), where c = c and user = user and fs = "k_files W"] assms(4) by auto
  have "available_write ring_new = RING_BUFFER_SIZE" "available_read ring_new = 0"
    using available_sum [OF ring_new_inv(1)] length_ring_contents [of ring_new] by simp_all
  then obtain sh1 sh2 where p: "pipe_write False (w_pipe E) bs ?sh = Some (Inr (length bs), sh1)"
    "pipe_read True (w_pipe E') n sh1 = Some (Inr (take n bs), sh2)"
    using pipe_write_then_read [of ?sh bs n "w_pipe E" "w_pipe E'"] assms(5-7) by (auto simp: closed_def)
  have "file_write D E (FPipe False c) bs ?W = Some (Inr (length bs), set_pipe c sh1 ?W)"
    using o(4) p(1) by (simp add: file_write_def)
  moreover have "file_read D E' (FPipe True c) n (set_pipe c sh1 ?W) = Some (Inr (take n bs), set_pipe c sh2 (set_pipe c sh1 ?W))"
    using p(2) by (simp add: file_read_def)
  ultimately show ?thesis
    using o assms(3) by (auto simp: get_file_like_def)
qed

lemma ucast_scast_fd [simp]: "(ucast (scast (fd :: i32) :: usize) :: i32) = fd"
  by (rule bit_word_eqI) (auto simp: bit_simps)

definition regs3 :: "usize \<Rightarrow> usize \<Rightarrow> usize \<Rightarrow> regs" where
  "regs3 x y z = \<lparr>arg0 = x, arg1 = y, arg2 = z, arg3 = 0, arg4 = 0, arg5 = 0\<rparr>"

lemma decode_pipe_calls:
  "decode A ''pipe2'' (regs3 x y z) = Some (Fs (Sys_pipe2 x (ucast y)))"
  "decode A ''write'' (regs3 x y z) = Some (Io (Sys_write (ucast x) y z))"
  "decode A ''read'' (regs3 x y z) = Some (Io (Sys_read (ucast x) y z))"
  by (simp_all add: regs3_def decode_def decode_fs_ctl_def decode_fd_def decode_io_def decode_fs_def)

lemma handle_syscall_ok:
  assumes "sysno_from Y (ucast num) = Inr name" "decode A name r = Some c" "run c k = Some (Inr v, k')"
  shows "\<exists>ts'. handle_syscall Y A run t0 t1 num r (ts, k) = Some (Inr v, ts', k')"
  using assms by (simp add: handle_syscall_def unwrap_result_def Let_def)

lemma handle_syscall_zero:
  assumes "errno_spec Y" "sysno_from Y (ucast num) = Inr name" "decode A name r = Some c"
    "handle_syscall Y A run t0 t1 num r (ts, k) = Some (Inr 0, ts', k')"
  shows "run c k = Some (Inr 0, k')"
proof -
  obtain res k1 where r: "run c k = Some (res, k1)" "unwrap_result Y res = Inr 0" "k1 = k'"
    using assms(2-4) by (auto simp: handle_syscall_def Let_def split: option.splits prod.splits sum.splits)
  have "\<exists>v. res = Inr v"
  proof (rule ccontr)
    assume "\<not> (\<exists>v. res = Inr v)"
    then obtain e where e: "res = Inl e" by (cases res) auto
    with r(2) have "e \<noteq> Panic" by (auto simp: unwrap_result_def)
    from unwrap_result_error [OF assms(1) this] e r(2) show False by auto
  qed
  with r show ?thesis by (auto simp: unwrap_result_def)
qed

text \<open>C8. What a program writes into a new pipe comes out of it, from system call to system call: when \<open>pipe2\<close>
  has returned 0, it has stored two descriptors in the program's memory; a \<open>write\<close> of up to 255 bytes to
  the second returns their number at once, and a \<open>read\<close> of the first then returns as many of them as its
  buffer holds and stores exactly those bytes, in order, in the program's memory.\<close>

theorem syscalls_pipe_transfer:
  fixes S :: "('f, 'd, ('u, 'v) socket, 'w, 'b, 't) file_state"
  assumes "flatten_spec F okt" and "okt (fl_table S)" and "errno_spec Y"
    and "sysno_from Y (ucast np) = Inr ''pipe2''" and "sysno_from Y (ucast nw) = Inr ''write''"
    and "sysno_from Y (ucast nr) = Inr ''read''"
    and "um_load U ubuf len = Inr bs" and "bs \<noteq> []" and "length bs < RING_BUFFER_SIZE"
    and "um_check U rbuf rlen = Inr ()" and "rlen \<noteq> 0"
    and "handle_syscall Y A (run_files F D E U other) t0 t1 np (regs3 p flags 0) (ts, S) = Some (Inr 0, ts1, S1)"
  shows "\<exists>rfd wfd S2 S3. fl_stores S1 = fl_stores S @ [(p, le_bytes 4 (unat rfd) @ le_bytes 4 (unat wfd))] \<and>
    (\<exists>ts2. handle_syscall Y A (run_files F D E U other) t2 t3 nw (regs3 (scast (wfd :: i32)) ubuf len) (ts1, S1) =
       Some (Inr (word_of_nat (length bs)), ts2, S2) \<and>
     (\<exists>ts3. handle_syscall Y A (run_files F D E U other) t4 t5 nr (regs3 (scast (rfd :: i32)) rbuf rlen) (ts2, S2) =
       Some (Inr (word_of_nat (min (unat rlen) (length bs))), ts3, S3))) \<and>
    fl_stores S3 = fl_stores S1 @ [(rbuf, take (unat rlen) bs)]"
proof -
  let ?a = "fl_next S" and ?R = "run_files F D E U other"
  have "?R (Fs (Sys_pipe2 p (ucast flags))) S = Some (Inr 0, S1)"
    using handle_syscall_zero [OF assms(3,4) decode_pipe_calls(1) assms(12)] .
  then have "run_pipe2 F U p S = (Inr 0, S1)" by (simp add: run_files_def on_files_def)
  then obtain rfd wfd fs t' where c: "sys_pipe2 F (?a, ?a + 1, ?a) (um_check U p 8) (k_files (fl_world S), fl_table S) =
      (Inr (rfd, wfd), (fs, t'))"
    and S1: "fl_world S1 = (fl_world S)\<lparr>k_files := fs\<rparr>" "fl_table S1 = t'"
      "fl_stores S1 = fl_stores S @ [(p, le_bytes 4 (unat rfd) @ le_bytes 4 (unat wfd))]"
    by (auto simp: run_pipe2_def Let_def split: prod.splits sum.splits)
  have n: "0 < unat rlen" using assms(11) by (simp add: unat_gt_0)
  obtain W1 W2 where w: "get_file_like F t' rfd = Inr ?a" "get_file_like F t' wfd = Inr (?a + 1)"
    "objs fs ?a = Some (FPipe True ?a)" "objs fs (?a + 1) = Some (FPipe False ?a)" "objs (k_files W1) = objs fs"
    "file_write D E (FPipe False ?a) bs (fl_world S1) = Some (Inr (length bs), W1)"
    "file_read D E (FPipe True ?a) (unat rlen) W1 = Some (Inr (take (unat rlen) bs), W2)"
    using new_pipe_passes [OF assms(1,2) _ c assms(8,9) n, of D E E] S1(1) by auto
  let ?S2 = "S1\<lparr>fl_world := W1\<rparr>"
  let ?S3 = "?S2\<lparr>fl_world := W2, fl_stores := fl_stores S1 @ [(rbuf, take (unat rlen) bs)]\<rparr>"
  have o: "objs (k_files (fl_world S1)) = objs fs" using S1(1) by simp
  have "write_returns F D E t' (fl_world S1) wfd bs" "read_returns F D E t' W1 rfd (unat rlen)"
    using w o by (simp_all add: write_returns_def read_returns_def obj_of_fd_def)
  moreover have "sys_write F (obj_io D E) t' (um_load U) wfd ubuf len (io_of S1) = (Inr (length bs), \<lparr>world = W1, stores = fl_stores S1\<rparr>)"
    unfolding io_of_def using sys_write_object [of "um_load U", OF assms(7) w(2) _ w(6)] w(4) o by simp
  moreover have "sys_read F (obj_io D E) t' (um_check U) rfd rbuf rlen (io_of ?S2) =
      (Inr (length (take (unat rlen) bs)), \<lparr>world = W2, stores = fl_stores S1 @ [(rbuf, take (unat rlen) bs)]\<rparr>)"
    unfolding io_of_def using sys_read_object [of "um_check U", OF assms(10) w(1) _ w(7)] w(3,5) by simp
  ultimately have run: "?R (Io (Sys_write wfd ubuf len)) S1 = Some (Inr (word_of_nat (length bs)), ?S2)"
    "?R (Io (Sys_read rfd rbuf rlen)) ?S2 = Some (Inr (word_of_nat (min (unat rlen) (length bs))), ?S3)"
    using assms(7,10) S1(2) by (simp_all add: run_files_def on_files_def run_io_def ret_io_def min.commute)
  have dec: "decode A ''write'' (regs3 (scast wfd) ubuf len) = Some (Io (Sys_write wfd ubuf len))"
    "decode A ''read'' (regs3 (scast rfd) rbuf rlen) = Some (Io (Sys_read rfd rbuf rlen))"
    by (simp_all add: decode_pipe_calls)
  obtain ts2 where ts2: "handle_syscall Y A ?R t2 t3 nw (regs3 (scast wfd) ubuf len) (ts1, S1) =
      Some (Inr (word_of_nat (length bs)), ts2, ?S2)"
    using handle_syscall_ok [where run = ?R, OF assms(5) dec(1) run(1)] by blast
  obtain ts3 where "handle_syscall Y A ?R t4 t5 nr (regs3 (scast rfd) rbuf rlen) (ts2, ?S2) =
      Some (Inr (word_of_nat (min (unat rlen) (length bs))), ts3, ?S3)"
    using handle_syscall_ok [where run = ?R, OF assms(6) dec(2) run(2)] by blast
  with ts2 S1(3) show ?thesis by (intro exI [of _ rfd] exI [of _ wfd] exI [of _ ?S2] exI [of _ ?S3]) auto
qed

text \<open>A program on riscv64 whose memory is accessible everywhere and holds two bytes.\<close>

definition demo_umem :: umem where
  "demo_umem = \<lparr>um_check = (\<lambda>a n. Inr ()), um_load = (\<lambda>a n. Inr [104, 105])\<rparr>"

definition demo_state :: "(unit, unit, (unit, unit) socket, u8 list, u8 list, nat \<rightharpoonup> arc) file_state" where
  "demo_state = \<lparr>fl_world = boot_world, fl_table = Map.empty, fl_stores = [], fl_next = 10\<rparr>"

theorem syscalls_pipe_transfer_witness:
  "\<exists>ts1 S1 rfd wfd S2 S3 ts2 ts3.
     handle_syscall riscv_env Riscv64 (run_files map_objects null_dev \<lparr>w_pipe = [], w_keys = []\<rparr> demo_umem (\<lambda>c S. None))
       0 10 59 (regs3 0x3000 0 0) (time_stat_new, demo_state) = Some (Inr 0, ts1, S1) \<and>
     fl_stores S1 = [(0x3000, le_bytes 4 (unat rfd) @ le_bytes 4 (unat wfd))] \<and>
     handle_syscall riscv_env Riscv64 (run_files map_objects null_dev \<lparr>w_pipe = [], w_keys = []\<rparr> demo_umem (\<lambda>c S. None))
       20 30 64 (regs3 (scast (wfd :: i32)) 0x1000 2) (ts1, S1) = Some (Inr 2, ts2, S2) \<and>
     handle_syscall riscv_env Riscv64 (run_files map_objects null_dev \<lparr>w_pipe = [], w_keys = []\<rparr> demo_umem (\<lambda>c S. None))
       40 50 63 (regs3 (scast (rfd :: i32)) 0x2000 16) (ts2, S2) = Some (Inr 2, ts3, S3) \<and>
     fl_stores S3 = fl_stores S1 @ [(0x2000, [104, 105])]"
proof -
  let ?R = "run_files map_objects null_dev \<lparr>w_pipe = [], w_keys = []\<rparr> demo_umem (\<lambda>c S. None)"
  have ok: "map_objects_wf (fl_table demo_state)" by (simp add: map_objects_wf_def demo_state_def)
  have n: "sysno_from riscv_env (ucast (59 :: usize)) = Inr ''pipe2''" "sysno_from riscv_env (ucast (64 :: usize)) = Inr ''write''"
    "sysno_from riscv_env (ucast (63 :: usize)) = Inr ''read''"
    by (simp_all add: riscv_env_def)
  have "\<exists>S1. ?R (Fs (Sys_pipe2 0x3000 (ucast (0 :: usize)))) demo_state = Some (Inr 0, S1)"
    by (simp add: run_files_def on_files_def run_pipe2_def Let_def demo_state_def demo_umem_def sys_pipe2_def pipe_new_def
        add_file_like_def map_objects_add_fresh)
  then obtain ts1 S1 where c: "handle_syscall riscv_env Riscv64 ?R 0 10 59 (regs3 0x3000 0 0) (time_stat_new, demo_state) = Some (Inr 0, ts1, S1)"
    using handle_syscall_ok [OF n(1) decode_pipe_calls(1), of ?R "0x3000" 0 demo_state] by blast
  have m: "um_load demo_umem 0x1000 2 = Inr [104, 105]" "um_check demo_umem 0x2000 16 = Inr ()"
    by (simp_all add: demo_umem_def)
  have p: "[104, 105 :: u8] \<noteq> []" "length [104, 105 :: u8] < RING_BUFFER_SIZE" "(16 :: usize) \<noteq> 0" by simp_all
  from syscalls_pipe_transfer [OF map_objects_spec, OF ok riscv_env_spec n m(1) p(1,2) m(2) p(3) c, of 20 30 40 50]
  obtain rfd wfd :: i32 and S2 S3 ts2 ts3 where x: "fl_stores S1 = fl_stores demo_state @ [(0x3000, le_bytes 4 (unat rfd) @ le_bytes 4 (unat wfd))]"
    "handle_syscall riscv_env Riscv64 ?R 20 30 64 (regs3 (scast wfd) 0x1000 2) (ts1, S1) =
       Some (Inr (word_of_nat (length [104, 105 :: u8])), ts2, S2)"
    "handle_syscall riscv_env Riscv64 ?R 40 50 63 (regs3 (scast rfd) 0x2000 16) (ts2, S2) =
       Some (Inr (word_of_nat (min (unat (16 :: usize)) (length [104, 105 :: u8]))), ts3, S3)"
    "fl_stores S3 = fl_stores S1 @ [(0x2000, take (unat (16 :: usize)) [104, 105])]"
    by blast
  have e: "(word_of_nat (length [104, 105 :: u8]) :: isize) = 2"
    "(word_of_nat (min (unat (16 :: usize)) (length [104, 105 :: u8])) :: isize) = 2"
    "take (unat (16 :: usize)) [104, 105 :: u8] = [104, 105]" "fl_stores demo_state = []"
    by (simp_all add: demo_state_def)
  show ?thesis using c x unfolding e append_Nil by blast
qed

end
